(* ===== verification/Prelude.thy ===== *)
theory Prelude
  imports Main "HOL-Library.Word" "HOL-Library.Monad_Syntax"
begin

text \<open>
  Shared vocabulary of the development: the machine integer types of the C sources, the values the C
  standard leaves undetermined, the shift operators of C, the interface of a keyed store with the
  lemmas its clients use, and runs of a step relation with the interface of a forward simulation.

  A C function that can reach an access outside an allocated object returns an \<open>option\<close>;
  \<^const>\<open>None\<close> is that undefined behaviour.  A C \<open>int\<close> is kept as its 32-bit two's complement
  pattern, so that \<open>-1\<close> is the word with every bit set.
\<close>

unbundle bit_operations_syntax

named_theorems c_shift \<open>C shifts with an in-range count\<close>
named_theorems store_law \<open>what a store holds after a write\<close>

type_synonym u8 = "8 word"
type_synonym u16 = "16 word"
type_synonym u32 = "32 word"
type_synonym u64 = "64 word"
type_synonym c_int = "32 word"

subsection \<open>Undetermined values\<close>

text \<open>
  Everything the C standard leaves open while one instruction is simulated, as one record that the
  definitions take as an argument and the theorems quantify over: the value of a shift whose count is
  negative or not less than the width of its operand, the content of the automatic variables that
  are read before they are assigned, and the value of a call of a function that ends without
  \<open>return\<close>.
\<close>

record indet =
  big_shl :: "u32 \<Rightarrow> int \<Rightarrow> u32"        \<comment> \<open>\<open>v << n\<close> with \<open>n\<close> outside \<open>0..31\<close>\<close>
  big_shr :: "u32 \<Rightarrow> int \<Rightarrow> u32"        \<comment> \<open>\<open>v >> n\<close>, \<open>v\<close> unsigned, \<open>n\<close> outside \<open>0..31\<close>\<close>
  big_sar :: "u32 \<Rightarrow> int \<Rightarrow> u32"        \<comment> \<open>\<open>v >> n\<close>, \<open>v\<close> signed, \<open>n\<close> outside \<open>0..31\<close>\<close>
  uninit_bits4_11 :: u32               \<comment> \<open>\<open>bits4_11\<close> of \<open>arm_execute_instruction\<close>\<close>
  uninit_shift_imm :: u32              \<comment> \<open>\<open>shift_imm\<close> of \<open>shiftedRegisterOperand\<close>\<close>
  uninit_word :: u32                   \<comment> \<open>an unassigned \<open>uint32_t\<close> passed as an out parameter\<close>
  uninit_byte :: u8                    \<comment> \<open>an unassigned \<open>uint8_t\<close> passed as an out parameter\<close>
  missing_return :: c_int              \<comment> \<open>the value of a call that ends without \<open>return\<close>\<close>

subsection \<open>The shift operators of C on 32-bit operands\<close>

text \<open>
  Inside the range of the count these are the bitwise shifts; a left shift of a negative \<open>int\<close> shifts
  its bit pattern and a right shift of one copies the sign, as GCC documents.
\<close>

definition c_shl :: "indet \<Rightarrow> u32 \<Rightarrow> int \<Rightarrow> u32" where
  "c_shl k v n = (if 0 \<le> n \<and> n < 32 then push_bit (nat n) v else big_shl k v n)"

definition c_shr :: "indet \<Rightarrow> u32 \<Rightarrow> int \<Rightarrow> u32" where
  "c_shr k v n = (if 0 \<le> n \<and> n < 32 then drop_bit (nat n) v else big_shr k v n)"

definition c_sar :: "indet \<Rightarrow> u32 \<Rightarrow> int \<Rightarrow> u32" where
  "c_sar k v n = (if 0 \<le> n \<and> n < 32 then signed_drop_bit (nat n) v else big_sar k v n)"

lemma c_shl_in_range [c_shift, simp]: "0 \<le> n \<Longrightarrow> n < 32 \<Longrightarrow> c_shl k v n = push_bit (nat n) v"
  by (simp add: c_shl_def)

lemma c_shr_in_range [c_shift, simp]: "0 \<le> n \<Longrightarrow> n < 32 \<Longrightarrow> c_shr k v n = drop_bit (nat n) v"
  by (simp add: c_shr_def)

lemma c_sar_in_range [c_shift, simp]: "0 \<le> n \<Longrightarrow> n < 32 \<Longrightarrow> c_sar k v n = signed_drop_bit (nat n) v"
  by (simp add: c_sar_def)

text \<open>
  Two behaviours of an oversized left shift occur in practice: the count is taken modulo 32, or
  every bit is shifted out.  Under either of them the operand of a shift by 32 is kept or cleared.
\<close>

definition shl_by_width_keeps_or_clears :: "indet \<Rightarrow> bool" where
  "shl_by_width_keeps_or_clears k \<longleftrightarrow> (\<forall>v. big_shl k v 32 = v \<or> big_shl k v 32 = 0)"

text \<open>The indeterminate values of one concrete host, used where a definition is evaluated.\<close>

definition host :: indet where
  "host = \<lparr>big_shl = (\<lambda>v n. push_bit (nat (n mod 32)) v), big_shr = (\<lambda>v n. drop_bit (nat (n mod 32)) v),
     big_sar = (\<lambda>v n. signed_drop_bit (nat (n mod 32)) v), uninit_bits4_11 = 1, uninit_shift_imm = 0,
     uninit_word = 0, uninit_byte = 0, missing_return = 0\<rparr>"

lemma host_keeps [simp]: "shl_by_width_keeps_or_clears host"
  by (simp add: shl_by_width_keeps_or_clears_def host_def)

subsection \<open>Words\<close>

lemma take_bit_drop_bit_less: "unat (take_bit n (drop_bit m (w::'a::len word))) < 2 ^ n"
  by (simp add: unsigned_take_bit_eq unsigned_drop_bit_eq)

lemma word_and_1_cases: "(w::'a::len word) AND 1 = 0 \<or> w AND 1 = 1"
  by (simp add: and_one_eq mod2_eq_if)

subsection \<open>Keyed stores\<close>

text \<open>
  Registers, bytes of the simulated memory and the registers of the processor are each a store: a
  key is valid or not, a valid key can be read and written, and a write changes that key only.  The
  clients write one key after the other (a word as four bytes, a register file as sixteen registers,
  a memory block byte by byte).
\<close>

fun write_all :: "('s \<Rightarrow> 'k \<Rightarrow> 'v \<Rightarrow> 's option) \<Rightarrow> 's \<Rightarrow> ('k \<times> 'v) list \<Rightarrow> 's option" where
  "write_all wr s [] = Some s"
| "write_all wr s ((k, v) # kvs) = do { s' \<leftarrow> wr s k v; write_all wr s' kvs }"

locale keyed_store =
  fixes rd :: "'s \<Rightarrow> 'k \<Rightarrow> 'v option"
    and wr :: "'s \<Rightarrow> 'k \<Rightarrow> 'v \<Rightarrow> 's option"
    and ok :: "'s \<Rightarrow> 'k \<Rightarrow> bool"
  assumes rd_valid: "ok s k \<Longrightarrow> \<exists>v. rd s k = Some v"
    and wr_valid: "ok s k \<Longrightarrow> \<exists>s'. wr s k v = Some s'"
    and wr_ok: "wr s k v = Some s' \<Longrightarrow> ok s' k' = ok s k'"
    and rd_same: "wr s k v = Some s' \<Longrightarrow> rd s' k = Some v"
    and rd_other: "wr s k v = Some s' \<Longrightarrow> k' \<noteq> k \<Longrightarrow> rd s' k' = rd s k'"
begin

lemma write_all_total: "list_all (\<lambda>(k, v). ok s k) kvs \<Longrightarrow> \<exists>s'. write_all wr s kvs = Some s'"
proof (induction kvs arbitrary: s)
  case (Cons kv kvs)
  obtain k v where kv: "kv = (k, v)" by (cases kv)
  with Cons.prems obtain s' where s': "wr s k v = Some s'" using wr_valid by fastforce
  with Cons.prems kv have "list_all (\<lambda>(k, v). ok s' k) kvs" by (simp add: wr_ok)
  with Cons.IH s' kv show ?case by simp
qed simp

lemma write_all_ok: "write_all wr s kvs = Some s' \<Longrightarrow> ok s' k = ok s k"
proof (induction kvs arbitrary: s)
  case (Cons kv kvs)
  obtain k' v where kv: "kv = (k', v)" by (cases kv)
  with Cons.prems obtain t where t: "wr s k' v = Some t" "write_all wr t kvs = Some s'"
    by (auto simp: bind_eq_Some_conv)
  then show ?case using Cons.IH [OF t(2)] wr_ok [OF t(1)] by simp
qed simp

lemma write_all_other: "write_all wr s kvs = Some s' \<Longrightarrow> k \<notin> fst ` set kvs \<Longrightarrow> rd s' k = rd s k"
proof (induction kvs arbitrary: s)
  case (Cons kv kvs)
  obtain k' v where kv: "kv = (k', v)" by (cases kv)
  with Cons.prems obtain t where t: "wr s k' v = Some t" "write_all wr t kvs = Some s'"
    by (auto simp: bind_eq_Some_conv)
  from Cons.prems kv have "k \<noteq> k'" "k \<notin> fst ` set kvs" by auto
  then show ?case using Cons.IH [OF t(2)] rd_other [OF t(1)] by simp
qed simp

lemma write_all_same:
  "write_all wr s kvs = Some s' \<Longrightarrow> distinct (map fst kvs) \<Longrightarrow> (k, v) \<in> set kvs \<Longrightarrow> rd s' k = Some v"
proof (induction kvs arbitrary: s)
  case (Cons kv kvs)
  obtain k' v' where kv: "kv = (k', v')" by (cases kv)
  with Cons.prems obtain t where t: "wr s k' v' = Some t" "write_all wr t kvs = Some s'"
    by (auto simp: bind_eq_Some_conv)
  show ?case
  proof (cases "k = k'")
    case True
    with Cons.prems kv have "k \<notin> fst ` set kvs" "v = v'" by (auto simp: image_iff)
    then show ?thesis using True write_all_other [OF t(2)] rd_same [OF t(1)] by simp
  next
    case False
    with Cons.prems kv show ?thesis using Cons.IH [OF t(2)] by simp
  qed
qed simp

end

subsection \<open>Runs and simulations\<close>

text \<open>Runs of a step relation whose steps emit events.\<close>

inductive runs_of :: "('e list \<Rightarrow> 'c \<Rightarrow> 'c \<Rightarrow> bool) \<Rightarrow> 'e list \<Rightarrow> 'c \<Rightarrow> 'c \<Rightarrow> bool" for step where
  stay: "runs_of step [] c c"
| go: "step es c c' \<Longrightarrow> runs_of step es' c' c'' \<Longrightarrow> runs_of step (es @ es') c c''"

lemma runs_of_append:
  "runs_of step es c c' \<Longrightarrow> runs_of step es' c' c'' \<Longrightarrow> runs_of step (es @ es') c c''"
  by (induction rule: runs_of.induct) (auto intro: runs_of.go)

lemma runs_of_one: "step es c c' \<Longrightarrow> runs_of step es c c'"
  using runs_of.go [OF _ runs_of.stay] by fastforce

lemma runs_of_then: "step es c c' \<Longrightarrow> runs_of step es' c' c'' \<Longrightarrow> es'' = es @ es' \<Longrightarrow> runs_of step es'' c c''"
  by (simp add: runs_of.go)

lemma runs_of_invariant:
  "runs_of step es c c' \<Longrightarrow> P c \<Longrightarrow> (\<And>es c c'. step es c c' \<Longrightarrow> P c \<Longrightarrow> P c') \<Longrightarrow> P c'"
  by (induction rule: runs_of.induct) auto

text \<open>A forward simulation: a step is a run of the abstract system with the same events.\<close>

locale forward_simulation =
  fixes step :: "'e list \<Rightarrow> 'c \<Rightarrow> 'c \<Rightarrow> bool"
    and abstract_run :: "'e list \<Rightarrow> 'a \<Rightarrow> 'a \<Rightarrow> bool"
    and related :: "'c \<Rightarrow> 'a \<Rightarrow> bool"
  assumes empty_run: "abstract_run [] a a"
    and append_run: "abstract_run es a a' \<Longrightarrow> abstract_run es' a' a'' \<Longrightarrow> abstract_run (es @ es') a a''"
    and simulate: "related c a \<Longrightarrow> step es c c' \<Longrightarrow> \<exists>a'. abstract_run es a a' \<and> related c' a'"
begin

lemma simulate_runs: "runs_of step es c c' \<Longrightarrow> related c a \<Longrightarrow> \<exists>a'. abstract_run es a a' \<and> related c' a'"
proof (induction arbitrary: a rule: runs_of.induct)
  case (go es c c' es' c'')
  then show ?case using simulate [OF go.prems go.hyps(1)] append_run by blast
qed (use empty_run in blast)

end

end
