(* ===== verification/Util.thy ===== *)
theory Util
  imports Prelude
begin

text \<open>
  The bit macros of \<open>util.h\<close> and the functions of \<open>util.c\<close>.  A macro is modelled at each width it is
  used with; the masks are built as the macros build them, from the \<open>int\<close> \<open>~0\<close>.
\<close>

subsection \<open>util.h\<close>

definition get_bit :: "indet \<Rightarrow> u32 \<Rightarrow> int \<Rightarrow> u32" where
  "get_bit k x i = c_shr k x i AND 1"

definition get_bit64 :: "u64 \<Rightarrow> nat \<Rightarrow> u64" where
  "get_bit64 x i = drop_bit i x AND 1"

definition set_bit_macro :: "indet \<Rightarrow> u32 \<Rightarrow> int \<Rightarrow> u32" where
  "set_bit_macro k x i = x OR c_shl k 1 i"

definition clr_bit_macro :: "indet \<Rightarrow> u32 \<Rightarrow> int \<Rightarrow> u32" where
  "clr_bit_macro k x i = x AND NOT (c_shl k 1 i)"

definition ones_above :: "indet \<Rightarrow> int \<Rightarrow> u32" where
  "ones_above k n = c_shl k (c_sar k (NOT 0) n) n"

definition get_bits :: "indet \<Rightarrow> u32 \<Rightarrow> int \<Rightarrow> int \<Rightarrow> u32" where
  "get_bits k x h l = c_shr k x l AND NOT (ones_above k (h - l + 1))"

definition get_bits64 :: "indet \<Rightarrow> u64 \<Rightarrow> nat \<Rightarrow> nat \<Rightarrow> u64" where
  "get_bits64 k x h l = drop_bit l x AND scast (NOT (ones_above k (int h - int l + 1)))"

definition set_bits_macro :: "indet \<Rightarrow> u32 \<Rightarrow> int \<Rightarrow> int \<Rightarrow> u32 \<Rightarrow> u32" where
  "set_bits_macro k x h l bits =
     ((x AND NOT (ones_above k l)) OR (x AND ones_above k (h + 1))) OR c_shl k bits l"

definition reverse_2 :: "u32 \<Rightarrow> u32" where
  "reverse_2 x = push_bit 8 (x AND 0xFF) OR (drop_bit 8 x AND 0xFF)"

definition reverse_4 :: "u32 \<Rightarrow> u32" where
  "reverse_4 x = push_bit 24 (x AND 0xFF) OR push_bit 16 (drop_bit 8 x AND 0xFF) OR
     push_bit 8 (drop_bit 16 x AND 0xFF) OR (drop_bit 24 x AND 0xFF)"

subsection \<open>util.c\<close>

definition asr :: "indet \<Rightarrow> u32 \<Rightarrow> u8 \<Rightarrow> u32" where
  "asr k value shift = c_shr k value (uint shift) OR
     (if get_bit k value 31 \<noteq> 0 then c_shl k (NOT 0) (32 - uint shift) else 0)"

definition ror :: "indet \<Rightarrow> u32 \<Rightarrow> u8 \<Rightarrow> u32" where
  "ror k value rotation = c_shr k value (uint rotation) OR c_shl k value (32 - uint rotation)"

text \<open>\<open>is_big_endian\<close> looks at the first byte in memory of the \<open>uint32_t\<close> 1; the layout is the host's.\<close>

definition is_big_endian :: "(u32 \<Rightarrow> u8 list) \<Rightarrow> bool" where
  "is_big_endian host_bytes \<longleftrightarrow> host_bytes 1 ! 0 = 0"

subsection \<open>The macros as bit fields\<close>

lemma ones_above_eq: 
  assumes "0 \<le> n" "n < 32"
  shows "ones_above k n = NOT (mask (nat n))"
  using assms by (auto simp: ones_above_def bit_simps intro!: bit_word_eqI)

lemma get_bit_eq [simp]: "0 \<le> i \<Longrightarrow> i < 32 \<Longrightarrow> get_bit k x i = of_bool (bit x (nat i))"
  by (simp add: get_bit_def and_one_eq bit_iff_odd_drop_bit mod2_eq_if)

lemma get_bits_eq [simp]:
  assumes "0 \<le> l" "l \<le> h" "h < 32" "h - l < 31"
  shows "get_bits k x h l = take_bit (nat (h - l + 1)) (drop_bit (nat l) x)"
  using assms by (simp add: get_bits_def ones_above_eq take_bit_eq_mask)

lemma set_bits_macro_eq:
  assumes "0 \<le> l" "l \<le> h" "h < 31"
  shows "set_bits_macro k x h l b =
    (x AND (mask (nat l) OR NOT (mask (nat (h + 1))))) OR push_bit (nat l) b"
  using assms by (simp add: set_bits_macro_def ones_above_eq bit.conj_disj_distrib)

lemma get_bit64_eq [simp]: "get_bit64 x i = of_bool (bit x i)"
  by (simp add: get_bit64_def and_one_eq bit_iff_odd_drop_bit mod2_eq_if)

text \<open>The upper half of a 64-bit value that fits in 32 bits is zero, whatever the mask of a shift by 32 is.\<close>

lemma get_bits64_upper [simp]: "get_bits64 k (ucast (w::u32)) 63 32 = 0"
proof -
  have "drop_bit 32 (ucast w :: u64) = 0"
    by (rule bit_word_eqI) (auto simp: bit_simps dest: bit_imp_le_length)
  then show ?thesis by (simp add: get_bits64_def)
qed

subsection \<open>Shifts, rotations and byte order\<close>

lemma asr_eq:
  assumes "0 < shift" "shift < 32"
  shows "asr k v shift = signed_drop_bit (unat shift) v"
proof -
  define m where "m = unat shift"
  have m: "0 < m" "m < 32" "uint shift = int m"
    using assms by (simp_all add: m_def word_less_nat_alt)
  have n: "nat (32 - int m) = 32 - m" by simp
  have "bit (asr k v shift) n = bit (signed_drop_bit m v) n" if "n < 32" for n
    using m that by (auto simp: asr_def bit_simps n not_less dest: bit_imp_le_length)
  then show ?thesis by (auto simp: m_def intro: bit_word_eqI)
qed

lemma ror_eq:
  assumes "0 < r" "r < 32"
  shows "ror k v r = word_rotr (unat r) v"
proof -
  define m where "m = unat r"
  have m: "0 < m" "m < 32" "uint r = int m"
    using assms by (simp_all add: m_def word_less_nat_alt)
  have n: "nat (32 - int m) = 32 - m" by simp
  have "bit (ror k v r) n = bit (word_rotr m v) n" if "n < 32" for n
  proof (cases "n + m < 32")
    case True
    then have "\<not> 32 - m \<le> n" by simp
    then show ?thesis using m that True by (simp add: ror_def bit_simps n add.commute)
  next
    case False
    then have "n + m = n - (32 - m) + 32" "n - (32 - m) < 32" using m that by arith+
    then have "(n + m) mod 32 = n - (32 - m)" by (metis mod_add_self2 mod_less)
    moreover have "32 - m \<le> n" using False by simp
    moreover have "\<not> bit v (m + n)" using False by (auto dest: bit_imp_le_length)
    ultimately show ?thesis using m that False by (simp add: ror_def bit_simps n)
  qed
  then show ?thesis by (auto simp: m_def intro: bit_word_eqI)
qed

lemma ror_0: "shl_by_width_keeps_or_clears k \<Longrightarrow> ror k v 0 = v"
  unfolding shl_by_width_keeps_or_clears_def ror_def c_shl_def
  by (drule spec [of _ v]) (auto)

lemma and_FF: "(x::u32) AND 0xFF = take_bit 8 x"
  by (simp add: take_bit_eq_mask mask_eq_exp_minus_1)

lemma bit_reverse_4:
  assumes "n < 32"
  shows "bit (reverse_4 x) n =
    bit x (if n < 8 then n + 24 else if n < 16 then n + 8 else if n < 24 then n - 8 else n - 24)"
proof -
  consider "n < 8" | "8 \<le> n" "n < 16" "n - 8 < 8" | "16 \<le> n" "n < 24" "n - 16 < 8" "\<not> n - 8 < 8"
    | "24 \<le> n" "n < 32" "n - 24 < 8" "\<not> n - 8 < 8" "\<not> n - 16 < 8"
    using assms by linarith
  then show ?thesis
    by cases (simp_all add: reverse_4_def and_FF bit_simps add.commute)
qed

lemma reverse_4_reverse_4 [simp]: "reverse_4 (reverse_4 x) = x"
  by (rule bit_word_eqI) (auto simp: bit_reverse_4)

subsection \<open>Properties\<close>

text \<open>For a count between 1 and 31, \<open>asr\<close> is the arithmetic shift and \<open>ror\<close> the rotation of the
  architecture; \<open>ror\<close> by 0 evaluates a shift by 32 and still returns its operand on a host that keeps or
  clears such an operand.\<close>

theorem util_shifts:
  assumes "n < 32" "shl_by_width_keeps_or_clears k"
  shows "(0 < n \<longrightarrow> asr k v n = signed_drop_bit (unat n) v) \<and> ror k v n = word_rotr (unat n) v"
proof -
  have "word_rotr 0 v = v" by (auto intro: bit_word_eqI simp: bit_word_rotr_iff)
  then show ?thesis using assms asr_eq ror_eq ror_0 by (cases "n = 0") (auto simp: word_neq_0_conv)
qed

theorem util_shifts_witness: "asr host 0x80000000 4 = 0xF8000000 \<and> ror host 0xF 4 = 0xF0000000"
proof -
  have "asr host 0x80000000 4 = signed_drop_bit 4 0x80000000" "ror host 0xF 4 = word_rotr 4 0xF"
    using util_shifts [of 4 host "0x80000000"] util_shifts [of 4 host "0xF"] by simp_all
  then show ?thesis by (simp only: HOL.simp_thms) code_simp
qed

text \<open>\<open>get_bits\<close> reads back the field that \<open>set_bits\<close> has written, for a field below bit 31 of at most 31 bits and
  a value that fits; the bits outside the field are those of the original word.\<close>

theorem set_bits_get_bits:
  assumes "0 \<le> l" "l \<le> h" "h < 31" "take_bit (nat (h - l + 1)) b = b"
  shows "get_bits k (set_bits_macro k x h l b) h l = b \<and>
    (\<forall>i. i < 32 \<and> (i < nat l \<or> nat h < i) \<longrightarrow> bit (set_bits_macro k x h l b) i = bit x i)"
proof (intro conjI allI impI)
  have b: "\<not> bit b i" if "nat (h - l + 1) \<le> i" for i
    using that assms(4) by (metis bit_take_bit_iff not_less)
  have n: "nat (h + 1) = nat l + nat (h - l + 1)" "nat l + nat (h - l + 1) \<le> 31" using assms by simp_all
  show "get_bits k (set_bits_macro k x h l b) h l = b"
    using assms b n by (auto simp: set_bits_macro_eq bit_simps intro!: bit_word_eqI)
  fix i :: nat
  assume i: "i < 32 \<and> (i < nat l \<or> nat h < i)"
  have "nat (h - l + 1) \<le> i - nat l" if "nat h < i" using that assms(1,2) by linarith
  then show "bit (set_bits_macro k x h l b) i = bit x i"
    using i assms b [of "i - nat l"] n by (auto simp: set_bits_macro_eq bit_simps)
qed

theorem set_bits_get_bits_witness: "get_bits host (set_bits_macro host 0xFF 30 24 0x3F) 30 24 = 0x3F"
  using set_bits_get_bits [of 24 30 "0x3F" host "0xFF"] by simp

end
