(* ===== verification/Memory.thy ===== *)
theory Memory
  imports Util
begin

text \<open>
  The simulated memory of \<open>memory.c\<close>: a block of bytes on the heap, its size and the byte order of its
  half-word and word accesses.  The block is a function of the index; \<open>load_byte\<close> and \<open>store_byte\<close> are
  the accesses through the C pointer, undefined outside the allocated block.  Each access function is
  modelled with its checks as written: the reads compare the address with the size by \<open>\<le>\<close> and return
  the value read, the writes compare nothing.
\<close>

subsection \<open>Data and operations\<close>

record memory_data =
  mem_be :: int                      \<comment> \<open>\<open>is_big_endian\<close>\<close>
  mem_bytes :: "nat \<Rightarrow> u8"           \<comment> \<open>\<open>address\<close>, the bytes the pointer gives access to\<close>
  mem_size :: nat                    \<comment> \<open>\<open>size\<close>\<close>

definition load_byte :: "memory_data \<Rightarrow> nat \<Rightarrow> u8 option" where
  "load_byte m i = (if i < mem_size m then Some (mem_bytes m i) else None)"

definition store_byte :: "memory_data \<Rightarrow> nat \<Rightarrow> u8 \<Rightarrow> memory_data option" where
  "store_byte m i v =
     (if i < mem_size m then Some (m\<lparr>mem_bytes := (mem_bytes m)(i := v)\<rparr>) else None)"

text \<open>The argument \<open>block\<close> is what \<open>malloc\<close> returned: \<^const>\<open>None\<close> for a null pointer, else the bytes found there.\<close>

definition memory_create :: "(nat \<Rightarrow> u8) option \<Rightarrow> nat \<Rightarrow> int \<Rightarrow> memory_data" where
  "memory_create block sz be = (case block of
      None \<Rightarrow> \<lparr>mem_be = be, mem_bytes = (\<lambda>_. 0), mem_size = 0\<rparr>
    | Some bytes \<Rightarrow> \<lparr>mem_be = be, mem_bytes = bytes, mem_size = sz\<rparr>)"

definition memory_get_size :: "memory_data \<Rightarrow> nat" where
  "memory_get_size m = mem_size m"

text \<open>A read takes the previous content of \<open>*value\<close> and returns the C result with the new content.\<close>

definition memory_read_byte :: "memory_data \<Rightarrow> u32 \<Rightarrow> u8 \<Rightarrow> (c_int \<times> u8) option" where
  "memory_read_byte m a value =
     (if unat a \<le> mem_size m then do {
        b \<leftarrow> load_byte m (unat a);
        Some (ucast b, b)
      } else Some (-1, value))"

definition memory_read_half :: "memory_data \<Rightarrow> u32 \<Rightarrow> u16 \<Rightarrow> (c_int \<times> u16) option" where
  "memory_read_half m a value =
     (if unat a \<le> mem_size m then
        if mem_be m = 0 then do {
          b0 \<leftarrow> load_byte m (unat a);
          b1 \<leftarrow> load_byte m (unat (a + 1));
          let v = (ucast b0 OR push_bit 8 (ucast b1) :: u16);
          Some (ucast v, v)
        } else do {
          b0 \<leftarrow> load_byte m (unat a);
          b1 \<leftarrow> load_byte m (unat (a + 1));
          let v = (push_bit 8 (ucast b0) OR ucast b1 :: u16);
          Some (ucast v, v)
        }
      else Some (-1, value))"

definition memory_read_word :: "memory_data \<Rightarrow> u32 \<Rightarrow> u32 \<Rightarrow> (c_int \<times> u32) option" where
  "memory_read_word m a value =
     (if unat a \<le> mem_size m then
        if mem_be m = 0 then do {
          b0 \<leftarrow> load_byte m (unat a);
          b1 \<leftarrow> load_byte m (unat (a + 1));
          b2 \<leftarrow> load_byte m (unat (a + 2));
          b3 \<leftarrow> load_byte m (unat (a + 3));
          let v = (ucast b0 OR push_bit 8 (ucast b1) OR push_bit 16 (ucast b2) OR push_bit 24 (ucast b3) :: u32);
          Some (v, v)
        } else do {
          b0 \<leftarrow> load_byte m (unat a);
          b1 \<leftarrow> load_byte m (unat (a + 1));
          b2 \<leftarrow> load_byte m (unat (a + 2));
          b3 \<leftarrow> load_byte m (unat (a + 3));
          let v = (push_bit 24 (ucast b0) OR push_bit 16 (ucast b1) OR push_bit 8 (ucast b2) OR ucast b3 :: u32);
          Some (v, v)
        }
      else Some (-1, value))"

definition memory_write_byte :: "memory_data \<Rightarrow> u32 \<Rightarrow> u8 \<Rightarrow> (c_int \<times> memory_data) option" where
  "memory_write_byte m a value = do { m' \<leftarrow> store_byte m (unat a) value; Some (0, m') }"

definition memory_write_half :: "memory_data \<Rightarrow> u32 \<Rightarrow> u16 \<Rightarrow> (c_int \<times> memory_data) option" where
  "memory_write_half m a value =
     (let lo = (ucast value :: u8); hi = (ucast (drop_bit 8 value) :: u8) in
      if mem_be m = 1 then do {
        (_, m) \<leftarrow> memory_write_byte m a hi;
        (_, m) \<leftarrow> memory_write_byte m (a + 1) lo;
        Some (0, m)
      } else do {
        (_, m) \<leftarrow> memory_write_byte m a lo;
        (_, m) \<leftarrow> memory_write_byte m (a + 1) hi;
        Some (0, m)
      })"

definition memory_write_word :: "memory_data \<Rightarrow> u32 \<Rightarrow> u32 \<Rightarrow> (c_int \<times> memory_data) option" where
  "memory_write_word m a value =
     (let x0 = (ucast value :: u8); x1 = (ucast (drop_bit 8 value) :: u8);
          x2 = (ucast (drop_bit 16 value) :: u8); x3 = (ucast (drop_bit 24 value) :: u8) in
      if mem_be m = 1 then do {
        m \<leftarrow> store_byte m (unat a) x3;
        m \<leftarrow> store_byte m (unat (a + 1)) x2;
        m \<leftarrow> store_byte m (unat (a + 2)) x1;
        m \<leftarrow> store_byte m (unat (a + 3)) x0;
        Some (0, m)
      } else do {
        m \<leftarrow> store_byte m (unat a) x0;
        m \<leftarrow> store_byte m (unat (a + 1)) x1;
        m \<leftarrow> store_byte m (unat (a + 2)) x2;
        m \<leftarrow> store_byte m (unat (a + 3)) x3;
        Some (0, m)
      })"

subsection \<open>The bytes as a keyed store\<close>

interpretation mem_store: keyed_store load_byte store_byte "\<lambda>m i. i < mem_size m"
  by unfold_locales (auto simp: load_byte_def store_byte_def split: if_splits)

subsection \<open>Accesses inside the block\<close>

definition inside :: "memory_data \<Rightarrow> u32 \<Rightarrow> nat \<Rightarrow> bool" where
  "inside m a n \<longleftrightarrow> unat a + n \<le> mem_size m \<and> unat a + n \<le> 2 ^ 32"

lemma unat_offset:
  assumes "unat a + n < 2 ^ 32"
  shows "unat (a + of_nat n :: u32) = unat a + n"
proof -
  have "unat (of_nat n :: u32) = n" using assms by (simp add: unsigned_of_nat take_bit_nat_eq_self)
  with assms show ?thesis by (simp add: unat_word_ariths)
qed

lemma unat_offsets:
  "inside m a n \<Longrightarrow> 1 < n \<Longrightarrow> unat (a + 1) = unat a + 1"
  "inside m a n \<Longrightarrow> 2 < n \<Longrightarrow> unat (a + 2) = unat a + 2"
  "inside m a n \<Longrightarrow> 3 < n \<Longrightarrow> unat (a + 3) = unat a + 3"
  using unat_offset [of a 1] unat_offset [of a 2] unat_offset [of a 3]
  by (simp_all add: inside_def)

definition le_half :: "u8 \<Rightarrow> u8 \<Rightarrow> u16" where
  "le_half b0 b1 = ucast b0 OR push_bit 8 (ucast b1)"

definition le_word :: "u8 \<Rightarrow> u8 \<Rightarrow> u8 \<Rightarrow> u8 \<Rightarrow> u32" where
  "le_word b0 b1 b2 b3 = ucast b0 OR push_bit 8 (ucast b1) OR push_bit 16 (ucast b2) OR push_bit 24 (ucast b3)"

lemma le_half_split: "le_half (ucast v) (ucast (drop_bit 8 v)) = v"
proof (rule bit_word_eqI)
  fix n assume "n < LENGTH(16)"
  then consider "n < 8" | "8 \<le> n" "n < 16" "n - 8 < 8" by fastforce
  then show "bit (le_half (ucast v) (ucast (drop_bit 8 v))) n = bit v n"
    by cases (simp_all add: le_half_def bit_simps)
qed

lemma bit_u8_high: "8 \<le> n \<Longrightarrow> \<not> bit (b::u8) n"
  by (auto dest: bit_imp_le_length)

lemma bit_le_word:
  assumes "n < 32"
  shows "bit (le_word b0 b1 b2 b3) n =
    (if n < 8 then bit b0 n else if n < 16 then bit b1 (n - 8) else if n < 24 then bit b2 (n - 16) else bit b3 (n - 24))"
proof -
  consider "n < 8" | "8 \<le> n" "n < 16" "n - 8 < 8" | "16 \<le> n" "n < 24" "n - 16 < 8" "\<not> n - 8 < 8"
    | "24 \<le> n" "n < 32" "n - 24 < 8" "\<not> n - 8 < 8" "\<not> n - 16 < 8"
    using assms by linarith
  then show ?thesis
    by cases (simp_all add: le_word_def bit_simps bit_u8_high)
qed

lemma le_word_split: "le_word (ucast v) (ucast (drop_bit 8 v)) (ucast (drop_bit 16 v)) (ucast (drop_bit 24 v)) = v"
  by (rule bit_word_eqI) (auto simp: bit_le_word bit_simps)

lemma le_word_split_reversed:
  "le_word (ucast (drop_bit 24 v)) (ucast (drop_bit 16 v)) (ucast (drop_bit 8 v)) (ucast v) = reverse_4 v"
  by (rule bit_word_eqI) (auto simp: bit_le_word bit_reverse_4 bit_simps add.commute)


text \<open>What a half-word or a word of the block denotes, in the byte order of the memory.\<close>

definition half_at :: "memory_data \<Rightarrow> u32 \<Rightarrow> u16" where
  "half_at m a = (let b = (\<lambda>i. mem_bytes m (unat a + i)) in
     if mem_be m = 0 then le_half (b 0) (b 1) else le_half (b 1) (b 0))"

definition word_at :: "memory_data \<Rightarrow> u32 \<Rightarrow> u32" where
  "word_at m a = (let b = (\<lambda>i. mem_bytes m (unat a + i)) in
     if mem_be m = 0 then le_word (b 0) (b 1) (b 2) (b 3) else le_word (b 3) (b 2) (b 1) (b 0))"

lemma load_byte_inside [store_law]: "inside m a n \<Longrightarrow> 0 < n \<Longrightarrow> load_byte m (unat a) = Some (mem_bytes m (unat a))"
  by (simp add: load_byte_def inside_def)

lemma memory_read_half_inside [store_law]: "inside m a 2 \<Longrightarrow> memory_read_half m a x = Some (ucast (half_at m a), half_at m a)"
  using unat_offsets [of m a 2]
  by (auto simp: memory_read_half_def load_byte_def le_half_def half_at_def Let_def inside_def or.commute)

lemma memory_read_word_inside [store_law]: "inside m a 4 \<Longrightarrow> memory_read_word m a x = Some (word_at m a, word_at m a)"
  using unat_offsets [of m a 4]
  by (auto simp: memory_read_word_def load_byte_def le_word_def word_at_def Let_def inside_def
      or.assoc or.commute or.left_commute)

definition put_bytes :: "memory_data \<Rightarrow> u32 \<Rightarrow> u8 list \<Rightarrow> memory_data" where
  "put_bytes m a bs = m\<lparr>mem_bytes := (\<lambda>i.
     if unat a \<le> i \<and> i < unat a + length bs then bs ! (i - unat a) else mem_bytes m i)\<rparr>"

lemma put_bytes_frame [simp]: "mem_size (put_bytes m a bs) = mem_size m" "mem_be (put_bytes m a bs) = mem_be m"
  "inside (put_bytes m a bs) b n = inside m b n"
  by (simp_all add: put_bytes_def inside_def)

definition word_bytes :: "int \<Rightarrow> u32 \<Rightarrow> u8 list" where
  "word_bytes be v = (let le = [ucast v, ucast (drop_bit 8 v), ucast (drop_bit 16 v), ucast (drop_bit 24 v)] in
     if be = 1 then rev le else le)"

definition half_bytes :: "int \<Rightarrow> u16 \<Rightarrow> u8 list" where
  "half_bytes be v = (let le = [ucast v, ucast (drop_bit 8 v)] in if be = 1 then rev le else le)"

lemma memory_write_byte_inside [store_law]:
  "inside m a 1 \<Longrightarrow> memory_write_byte m a v = Some (0, put_bytes m a [v])"
  by (auto simp: memory_write_byte_def store_byte_def inside_def put_bytes_def fun_eq_iff)

lemma memory_write_half_inside [store_law]:
  "inside m a 2 \<Longrightarrow> memory_write_half m a v = Some (0, put_bytes m a (half_bytes (mem_be m) v))"
  using unat_offsets [of m a 2]
  by (auto simp: memory_write_half_def memory_write_byte_def store_byte_def inside_def put_bytes_def
      half_bytes_def Let_def nth_Cons' fun_eq_iff)

lemma memory_write_word_inside [store_law]:
  "inside m a 4 \<Longrightarrow> memory_write_word m a v = Some (0, put_bytes m a (word_bytes (mem_be m) v))"
  using unat_offsets [of m a 4]
  by (auto simp: memory_write_word_def store_byte_def inside_def put_bytes_def
      word_bytes_def Let_def nth_Cons' fun_eq_iff)

lemma mem_bytes_put_bytes [simp]: "i < length bs \<Longrightarrow> mem_bytes (put_bytes m a bs) (unat a + i) = bs ! i"
  by (simp add: put_bytes_def)

lemma mem_bytes_put_bytes_0 [simp]: "bs \<noteq> [] \<Longrightarrow> mem_bytes (put_bytes m a bs) (unat a) = bs ! 0"
  using mem_bytes_put_bytes [of 0 bs m a] by simp

lemma mem_bytes_put_bytes_Suc [simp]:
  "1 < length bs \<Longrightarrow> mem_bytes (put_bytes m a bs) (Suc (unat a)) = bs ! 1"
  "2 < length bs \<Longrightarrow> mem_bytes (put_bytes m a bs) (Suc (Suc (unat a))) = bs ! 2"
  using mem_bytes_put_bytes [of 1 bs m a] mem_bytes_put_bytes [of 2 bs m a] by simp_all

lemma length_word_bytes [simp]: "length (word_bytes be v) = 4" "word_bytes be v \<noteq> []"
  by (simp_all add: word_bytes_def Let_def)

lemma length_half_bytes [simp]: "length (half_bytes be v) = 2" "half_bytes be v \<noteq> []"
  by (simp_all add: half_bytes_def Let_def)

lemma word_at_put_word:
  "word_at (put_bytes m a (word_bytes (mem_be m) v)) a = (if mem_be m = 0 \<or> mem_be m = 1 then v else reverse_4 v)"
  by (simp add: word_at_def Let_def) (simp add: word_bytes_def le_word_split le_word_split_reversed)

lemma half_at_put_half:
  "mem_be m = 0 \<or> mem_be m = 1 \<Longrightarrow> half_at (put_bytes m a (half_bytes (mem_be m) v)) a = v"
  by (auto simp: half_at_def Let_def half_bytes_def le_half_split)

lemma memory_read_byte_inside [store_law]:
  "inside m a 1 \<Longrightarrow> memory_read_byte m a x = Some (ucast (mem_bytes m (unat a)), mem_bytes m (unat a))"
  by (simp add: memory_read_byte_def load_byte_def inside_def)

lemma memory_read_byte_put_other:
  "unat b < unat a \<or> unat a + length bs \<le> unat b \<Longrightarrow> memory_read_byte (put_bytes m a bs) b x = memory_read_byte m b x"
  by (auto simp: memory_read_byte_def load_byte_def put_bytes_def)

text \<open>A memory of 16 zero bytes, on which the properties are instantiated.\<close>

definition small_memory :: "int \<Rightarrow> memory_data" where
  "small_memory be = memory_create (Some (\<lambda>_. 0)) 16 be"

lemma small_memory_simps [simp]: "mem_size (small_memory be) = 16" "mem_be (small_memory be) = be"
  "mem_bytes (small_memory be) = (\<lambda>_. 0)"
  by (simp_all add: small_memory_def memory_create_def)

lemma inside_small_memory [simp]: "inside (small_memory be) a n \<longleftrightarrow> unat a + n \<le> 16"
  by (auto simp: inside_def)

lemma memory_read_word_cases:
  assumes "mem_size m + 4 \<le> 2 ^ 32"
  shows "memory_read_word m a x =
    (if mem_size m < unat a then Some (-1, x)
     else if unat a + 4 \<le> mem_size m then Some (word_at m a, word_at m a)
     else None)"
proof -
  consider "mem_size m < unat a" | "unat a + 4 \<le> mem_size m" | "unat a \<le> mem_size m" "mem_size m < unat a + 4"
    by linarith
  then show ?thesis
  proof cases
    case 2
    with assms have "inside m a 4" by (simp add: inside_def)
    with 2 show ?thesis by (simp add: memory_read_word_inside)
  next
    case 3
    with assms unat_offset [of a 3] have "unat (a + 3) = unat a + 3" by simp
    with 3 have "load_byte m (unat (a + 3)) = None" by (simp add: load_byte_def)
    with 3 show ?thesis by (simp add: memory_read_word_def)
  qed (simp add: memory_read_word_def)
qed

lemma memory_write_word_cases:
  assumes "mem_size m + 4 \<le> 2 ^ 32"
  shows "memory_write_word m a v =
    (if unat a + 4 \<le> mem_size m then Some (0, put_bytes m a (word_bytes (mem_be m) v)) else None)"
proof (cases "unat a + 4 \<le> mem_size m")
  case True
  with assms have "inside m a 4" by (simp add: inside_def)
  with True show ?thesis by (simp add: memory_write_word_inside)
next
  case False
  have "\<not> unat (a + 3) < mem_size m" if "unat a < mem_size m"
    using False that assms unat_offset [of a 3] by simp
  then show ?thesis using False by (auto simp: memory_write_word_def Let_def store_byte_def split: if_splits)
qed

subsection \<open>Properties\<close>

text \<open>A word written inside the block is the word read back at the same address, for either byte
  order \<open>main\<close> and \<open>memory_test.c\<close> create the memory with.  The read returns the value itself, not the
  0 that \<open>memory.h\<close> announces for success.\<close>

theorem memory_word_roundtrip:
  assumes "inside m a 4" "mem_be m = 0 \<or> mem_be m = 1"
  shows "\<exists>m'. memory_write_word m a v = Some (0, m') \<and> memory_read_word m' a x = Some (v, v)"
  using assms by (auto simp: store_law word_at_put_word)

theorem memory_word_roundtrip_witness:
  "\<exists>m'. memory_write_word (small_memory 1) 8 0x11223344 = Some (0, m') \<and>
     memory_read_word m' 8 0 = Some (0x11223344, 0x11223344)"
  by (rule memory_word_roundtrip) simp_all

text \<open>Half-words round-trip too.\<close>

theorem memory_half_roundtrip:
  assumes "inside m a 2" "mem_be m = 0 \<or> mem_be m = 1"
  shows "\<exists>m'. memory_write_half m a v = Some (0, m') \<and> memory_read_half m' a x = Some (ucast v, v)"
  using assms by (auto simp: store_law half_at_put_half)

theorem memory_half_roundtrip_witness:
  "\<exists>m'. memory_write_half (small_memory 0) 2 0x5566 = Some (0, m') \<and>
     memory_read_half m' 2 0 = Some (ucast (0x5566 :: u16), 0x5566)"
  by (rule memory_half_roundtrip) simp_all

text \<open>The reads treat every non-zero \<open>is_big_endian\<close> as big endian and the writes only the value 1;
  with any other value a word comes back with its bytes reversed.\<close>

theorem memory_word_other_endianness:
  assumes "inside m a 4" "mem_be m \<noteq> 0" "mem_be m \<noteq> 1"
  shows "\<exists>m'. memory_write_word m a v = Some (0, m') \<and> memory_read_word m' a x = Some (reverse_4 v, reverse_4 v)"
  using assms by (auto simp: store_law word_at_put_word)

theorem memory_word_other_endianness_witness:
  "\<exists>m'. memory_write_word (small_memory 2) 0 0x11223344 = Some (0, m') \<and>
     memory_read_word m' 0 0 = Some (reverse_4 0x11223344, reverse_4 0x11223344)"
  by (rule memory_word_other_endianness) simp_all

text \<open>The bytes of a word: after a word write inside the block, the four byte reads return the bytes
  of the value in the byte order of the memory, and a byte read at any other address returns what it
  returned before.\<close>

theorem memory_word_bytes:
  assumes "inside m a 4"
  shows "\<exists>m'. memory_write_word m a v = Some (0, m') \<and>
    (\<forall>i. i < 4 \<longrightarrow> memory_read_byte m' (a + of_nat i) x =
       Some (ucast (word_bytes (mem_be m) v ! i), word_bytes (mem_be m) v ! i)) \<and>
    (\<forall>b. unat b < unat a \<or> unat a + 4 \<le> unat b \<longrightarrow> memory_read_byte m' b x = memory_read_byte m b x)"
proof (intro exI conjI allI impI)
  let ?m' = "put_bytes m a (word_bytes (mem_be m) v)"
  show "memory_write_word m a v = Some (0, ?m')" using assms by (rule memory_write_word_inside)
  fix i :: nat
  assume i: "i < 4"
  with assms have "unat (a + of_nat i) = unat a + i" by (intro unat_offset) (simp add: inside_def)
  moreover from this assms i have "inside ?m' (a + of_nat i) 1" by (simp add: inside_def)
  ultimately show "memory_read_byte ?m' (a + of_nat i) x =
      Some (ucast (word_bytes (mem_be m) v ! i), word_bytes (mem_be m) v ! i)"
    using i by (simp add: memory_read_byte_inside)
qed (rule memory_read_byte_put_other, simp)

theorem memory_word_bytes_witness:
  "\<exists>m'. memory_write_word (small_memory 1) 4 0x11223344 = Some (0, m') \<and>
    (\<forall>i. i < 4 \<longrightarrow> memory_read_byte m' (4 + of_nat i) 0 =
       Some (ucast (word_bytes (mem_be (small_memory 1)) 0x11223344 ! i), word_bytes (mem_be (small_memory 1)) 0x11223344 ! i)) \<and>
    (\<forall>b. unat b < unat (4::u32) \<or> unat (4::u32) + 4 \<le> unat b \<longrightarrow>
       memory_read_byte m' b 0 = memory_read_byte (small_memory 1) b 0)"
  by (rule memory_word_bytes) simp

text \<open>The complete behaviour of a word read, for a block that ends four bytes or more before the end
  of the address space: beyond the size it reports \<open>-1\<close> and leaves \<open>*value\<close> alone, inside the block it
  returns the word, and between \<open>size - 3\<close> and \<open>size\<close> included it reads past the end of the block.\<close>

theorem memory_read_word_bounds:
  assumes "mem_size m + 4 \<le> 2 ^ 32"
  shows "memory_read_word m a x =
    (if mem_size m < unat a then Some (-1, x)
     else if unat a + 4 \<le> mem_size m then Some (word_at m a, word_at m a)
     else None)"
  using assms by (rule memory_read_word_cases)

theorem memory_read_word_bounds_witness:
  "mem_size (small_memory 0) + 4 \<le> 2 ^ 32 \<and> memory_read_word (small_memory 0) 16 7 = None \<and>
   memory_read_word (small_memory 0) 17 7 = Some (-1, 7) \<and> memory_read_word (small_memory 0) 12 7 = Some (0, 0)"
  using memory_read_word_bounds [of "small_memory 0" 16 7] memory_read_word_bounds [of "small_memory 0" 17 7]
    memory_read_word_bounds [of "small_memory 0" 12 7]
  by (simp add: word_at_def le_word_def)

text \<open>A word write never reports a failure: it either succeeds with 0, exactly when the four bytes lie
  inside the block, or writes outside the block.\<close>

theorem memory_write_word_bounds:
  assumes "mem_size m + 4 \<le> 2 ^ 32"
  shows "memory_write_word m a v =
    (if unat a + 4 \<le> mem_size m then Some (0, put_bytes m a (word_bytes (mem_be m) v)) else None)"
  using assms by (rule memory_write_word_cases)

theorem memory_write_word_bounds_witness:
  "mem_size (small_memory 0) + 4 \<le> 2 ^ 32 \<and> memory_write_word (small_memory 0) 13 7 = None"
  using memory_write_word_bounds [of "small_memory 0" 13 7] by simp

end
