(* ===== verification/Constants.thy ===== *)
theory Constants
  imports Prelude
begin

text \<open>
  The numeric constants of \<open>arm_constants.h\<close> and \<open>trace.h\<close>, the name tables of \<open>arm_constants.c\<close>, and
  the conversions of \<open>printf\<close> the sources use.  A C string that may be the null pointer is an
  \<open>option\<close>; a table indexed outside its bounds is \<^const>\<open>None\<close>.
\<close>

subsection \<open>arm_constants.h, trace.h\<close>

definition USR :: u8 where "USR = 0x10"
definition FIQ :: u8 where "FIQ = 0x11"
definition IRQ :: u8 where "IRQ = 0x12"
definition SVC :: u8 where "SVC = 0x13"
definition ABT :: u8 where "ABT = 0x17"
definition UND :: u8 where "UND = 0x1b"
definition SYS :: u8 where "SYS = 0x1f"

definition RESET :: c_int where "RESET = 1"
definition UNDEFINED_INSTRUCTION :: c_int where "UNDEFINED_INSTRUCTION = 2"
definition SOFTWARE_INTERRUPT :: c_int where "SOFTWARE_INTERRUPT = 3"
definition PREFETCH_ABORT :: c_int where "PREFETCH_ABORT = 4"
definition DATA_ABORT :: c_int where "DATA_ABORT = 5"
definition INTERRUPT :: c_int where "INTERRUPT = 6"
definition FAST_INTERRUPT :: c_int where "FAST_INTERRUPT = 7"

definition N_bit :: int where "N_bit = 31"
definition Z_bit :: int where "Z_bit = 30"
definition C_bit :: int where "C_bit = 29"
definition V_bit :: int where "V_bit = 28"

definition CPSR :: u8 where "CPSR = 16"
definition SPSR :: u8 where "SPSR = 17"

definition OTHER_ACCESS :: u8 where "OTHER_ACCESS = 0"
definition OPCODE_FETCH :: u8 where "OPCODE_FETCH = 1"
definition WRITE :: u8 where "WRITE = 0"
definition READ :: u8 where "READ = 1"

definition MEMORY :: u32 where "MEMORY = 1"
definition REGISTERS :: u32 where "REGISTERS = 2"
definition STATE :: u32 where "STATE = 4"
definition POSITION :: u32 where "POSITION = 8"

text \<open>The proofs compute with the values, except for the kinds of access, which only the trace shows.\<close>

lemmas constants [simp] =
  USR_def FIQ_def IRQ_def SVC_def ABT_def UND_def SYS_def RESET_def UNDEFINED_INSTRUCTION_def
  SOFTWARE_INTERRUPT_def PREFETCH_ABORT_def DATA_ABORT_def INTERRUPT_def FAST_INTERRUPT_def N_bit_def
  Z_bit_def C_bit_def V_bit_def CPSR_def SPSR_def MEMORY_def REGISTERS_def STATE_def POSITION_def

lemma access_kinds [simp]: "READ < 2" "WRITE < 2" "OPCODE_FETCH < 2" "OTHER_ACCESS < 2"
  by (simp_all add: READ_def WRITE_def OPCODE_FETCH_def OTHER_ACCESS_def)

subsection \<open>arm_constants.c\<close>

definition table_at :: "'a list \<Rightarrow> nat \<Rightarrow> 'a option" where
  "table_at xs i = (if i < length xs then Some (xs ! i) else None)"

definition arm_mode_names :: "string option list" where
  "arm_mode_names = replicate 16 None @
     [Some ''USR'', Some ''FIQ'', Some ''IRQ'', Some ''SVC'', None, None, None, Some ''ABT'', None, None,
      None, Some ''UND'', None, None, None, Some ''SYS'']"

definition arm_register_names :: "string list" where
  "arm_register_names = [''R00'', ''R01'', ''R02'', ''R03'', ''R04'', ''R05'', ''R06'', ''R07'', ''R08'',
     ''R09'', ''R10'', ''R11'', ''R12'', ''SP'', ''LR'', ''PC'', ''CPSR'', ''SPSR'']"

definition arm_exception_names :: "string option list" where
  "arm_exception_names = [None, Some ''reset'', Some ''undefined instruction'', Some ''software interrupt'',
     Some ''prefetch abort'', Some ''data abort'', Some ''interrupt'', Some ''fast interrupt'']"

definition arm_get_exception_name :: "u8 \<Rightarrow> string option option" where
  "arm_get_exception_name e =
     (if e < 8 then table_at arm_exception_names (unat e) else Some None)"

definition arm_get_mode_name :: "u8 \<Rightarrow> string option option" where
  "arm_get_mode_name mode = table_at arm_mode_names (unat mode)"

definition arm_get_register_name :: "u8 \<Rightarrow> string option" where
  "arm_get_register_name r = table_at arm_register_names (unat r)"

lemma length_arm_names [simp]: "length arm_mode_names = 32" "length arm_register_names = 18"
  "length arm_exception_names = 8"
  by (simp_all add: arm_mode_names_def arm_register_names_def arm_exception_names_def)

lemma table_at_Some [simp]: "i < length xs \<Longrightarrow> table_at xs i = Some (xs ! i)"
  by (simp add: table_at_def)

lemma arm_get_exception_name_defined: "\<exists>n. arm_get_exception_name e = Some n"
  by (auto simp: arm_get_exception_name_def table_at_def word_less_nat_alt)

subsection \<open>Conversions of printf\<close>

definition hex_digit_upper :: "nat \<Rightarrow> char" where
  "hex_digit_upper d = char_of (if d < 10 then 48 + d else 55 + d)"

definition hex_digit_lower :: "nat \<Rightarrow> char" where
  "hex_digit_lower d = char_of (if d < 10 then 48 + d else 87 + d)"

text \<open>\<open>%08X\<close> of a \<open>uint32_t\<close> and \<open>%02x\<close> of a byte: every digit, leading zeros included.\<close>

definition fmt_08X :: "u32 \<Rightarrow> string" where
  "fmt_08X w = map (\<lambda>i. hex_digit_upper (unat (take_bit 4 (drop_bit (4 * i) w)))) [7, 6, 5, 4, 3, 2, 1, 0]"

definition fmt_02x :: "u8 \<Rightarrow> string" where
  "fmt_02x b = [hex_digit_lower (unat (drop_bit 4 b)), hex_digit_lower (unat (take_bit 4 b))]"

text \<open>\<open>%d\<close> of a signed integer.\<close>

fun fmt_nat :: "nat \<Rightarrow> string" where
  "fmt_nat n = (if n < 10 then [char_of (48 + n)] else fmt_nat (n div 10) @ [char_of (48 + n mod 10)])"

declare fmt_nat.simps [simp del]

definition fmt_d :: "int \<Rightarrow> string" where
  "fmt_d i = (if i < 0 then CHR ''-'' # fmt_nat (nat (- i)) else fmt_nat (nat i))"

text \<open>\<open>%3s\<close>: at least three characters, blanks on the left.\<close>

definition fmt_3s :: "string \<Rightarrow> string" where
  "fmt_3s s = replicate (3 - length s) (CHR '' '') @ s"

end
