(* ===== verification/Registers.thy ===== *)
theory Registers
  imports Constants
begin

text \<open>
  The register file of \<open>registers.c\<close>: a heap block of 18 words, \<open>r0\<close> to \<open>r15\<close>, then CPSR and SPSR.  The
  block is a function of the index; an index of 18 or more is outside the block.  There is one
  bank only: no register is banked by mode.
\<close>

subsection \<open>Data and operations\<close>

record registers_data =
  r_data :: "nat \<Rightarrow> u32"

text \<open>\<open>registers_create\<close> does not initialise the block; its argument is what \<open>malloc\<close> left there.\<close>

definition registers_create :: "(nat \<Rightarrow> u32) \<Rightarrow> registers_data" where
  "registers_create block = \<lparr>r_data = block\<rparr>"

definition get_mode :: "registers_data \<Rightarrow> u8" where
  "get_mode r = ucast (r_data r 16 AND 0x1F)"

definition current_mode_has_spsr :: "registers_data \<Rightarrow> bool" where
  "current_mode_has_spsr r =
     (let mode = get_mode r in if mode = USR \<or> mode = SYS then False else True)"

definition in_a_privileged_mode :: "registers_data \<Rightarrow> bool" where
  "in_a_privileged_mode r \<longleftrightarrow> get_mode r \<noteq> USR"

definition read_register :: "registers_data \<Rightarrow> u8 \<Rightarrow> u32 option" where
  "read_register r i = (if unat i < 18 then Some (r_data r (unat i)) else None)"

definition read_usr_register :: "registers_data \<Rightarrow> u8 \<Rightarrow> u32 option" where
  "read_usr_register r i = (if \<not> in_a_privileged_mode r then read_register r i else Some 0)"

definition read_cpsr :: "registers_data \<Rightarrow> u32" where
  "read_cpsr r = r_data r 16"

definition read_spsr :: "registers_data \<Rightarrow> u32" where
  "read_spsr r = (if current_mode_has_spsr r then r_data r 17 else 0)"

definition write_register :: "registers_data \<Rightarrow> u8 \<Rightarrow> u32 \<Rightarrow> registers_data option" where
  "write_register r i v =
     (if unat i < 18 then Some (r\<lparr>r_data := (r_data r)(unat i := v)\<rparr>) else None)"

definition write_usr_register :: "registers_data \<Rightarrow> u8 \<Rightarrow> u32 \<Rightarrow> registers_data option" where
  "write_usr_register r i v = (if \<not> in_a_privileged_mode r then write_register r i v else Some r)"

definition write_cpsr :: "registers_data \<Rightarrow> u32 \<Rightarrow> registers_data" where
  "write_cpsr r v = r\<lparr>r_data := (r_data r)(16 := v)\<rparr>"

definition write_spsr :: "registers_data \<Rightarrow> u32 \<Rightarrow> registers_data" where
  "write_spsr r v = (if current_mode_has_spsr r then r\<lparr>r_data := (r_data r)(17 := v)\<rparr> else r)"

subsection \<open>The register file as a keyed store\<close>

interpretation reg_store: keyed_store read_register write_register "\<lambda>r i. unat i < 18"
  by unfold_locales (auto simp: read_register_def write_register_def word_unat_eq_iff split: if_splits)

lemma get_mode_less: "get_mode r < 32"
proof -
  have "unat (r_data r 16 AND 0x1F) \<le> unat (0x1F :: u32)"
    by (rule word_and_le1 [THEN word_le_nat_alt [THEN iffD1]])
  moreover have "unat (get_mode r) \<le> unat (r_data r 16 AND 0x1F)"
    by (simp add: get_mode_def unsigned_ucast_eq take_bit_nat_less_eq_self)
  ultimately have "unat (get_mode r) \<le> 31" by simp
  then show ?thesis by (simp add: word_less_nat_alt)
qed

end
