(* ===== verification/Trace.thy ===== *)
theory Trace
  imports Registers
begin

text \<open>
  The trace module of \<open>trace.c\<close>, in the configuration of \<open>Makefile.am\<close> (\<open>ARM_TRACE_FORMAT\<close> is not
  defined).  Its static variables are a record; the trace file is the list of the texts printed to it,
  in order.  \<open>trace_arm_state\<close> prints the processor and is modelled with the processor.
\<close>

subsection \<open>Static variables\<close>

record trace_state =
  trace_out :: "string list"      \<comment> \<open>what was printed to \<open>output\<close>\<close>
  last_address :: u32
  enabled :: bool
  location_file_stack :: "int \<Rightarrow> string"
  location_line_stack :: "int \<Rightarrow> int"
  location_stack_top :: int
  trace_flags :: u32

definition trace_initial :: trace_state where
  "trace_initial = \<lparr>trace_out = [], last_address = 0x12345678, enabled = True, location_file_stack = (\<lambda>_. []),
     location_line_stack = (\<lambda>_. 0), location_stack_top = -1, trace_flags = 0\<rparr>"

definition trace_memory_seq :: "string list" where
  "trace_memory_seq = ['''', '''']"

definition trace_memory_cause :: "string list" where
  "trace_memory_cause = ['''', '', fetch'']"

definition trace_memory_type :: "string list" where
  "trace_memory_type = [''write'', ''read'']"

definition trace_register_type :: "string list" where
  "trace_register_type = [''write'', ''read'']"

subsection \<open>Operations\<close>

definition fprintf :: "string \<Rightarrow> trace_state \<Rightarrow> trace_state" where
  "fprintf text t = t\<lparr>trace_out := trace_out t @ [text]\<rparr>"

definition trace_start_location :: "string \<Rightarrow> int \<Rightarrow> trace_state \<Rightarrow> trace_state option" where
  "trace_start_location file line t =
     (if enabled t then
        let top = location_stack_top t + 1 in
        if 0 \<le> top \<and> top < 128
        then Some (t\<lparr>location_stack_top := top,
          location_file_stack := (location_file_stack t)(top := file),
          location_line_stack := (location_line_stack t)(top := line)\<rparr>)
        else None
      else Some t)"

definition trace_end_location :: "trace_state \<Rightarrow> trace_state" where
  "trace_end_location t = (if enabled t then t\<lparr>location_stack_top := location_stack_top t - 1\<rparr> else t)"

definition trace_print_location :: "trace_state \<Rightarrow> trace_state option" where
  "trace_print_location t =
     (if enabled t \<and> trace_flags t AND POSITION \<noteq> 0 then
        if 0 \<le> location_stack_top t then
          if location_stack_top t < 128
          then Some (fprintf (location_file_stack t (location_stack_top t) @ '', '' @
            fmt_d (location_line_stack t (location_stack_top t)) @ '': '') t)
          else None
        else Some t
      else Some t)"

definition trace_memory :: "u32 \<Rightarrow> u8 \<Rightarrow> u8 \<Rightarrow> u8 \<Rightarrow> u32 \<Rightarrow> u32 \<Rightarrow> trace_state \<Rightarrow> trace_state option" where
  "trace_memory cycle type sz cause addr value t =
     (if enabled t \<and> trace_flags t AND MEMORY \<noteq> 0 then
        let seq = (if addr = last_address t + 4 then 1 else 0 :: nat);
            t = t\<lparr>last_address := addr\<rparr> in do {
          t \<leftarrow> trace_print_location t;
          seq_text \<leftarrow> table_at trace_memory_seq seq;
          type_text \<leftarrow> table_at trace_memory_type (unat type);
          cause_text \<leftarrow> table_at trace_memory_cause (unat cause);
          Some (fprintf (''Cycle '' @ fmt_d (sint cycle) @ '', Mem '' @ seq_text @ type_text @ '' ('' @
            fmt_d (uint sz) @ '' bytes'' @ cause_text @ '') addr: '' @ fmt_08X addr @ '', val: '' @
            fmt_08X value @ [CHR 0x0A]) t)
        }
      else Some t)"

definition trace_register :: "u32 \<Rightarrow> u8 \<Rightarrow> u8 \<Rightarrow> u8 \<Rightarrow> u32 \<Rightarrow> trace_state \<Rightarrow> trace_state option" where
  "trace_register cycle type r mode value t =
     (if enabled t \<and> trace_flags t AND REGISTERS \<noteq> 0 then do {
        name \<leftarrow> arm_get_mode_name mode;
        let mode_name = (case name of None \<Rightarrow> [] | Some n \<Rightarrow> ''_'' @ n);
        t \<leftarrow> trace_print_location t;
        type_text \<leftarrow> table_at trace_register_type (unat type);
        register_text \<leftarrow> arm_get_register_name r;
        Some (fprintf (''Cycle '' @ fmt_d (sint cycle) @ '', Register '' @ type_text @ '', '' @ register_text @
          mode_name @ '', val: '' @ fmt_08X value @ [CHR 0x0A]) t)
      } else Some t)"

definition trace_disable :: "trace_state \<Rightarrow> trace_state" where
  "trace_disable t = t\<lparr>enabled := False\<rparr>"

definition trace_enable :: "trace_state \<Rightarrow> trace_state" where
  "trace_enable t = t\<lparr>enabled := True\<rparr>"

definition trace_add :: "u32 \<Rightarrow> trace_state \<Rightarrow> trace_state" where
  "trace_add flags t = t\<lparr>trace_flags := trace_flags t OR flags\<rparr>"

subsection \<open>The location stack\<close>

text \<open>
  A trace call never fails on the arguments the processor passes, and it leaves the location stack,
  the enabling flag and the trace options as they were.
\<close>

definition same_settings :: "trace_state \<Rightarrow> trace_state \<Rightarrow> bool" where
  "same_settings t t' \<longleftrightarrow> enabled t' = enabled t \<and> trace_flags t' = trace_flags t \<and>
     location_stack_top t' = location_stack_top t"

lemma same_settings_refl [simp]: "same_settings t t"
  by (simp add: same_settings_def)

lemma same_settings_trans: "same_settings t u \<Longrightarrow> same_settings u v \<Longrightarrow> same_settings t v"
  by (simp add: same_settings_def)

lemma same_settings_fprintf [simp]: "same_settings t (fprintf x t)"
  by (simp add: same_settings_def fprintf_def)

lemma length_trace_tables [simp]: "length trace_memory_seq = 2" "length trace_memory_type = 2"
  "length trace_memory_cause = 2" "length trace_register_type = 2"
  by (simp_all add: trace_memory_seq_def trace_memory_type_def trace_memory_cause_def trace_register_type_def)

lemma trace_print_location_ok:
  "location_stack_top t < 128 \<Longrightarrow> \<exists>t'. trace_print_location t = Some t' \<and> same_settings t t'"
  by (auto simp: trace_print_location_def)

lemma trace_memory_ok:
  assumes "location_stack_top t < 128" "type < 2" "cause < 2"
  shows "\<exists>t'. trace_memory cycle type sz cause addr value t = Some t' \<and> same_settings t t'"
proof (cases "enabled t \<and> trace_flags t AND MEMORY \<noteq> 0")
  case True
  obtain t' where t': "trace_print_location (t\<lparr>last_address := addr\<rparr>) = Some t'" "same_settings t t'"
    using trace_print_location_ok [of "t\<lparr>last_address := addr\<rparr>"] assms(1) by (auto simp: same_settings_def)
  moreover have "unat type < 2" "unat cause < 2" using assms by (simp_all add: word_less_nat_alt)
  ultimately show ?thesis using True
    by (auto simp: trace_memory_def Let_def intro: same_settings_trans)
next
  case False
  then show ?thesis unfolding trace_memory_def by (simp only: if_False) simp
qed

lemma trace_register_ok:
  assumes "location_stack_top t < 128" "type < 2" "r < 18" "mode < 32"
  shows "\<exists>t'. trace_register cycle type r mode value t = Some t' \<and> same_settings t t'"
proof (cases "enabled t \<and> trace_flags t AND REGISTERS \<noteq> 0")
  case True
  obtain t' where t': "trace_print_location t = Some t'" "same_settings t t'"
    using trace_print_location_ok [of t] assms(1) by auto
  moreover have "unat type < 2" "unat r < 18" "unat mode < 32" using assms by (simp_all add: word_less_nat_alt)
  ultimately show ?thesis using True
    by (auto simp: trace_register_def arm_get_mode_name_def arm_get_register_name_def Let_def intro: same_settings_trans)
next
  case False
  then show ?thesis unfolding trace_register_def by (simp only: if_False) simp
qed

end
