(* ===== verification/Core.thy ===== *)
theory Core
  imports Memory Trace
begin

text \<open>
  The processor of \<open>arm_core.c\<close> and the exceptions of \<open>arm_exception.c\<close>.  The state of the program is
  the processor with its registers and its memory, the static variables of the trace module and the
  texts printed on the standard output.  The memory of the processor and the memory of the gdb server
  are the same object (\<open>arm_simulator.c\<close> passes one pointer to both), kept here once.

  Every access function is followed by its located form, the macro of \<open>trace_location.h\<close> that records
  the file and the line of the call around it; the sources outside \<open>arm_core.c\<close> call the located forms.
\<close>

subsection \<open>State\<close>

record arm_core_data =
  cycle_count :: u32
  reg :: registers_data
  mem :: memory_data

record machine =
  arm :: arm_core_data
  trace :: trace_state
  console :: "string list"

type_synonym 'a action = "machine \<Rightarrow> ('a \<times> machine) option"

definition with_trace :: "(trace_state \<Rightarrow> trace_state option) \<Rightarrow> unit action" where
  "with_trace f s = do { t \<leftarrow> f (trace s); Some ((), s\<lparr>trace := t\<rparr>) }"

definition printf :: "string \<Rightarrow> machine \<Rightarrow> machine" where
  "printf text s = s\<lparr>console := console s @ [text]\<rparr>"

abbreviation "cycles s \<equiv> cycle_count (arm s)"
abbreviation "regs s \<equiv> reg (arm s)"
abbreviation "memo s \<equiv> mem (arm s)"

definition set_regs :: "registers_data \<Rightarrow> machine \<Rightarrow> machine" where
  "set_regs r s = s\<lparr>arm := (arm s)\<lparr>reg := r\<rparr>\<rparr>"

definition set_mem :: "memory_data \<Rightarrow> machine \<Rightarrow> machine" where
  "set_mem m s = s\<lparr>arm := (arm s)\<lparr>mem := m\<rparr>\<rparr>"

subsection \<open>Registers (arm_core.c)\<close>

definition arm_current_mode_has_spsr :: "machine \<Rightarrow> bool" where
  "arm_current_mode_has_spsr s = current_mode_has_spsr (regs s)"

definition arm_in_a_privileged_mode :: "machine \<Rightarrow> bool" where
  "arm_in_a_privileged_mode s = in_a_privileged_mode (regs s)"

definition arm_get_cycle_count :: "machine \<Rightarrow> u32" where
  "arm_get_cycle_count s = cycles s"

definition arm_read_register :: "u8 \<Rightarrow> u32 action" where
  "arm_read_register r s = do {
     value \<leftarrow> read_register (regs s) r;
     let value = (if r = 15 then (value + 4) AND 0xFFFFFFFD else value);
     (_, s) \<leftarrow> with_trace (trace_register (cycles s) READ r (get_mode (regs s)) value) s;
     Some (value, s)
   }"

definition arm_read_usr_register :: "u8 \<Rightarrow> u32 action" where
  "arm_read_usr_register r s = do {
     value \<leftarrow> read_usr_register (regs s) r;
     let value = (if r = 15 then (value + 4) AND 0xFFFFFFFD else value);
     (_, s) \<leftarrow> with_trace (trace_register (cycles s) READ r USR value) s;
     Some (value, s)
   }"

definition arm_read_cpsr :: "u32 action" where
  "arm_read_cpsr s = do {
     let value = read_cpsr (regs s);
     (_, s) \<leftarrow> with_trace (trace_register (cycles s) READ CPSR 0 value) s;
     Some (value, s)
   }"

definition arm_read_spsr :: "u32 action" where
  "arm_read_spsr s = do {
     let value = read_spsr (regs s);
     (_, s) \<leftarrow> with_trace (trace_register (cycles s) READ SPSR (get_mode (regs s)) value) s;
     Some (value, s)
   }"

definition arm_write_register :: "u8 \<Rightarrow> u32 \<Rightarrow> unit action" where
  "arm_write_register r value s = do {
     rs \<leftarrow> write_register (regs s) r value;
     let s = set_regs rs s;
     with_trace (trace_register (cycles s) WRITE r (get_mode (regs s)) value) s
   }"

definition arm_write_usr_register :: "u8 \<Rightarrow> u32 \<Rightarrow> unit action" where
  "arm_write_usr_register r value s = do {
     rs \<leftarrow> write_usr_register (regs s) r value;
     let s = set_regs rs s;
     with_trace (trace_register (cycles s) WRITE r USR value) s
   }"

definition arm_write_cpsr :: "u32 \<Rightarrow> unit action" where
  "arm_write_cpsr value s = do {
     let s = set_regs (write_cpsr (regs s) value) s;
     with_trace (trace_register (cycles s) WRITE CPSR 0 value) s
   }"

definition arm_write_spsr :: "u32 \<Rightarrow> unit action" where
  "arm_write_spsr value s = do {
     let s = set_regs (write_spsr (regs s) value) s;
     with_trace (trace_register (cycles s) WRITE SPSR (get_mode (regs s)) value) s
   }"

subsection \<open>Memory (arm_core.c)\<close>

text \<open>Each read takes the previous content of \<open>*value\<close> and returns the C result with the new content.\<close>

definition arm_fetch :: "u32 \<Rightarrow> (c_int \<times> u32) action" where
  "arm_fetch value s = do {
     let s = s\<lparr>arm := (arm s)\<lparr>cycle_count := cycles s + 1\<rparr>\<rparr>;
     (pc, s) \<leftarrow> arm_read_register 15 s;
     let addr = pc - 4;
     (result, value) \<leftarrow> memory_read_word (memo s) addr value;
     (_, s) \<leftarrow> with_trace (trace_memory (cycles s) READ 4 OPCODE_FETCH addr value) s;
     (_, s) \<leftarrow> arm_write_register 15 (addr + 4) s;
     Some ((result, value), s)
   }"

definition arm_read_byte :: "u32 \<Rightarrow> u8 \<Rightarrow> (c_int \<times> u8) action" where
  "arm_read_byte addr value s = do {
     (result, value) \<leftarrow> memory_read_byte (memo s) addr value;
     (_, s) \<leftarrow> with_trace (trace_memory (cycles s) READ 1 OTHER_ACCESS addr (ucast value)) s;
     Some ((result, value), s)
   }"

definition arm_read_half :: "u32 \<Rightarrow> u16 \<Rightarrow> (c_int \<times> u16) action" where
  "arm_read_half addr value s = do {
     (result, value) \<leftarrow> memory_read_half (memo s) addr value;
     (_, s) \<leftarrow> with_trace (trace_memory (cycles s) READ 2 OTHER_ACCESS addr (ucast value)) s;
     Some ((result, value), s)
   }"

definition arm_read_word :: "u32 \<Rightarrow> u32 \<Rightarrow> (c_int \<times> u32) action" where
  "arm_read_word addr value s = do {
     (result, value) \<leftarrow> memory_read_word (memo s) addr value;
     (_, s) \<leftarrow> with_trace (trace_memory (cycles s) READ 4 OTHER_ACCESS addr value) s;
     Some ((result, value), s)
   }"

definition arm_write_byte :: "u32 \<Rightarrow> u8 \<Rightarrow> c_int action" where
  "arm_write_byte addr value s = do {
     (result, m) \<leftarrow> memory_write_byte (memo s) addr value;
     let s = set_mem m s;
     (_, s) \<leftarrow> with_trace (trace_memory (cycles s) WRITE 1 OTHER_ACCESS addr (ucast value)) s;
     Some (result, s)
   }"

definition arm_write_half :: "u32 \<Rightarrow> u16 \<Rightarrow> c_int action" where
  "arm_write_half addr value s = do {
     (result, m) \<leftarrow> memory_write_half (memo s) addr value;
     let s = set_mem m s;
     (_, s) \<leftarrow> with_trace (trace_memory (cycles s) WRITE 2 OTHER_ACCESS addr (ucast value)) s;
     Some (result, s)
   }"

definition arm_write_word :: "u32 \<Rightarrow> u32 \<Rightarrow> c_int action" where
  "arm_write_word addr value s = do {
     (result, m) \<leftarrow> memory_write_word (memo s) addr value;
     let s = set_mem m s;
     (_, s) \<leftarrow> with_trace (trace_memory (cycles s) WRITE 4 OTHER_ACCESS addr value) s;
     Some (result, s)
   }"

subsection \<open>Located calls (trace_location.h)\<close>

text \<open>
  \<open>(LOCATION, f(args) + END_LOCATION)\<close> for a function with a result, \<open>(LOCATION, f(args), END_LOCATION)\<close>
  for one without; the operands of \<open>+\<close> are taken from left to right.  Where an argument of \<open>f\<close> is itself
  a located call, it is evaluated inside, as part of \<open>f\<close> here.
\<close>

type_synonym location = "string \<times> int"

definition located :: "location \<Rightarrow> 'a action \<Rightarrow> 'a action" where
  "located loc f s = do {
     (_, s) \<leftarrow> with_trace (trace_start_location (fst loc) (snd loc)) s;
     (x, s) \<leftarrow> f s;
     Some (x, s\<lparr>trace := trace_end_location (trace s)\<rparr>)
   }"

subsection \<open>Printing the processor (arm_core.c, trace.c)\<close>

text \<open>The body of the inner loop of \<open>arm_print_state\<close>: one register of one mode.\<close>

definition fprintf_out :: "string \<Rightarrow> machine \<Rightarrow> machine" where
  "fprintf_out text s = s\<lparr>trace := fprintf text (trace s)\<rparr>"

definition print_register :: "u8 \<Rightarrow> nat \<Rightarrow> nat \<Rightarrow> nat action" where
  "print_register mode r count s =
     (if mode = USR then do {
        let s = (if 0 < r \<and> r mod 5 = 0 then fprintf_out ([CHR 0x0A] @ ''    '') s else s);
        name \<leftarrow> arm_get_register_name (of_nat r);
        (v, s) \<leftarrow> arm_read_usr_register (of_nat r) s;
        Some (count, fprintf_out (''   '' @ fmt_3s name @ ''='' @ fmt_08X v) s)
      } else do {
        let s = (if 0 < count \<and> count mod 5 = 0 then fprintf_out ([CHR 0x0A] @ ''    '') s else s);
        name \<leftarrow> arm_get_register_name (of_nat r);
        (v, s) \<leftarrow> arm_read_register (of_nat r) s;
        Some (count + 1, fprintf_out (''   '' @ fmt_3s name @ ''='' @ fmt_08X v) s)
      })"

fun print_registers :: "u8 \<Rightarrow> nat list \<Rightarrow> nat \<Rightarrow> unit action" where
  "print_registers mode [] count s = Some ((), s)"
| "print_registers mode (r # rs) count s = do {
     (count, s) \<leftarrow> print_register mode r count s;
     print_registers mode rs count s
   }"

definition print_mode :: "u8 \<Rightarrow> unit action" where
  "print_mode mode s = do {
     name \<leftarrow> arm_get_mode_name mode;
     (case name of
       None \<Rightarrow> Some ((), s)
     | Some n \<Rightarrow> do {
         let s = (if mode \<noteq> SYS then fprintf_out (n @ '':'') s else s);
         (_, s) \<leftarrow> print_registers mode [0..<16] 0 s;
         (_, s) \<leftarrow> (if mode = USR
           then do { (v, s) \<leftarrow> arm_read_cpsr s; Some ((), fprintf_out (''  CPSR='' @ fmt_08X v) s) }
           else Some ((), s));
         Some ((), if mode \<in> {USR, FIQ, SVC, UND} then fprintf_out [CHR 0x0A] s
           else if mode \<in> {IRQ, ABT} then fprintf_out ''          '' s else s)
       })
   }"

fun print_modes :: "u8 list \<Rightarrow> unit action" where
  "print_modes [] s = Some ((), s)"
| "print_modes (m # ms) s = do { (_, s) \<leftarrow> print_mode m s; print_modes ms s }"

definition arm_print_state :: "unit action" where
  "arm_print_state s = print_modes (map of_nat [0..<32]) s"

definition trace_arm_state :: "unit action" where
  "trace_arm_state s =
     (if enabled (trace s) \<and> trace_flags (trace s) AND STATE \<noteq> 0 then arm_print_state s else Some ((), s))"

subsection \<open>Exceptions (arm_exception.c) and creation\<close>

abbreviation (input) "CP15_reg1_EEbit \<equiv> (0 :: u32)"
abbreviation (input) "Exception_bit_9 \<equiv> push_bit 9 CP15_reg1_EEbit"

definition arm_exception :: "u8 \<Rightarrow> unit action" where
  "arm_exception e s =
     (if e = ucast RESET then do {
        (_, s) \<leftarrow> located (''arm_exception.c'', 37) (arm_write_cpsr (0x1d3 OR Exception_bit_9)) s;
        located (''arm_exception.c'', 38) (arm_write_usr_register 15 0) s
      } else Some ((), s))"

text \<open>
  \<open>arm_create\<close> on the two \<open>malloc\<close>ed blocks it uses; the processor itself is one that \<open>malloc\<close> returned,
  with any \<open>cycle_count\<close> until it is set last.
\<close>

definition arm_create :: "memory_data \<Rightarrow> (nat \<Rightarrow> u32) \<Rightarrow> u32 \<Rightarrow> trace_state \<Rightarrow> string list \<Rightarrow> machine option" where
  "arm_create m block count t out = do {
     let s = \<lparr>arm = \<lparr>cycle_count = count, reg = registers_create block, mem = m\<rparr>, trace = t, console = out\<rparr>;
     (_, s) \<leftarrow> arm_exception (ucast RESET) s;
     Some (s\<lparr>arm := (arm s)\<lparr>cycle_count := 0\<rparr>\<rparr>)
   }"

end
