(* ===== verification/Core_Refinement.thy ===== *)
theory Core_Refinement
  imports Core
begin

text \<open>
  The processor without its trace.  Each action of the machine is related to an action on the
  processor alone: the two succeed together, return the same value and leave the same processor, and
  the machine's trace keeps its options and the height of its location stack.  The relation is the
  interface \<open>traced_action\<close> between the processor and the code that runs on it; it is kept by located
  calls and by sequencing, so that every later operation gets it from its parts.
\<close>

subsection \<open>The interface\<close>

definition refines :: "trace_state \<Rightarrow> ('a \<times> machine) option \<Rightarrow> ('a \<times> arm_core_data) option \<Rightarrow> bool" where
  "refines t r r' \<longleftrightarrow> (case r of
      None \<Rightarrow> r' = None
    | Some (x, s) \<Rightarrow> r' = Some (x, arm s) \<and> same_settings t (trace s))"

text \<open>Room for \<open>n\<close> more entries on the location stack, which holds 128.\<close>

definition room :: "nat \<Rightarrow> trace_state \<Rightarrow> bool" where
  "room n t \<longleftrightarrow> -1 \<le> location_stack_top t \<and> location_stack_top t + int n < 127"

lemma room_same: "same_settings t u \<Longrightarrow> room n u = room n t"
  by (simp add: same_settings_def room_def)

lemma room_mono: "room n t \<Longrightarrow> m \<le> n \<Longrightarrow> room m t"
  by (simp add: room_def)

lemma room_top: "room n t \<Longrightarrow> location_stack_top t < 128"
  by (simp add: room_def)

lemma refines_return: "same_settings t (trace s) \<Longrightarrow> c = arm s \<Longrightarrow> refines t (Some (x, s)) (Some (x, c))"
  by (simp add: refines_def)

lemma refines_None [simp]: "refines t None r' \<longleftrightarrow> r' = None" "refines t r None \<longleftrightarrow> r = None"
  by (auto simp: refines_def split: option.splits)

lemma refines_Some: "refines t r (Some (x, c)) \<longleftrightarrow> (\<exists>s. r = Some (x, s) \<and> arm s = c \<and> same_settings t (trace s))"
  by (auto simp: refines_def split: option.splits)

lemma refines_bind:
  assumes "refines t r r'"
    and "\<And>x s. r = Some (x, s) \<Longrightarrow> same_settings t (trace s) \<Longrightarrow> refines t (f x s) (f' x (arm s))"
  shows "refines t (Option.bind r (\<lambda>(x, s). f x s)) (Option.bind r' (\<lambda>(x, c). f' x c))"
proof (cases r)
  case (Some p)
  obtain x s where p: "p = (x, s)" by (cases p)
  with Some assms(1) have "r' = Some (x, arm s)" "same_settings t (trace s)" by (simp_all add: refines_def)
  with Some p assms(2) show ?thesis by simp
qed (use assms(1) in simp)

lemma refines_bind_Some:
  assumes "refines t r (Some (x, c))"
    and "\<And>s. arm s = c \<Longrightarrow> same_settings t (trace s) \<Longrightarrow> refines t (f x s) r'"
  shows "refines t (Option.bind r (\<lambda>(x, s). f x s)) r'"
  using assms by (auto simp: refines_Some)

lemma refines_settings: "same_settings t u \<Longrightarrow> refines u r r' \<Longrightarrow> refines t r r'"
  by (auto simp: refines_def split: option.splits intro: same_settings_trans)

lemma refines_with_trace:
  assumes "\<And>t. location_stack_top t < 128 \<Longrightarrow> \<exists>t'. f t = Some t' \<and> same_settings t t'"
    and "same_settings t (trace s)" "room n t"
  shows "refines t (with_trace f s) (Some ((), arm s))"
proof -
  have "location_stack_top (trace s) < 128" using assms(2,3) by (simp add: same_settings_def room_def)
  then obtain t' where "f (trace s) = Some t'" "same_settings (trace s) t'" using assms(1) by blast
  then show ?thesis using assms(2) by (auto simp: refines_def with_trace_def intro: same_settings_trans)
qed

locale traced_action =
  fixes need :: nat
    and act :: "'a action"
    and core :: "arm_core_data \<Rightarrow> ('a \<times> arm_core_data) option"
  assumes agrees: "room need (trace s) \<Longrightarrow> refines (trace s) (act s) (core (arm s))"
begin

lemma agrees_from:
  assumes "same_settings t (trace s)" "room n t" "need \<le> n" "arm s = c"
  shows "refines t (act s) (core c)"
  using assms by (meson agrees refines_settings room_mono room_same)

text \<open>A located call does the same on the processor and needs one more entry of the stack.\<close>

lemma located_agrees: "traced_action (Suc need) (located loc act) core"
proof
  fix s :: machine
  assume room: "room (Suc need) (trace s)"
  show "refines (trace s) (located loc act s) (core (arm s))"
  proof (cases "enabled (trace s)")
    case True
    define t where "t = (trace s)\<lparr>location_stack_top := location_stack_top (trace s) + 1,
      location_file_stack := (location_file_stack (trace s))(location_stack_top (trace s) + 1 := fst loc),
      location_line_stack := (location_line_stack (trace s))(location_stack_top (trace s) + 1 := snd loc)\<rparr>"
    have start: "trace_start_location (fst loc) (snd loc) (trace s) = Some t"
      using True room by (simp add: trace_start_location_def t_def room_def Let_def)
    have "refines t (act (s\<lparr>trace := t\<rparr>)) (core (arm s))"
      using agrees [of "s\<lparr>trace := t\<rparr>"] room by (simp add: t_def room_def)
    then show ?thesis
      using True by (auto simp: located_def with_trace_def start refines_def t_def same_settings_def
          trace_end_location_def split: option.splits)
  next
    case False
    then show ?thesis using agrees [of s] room
      by (auto simp: located_def with_trace_def trace_start_location_def trace_end_location_def refines_def
          same_settings_def room_def split: option.splits)
  qed
qed

text \<open>The trace has no influence on the processor: machines with the same processor act alike.\<close>

lemma transparent:
  assumes "arm s = arm s'" "room need (trace s)" "room need (trace s')"
  shows "map_option (\<lambda>(x, u). (x, arm u)) (act s) = map_option (\<lambda>(x, u). (x, arm u)) (act s')"
  using agrees [of s] agrees [of s'] assms by (auto simp: refines_def split: option.splits)

lemma keeps_settings:
  assumes "act s = Some (x, u)" "room need (trace s)"
  shows "same_settings (trace s) (trace u)"
  using agrees [of s] assms by (simp add: refines_def)

lemma runs:
  assumes "core (arm s) = Some (x, c)" "room need (trace s)"
  shows "\<exists>u. act s = Some (x, u) \<and> arm u = c \<and> same_settings (trace s) (trace u)"
  using agrees [of s] assms by (simp add: refines_Some)

end

subsection \<open>The processor alone\<close>

definition core_read_register :: "u8 \<Rightarrow> arm_core_data \<Rightarrow> (u32 \<times> arm_core_data) option" where
  "core_read_register r c = do {
     v \<leftarrow> read_register (reg c) r;
     Some (if r = 15 then (v + 4) AND 0xFFFFFFFD else v, c)
   }"

definition core_write_register :: "u8 \<Rightarrow> u32 \<Rightarrow> arm_core_data \<Rightarrow> (unit \<times> arm_core_data) option" where
  "core_write_register r v c = do { rs \<leftarrow> write_register (reg c) r v; Some ((), c\<lparr>reg := rs\<rparr>) }"

definition core_read_usr_register :: "u8 \<Rightarrow> arm_core_data \<Rightarrow> (u32 \<times> arm_core_data) option" where
  "core_read_usr_register r c = do {
     v \<leftarrow> read_usr_register (reg c) r;
     Some (if r = 15 then (v + 4) AND 0xFFFFFFFD else v, c)
   }"

definition core_write_usr_register :: "u8 \<Rightarrow> u32 \<Rightarrow> arm_core_data \<Rightarrow> (unit \<times> arm_core_data) option" where
  "core_write_usr_register r v c = do { rs \<leftarrow> write_usr_register (reg c) r v; Some ((), c\<lparr>reg := rs\<rparr>) }"

definition core_read_word :: "u32 \<Rightarrow> u32 \<Rightarrow> arm_core_data \<Rightarrow> ((c_int \<times> u32) \<times> arm_core_data) option" where
  "core_read_word a x c = do { r \<leftarrow> memory_read_word (mem c) a x; Some (r, c) }"

definition core_read_byte :: "u32 \<Rightarrow> u8 \<Rightarrow> arm_core_data \<Rightarrow> ((c_int \<times> u8) \<times> arm_core_data) option" where
  "core_read_byte a x c = do { r \<leftarrow> memory_read_byte (mem c) a x; Some (r, c) }"

definition core_write_word :: "u32 \<Rightarrow> u32 \<Rightarrow> arm_core_data \<Rightarrow> (c_int \<times> arm_core_data) option" where
  "core_write_word a v c = do { (r, m) \<leftarrow> memory_write_word (mem c) a v; Some (r, c\<lparr>mem := m\<rparr>) }"

definition core_write_byte :: "u32 \<Rightarrow> u8 \<Rightarrow> arm_core_data \<Rightarrow> (c_int \<times> arm_core_data) option" where
  "core_write_byte a v c = do { (r, m) \<leftarrow> memory_write_byte (mem c) a v; Some (r, c\<lparr>mem := m\<rparr>) }"

definition core_fetch :: "u32 \<Rightarrow> arm_core_data \<Rightarrow> ((c_int \<times> u32) \<times> arm_core_data) option" where
  "core_fetch x c = do {
     let c = c\<lparr>cycle_count := cycle_count c + 1\<rparr>;
     (pc, c) \<leftarrow> core_read_register 15 c;
     (r, c) \<leftarrow> core_read_word (pc - 4) x c;
     (_, c) \<leftarrow> core_write_register 15 (pc - 4 + 4) c;
     Some (r, c)
   }"

definition core_read_half :: "u32 \<Rightarrow> u16 \<Rightarrow> arm_core_data \<Rightarrow> ((c_int \<times> u16) \<times> arm_core_data) option" where
  "core_read_half a x c = do { r \<leftarrow> memory_read_half (mem c) a x; Some (r, c) }"

definition core_write_half :: "u32 \<Rightarrow> u16 \<Rightarrow> arm_core_data \<Rightarrow> (c_int \<times> arm_core_data) option" where
  "core_write_half a v c = do { (r, m) \<leftarrow> memory_write_half (mem c) a v; Some (r, c\<lparr>mem := m\<rparr>) }"

subsection \<open>The accesses of arm_core.c implement the interface\<close>

lemma register_name_ok: "read_register rs r = Some v \<Longrightarrow> r < 18"
  by (simp add: read_register_def word_less_nat_alt split: if_splits)

lemma refines_trace_register:
  assumes "same_settings t (trace s)" "room n t" "ty < 2" "r < 18" "mode < 32"
  shows "refines t (with_trace (trace_register cy ty r mode v) s) (Some ((), arm s))"
  by (rule refines_with_trace [OF _ assms(1,2)]) (intro trace_register_ok assms)

lemma refines_trace_memory:
  assumes "same_settings t (trace s)" "room n t" "ty < 2" "cause < 2"
  shows "refines t (with_trace (trace_memory cy ty sz cause a v) s) (Some ((), arm s))"
  by (rule refines_with_trace [OF _ assms(1,2)]) (intro trace_memory_ok assms)

interpretation read_reg: traced_action 0 "arm_read_register r" "core_read_register r" for r
proof
  fix s :: machine
  assume room: "room 0 (trace s)"
  show "refines (trace s) (arm_read_register r s) (core_read_register r (arm s))"
  proof (cases "read_register (regs s) r")
    case (Some v)
    show ?thesis
      unfolding arm_read_register_def core_read_register_def Some Let_def Option.bind.simps
      by (rule refines_bind_Some, rule refines_trace_register [OF _ room])
        (use Some in \<open>auto simp: register_name_ok get_mode_less intro: refines_return\<close>)
  qed (simp add: arm_read_register_def core_read_register_def)
qed

text \<open>A register number is checked only when the name of the register is printed, so an access to the
  user bank needs a number inside the name table even in a privileged mode.\<close>

lemma refines_read_usr:
  assumes "same_settings t (trace s)" "room n t" "r < 18"
  shows "refines t (arm_read_usr_register r s) (core_read_usr_register r (arm s))"
proof (cases "read_usr_register (regs s) r")
  case (Some v)
  show ?thesis
    unfolding arm_read_usr_register_def core_read_usr_register_def Some Let_def Option.bind.simps
    by (rule refines_bind_Some, rule refines_trace_register [OF assms(1,2)])
      (use assms in \<open>auto intro: refines_return\<close>)
qed (simp add: arm_read_usr_register_def core_read_usr_register_def)

lemma refines_write_usr:
  assumes "same_settings t (trace s)" "room n t" "r < 18"
  shows "refines t (arm_write_usr_register r v s) (core_write_usr_register r v (arm s))"
proof (cases "write_usr_register (regs s) r v")
  case (Some rs)
  show ?thesis
    unfolding arm_write_usr_register_def core_write_usr_register_def Some Let_def Option.bind.simps
    using refines_trace_register [of t "set_regs rs s" n WRITE r USR] assms by (simp add: set_regs_def)
qed (simp add: arm_write_usr_register_def core_write_usr_register_def)

interpretation write_reg: traced_action 0 "arm_write_register r v" "core_write_register r v" for r v
proof
  fix s :: machine
  assume room: "room 0 (trace s)"
  show "refines (trace s) (arm_write_register r v s) (core_write_register r v (arm s))"
  proof (cases "write_register (regs s) r v")
    case (Some rs)
    then have "r < 18" by (simp add: write_register_def word_less_nat_alt split: if_splits)
    then show ?thesis
      unfolding arm_write_register_def core_write_register_def Some Let_def Option.bind.simps
      using refines_trace_register [of "trace s" "set_regs rs s" 0 WRITE r "get_mode rs"] room
      by (simp add: set_regs_def get_mode_less)
  qed (simp add: arm_write_register_def core_write_register_def)
qed

interpretation cpsr_read: traced_action 0 arm_read_cpsr "\<lambda>c. Some (read_cpsr (reg c), c)"
  by unfold_locales
    (auto simp: arm_read_cpsr_def Let_def intro!: refines_bind_Some refines_trace_register refines_return)

interpretation spsr_read: traced_action 0 arm_read_spsr "\<lambda>c. Some (read_spsr (reg c), c)"
  by unfold_locales
    (auto simp: arm_read_spsr_def Let_def get_mode_less intro!: refines_bind_Some refines_trace_register refines_return)

interpretation cpsr_write: traced_action 0 "arm_write_cpsr v" "\<lambda>c. Some ((), c\<lparr>reg := write_cpsr (reg c) v\<rparr>)" for v
proof
  fix s :: machine
  assume "room 0 (trace s)"
  then show "refines (trace s) (arm_write_cpsr v s) (Some ((), (arm s)\<lparr>reg := write_cpsr (regs s) v\<rparr>))"
    using refines_trace_register [of "trace s" "set_regs (write_cpsr (regs s) v) s" 0 WRITE CPSR 0]
    by (simp add: arm_write_cpsr_def set_regs_def Let_def)
qed

interpretation spsr_write: traced_action 0 "arm_write_spsr v" "\<lambda>c. Some ((), c\<lparr>reg := write_spsr (reg c) v\<rparr>)" for v
proof
  fix s :: machine
  assume "room 0 (trace s)"
  then show "refines (trace s) (arm_write_spsr v s) (Some ((), (arm s)\<lparr>reg := write_spsr (regs s) v\<rparr>))"
    using refines_trace_register [of "trace s" "set_regs (write_spsr (regs s) v) s" 0 WRITE SPSR
        "get_mode (write_spsr (regs s) v)"]
    by (simp add: arm_write_spsr_def set_regs_def Let_def get_mode_less)
qed

interpretation word_read: traced_action 0 "arm_read_word a x" "core_read_word a x" for a x
proof
  fix s :: machine
  assume room: "room 0 (trace s)"
  show "refines (trace s) (arm_read_word a x s) (core_read_word a x (arm s))"
  proof (cases "memory_read_word (memo s) a x")
    case (Some p)
    then show ?thesis
      by (cases p) (auto simp: arm_read_word_def core_read_word_def
          intro!: refines_bind_Some refines_trace_memory [OF _ room] refines_return)
  qed (simp add: arm_read_word_def core_read_word_def)
qed

interpretation byte_read: traced_action 0 "arm_read_byte a x" "core_read_byte a x" for a x
proof
  fix s :: machine
  assume room: "room 0 (trace s)"
  show "refines (trace s) (arm_read_byte a x s) (core_read_byte a x (arm s))"
  proof (cases "memory_read_byte (memo s) a x")
    case (Some p)
    then show ?thesis
      by (cases p) (auto simp: arm_read_byte_def core_read_byte_def
          intro!: refines_bind_Some refines_trace_memory [OF _ room] refines_return)
  qed (simp add: arm_read_byte_def core_read_byte_def)
qed

lemma refines_write_traced:
  assumes "room 0 (trace s)" "arm u = c" "trace u = trace s" "cause < 2"
  shows "refines (trace s) (do { (_, s) \<leftarrow> with_trace (trace_memory cy WRITE sz cause a v) u; Some (x, s) }) (Some (x, c))"
  by (rule refines_bind_Some, rule refines_trace_memory [OF _ assms(1)]) (use assms in \<open>auto intro: refines_return\<close>)

interpretation word_write: traced_action 0 "arm_write_word a v" "core_write_word a v" for a v
  by unfold_locales
    (auto simp: arm_write_word_def core_write_word_def set_mem_def Let_def refines_write_traced split: bind_splits)

interpretation byte_write: traced_action 0 "arm_write_byte a v" "core_write_byte a v" for a v
  by unfold_locales
    (auto simp: arm_write_byte_def core_write_byte_def set_mem_def Let_def refines_write_traced split: bind_splits)

lemma refines_fetch_rest:
  assumes "same_settings t (trace s)" "room 0 t"
  shows "refines t (do {
       (result, value) \<leftarrow> memory_read_word (memo s) a x;
       (_, s) \<leftarrow> with_trace (trace_memory (cycles s) READ 4 OPCODE_FETCH a value) s;
       (_, s) \<leftarrow> arm_write_register 15 (a + 4) s;
       Some ((result, value), s) })
     (do { (r, c) \<leftarrow> core_read_word a x (arm s); (_, c) \<leftarrow> core_write_register 15 (a + 4) c; Some (r, c) })"
proof (cases "memory_read_word (memo s) a x")
  case (Some p)
  obtain result v where p: "p = (result, v)" by (cases p)
  have "refines t (do {
       (_, s) \<leftarrow> with_trace (trace_memory (cycles s) READ 4 OPCODE_FETCH a v) s;
       (_, s) \<leftarrow> arm_write_register 15 (a + 4) s;
       Some ((result, v), s) })
     (do { (_, c) \<leftarrow> core_write_register 15 (a + 4) (arm s); Some ((result, v), c) })"
  proof (rule refines_bind_Some, rule refines_trace_memory [OF assms])
    fix u :: machine
    assume u: "arm u = arm s" "same_settings t (trace u)"
    have "refines t (arm_write_register 15 (a + 4) u) (core_write_register 15 (a + 4) (arm s))"
      by (rule write_reg.agrees_from [OF u(2) assms(2) _ u(1)]) simp
    then show "refines t (do { (_, s) \<leftarrow> arm_write_register 15 (a + 4) u; Some ((result, v), s) })
      (do { (_, c) \<leftarrow> core_write_register 15 (a + 4) (arm s); Some ((result, v), c) })"
      by (rule refines_bind) (simp add: refines_return)
  qed simp_all
  with Some p show ?thesis by (simp add: core_read_word_def)
qed (simp add: core_read_word_def)

interpretation fetch: traced_action 0 "arm_fetch x" "core_fetch x" for x
proof
  fix s :: machine
  assume room: "room 0 (trace s)"
  show "refines (trace s) (arm_fetch x s) (core_fetch x (arm s))"
    unfolding arm_fetch_def core_fetch_def Let_def
  proof (rule refines_bind)
    show "refines (trace s) (arm_read_register 15 (s\<lparr>arm := (arm s)\<lparr>cycle_count := cycles s + 1\<rparr>\<rparr>))
      (core_read_register 15 ((arm s)\<lparr>cycle_count := cycles s + 1\<rparr>))"
      using read_reg.agrees [of "s\<lparr>arm := (arm s)\<lparr>cycle_count := cycles s + 1\<rparr>\<rparr>" 15] room by simp
  qed (rule refines_fetch_rest [OF _ room], assumption)
qed

interpretation half_read: traced_action 0 "arm_read_half a x" "core_read_half a x" for a x
proof
  fix s :: machine
  assume room: "room 0 (trace s)"
  show "refines (trace s) (arm_read_half a x s) (core_read_half a x (arm s))"
  proof (cases "memory_read_half (memo s) a x")
    case (Some p)
    then show ?thesis
      by (cases p) (auto simp: arm_read_half_def core_read_half_def
          intro!: refines_bind_Some refines_trace_memory [OF _ room] refines_return)
  qed (simp add: arm_read_half_def core_read_half_def)
qed

interpretation half_write: traced_action 0 "arm_write_half a v" "core_write_half a v" for a v
  by unfold_locales
    (auto simp: arm_write_half_def core_write_half_def set_mem_def Let_def refines_write_traced split: bind_splits)

subsection \<open>Exceptions and printing\<close>

definition core_exception :: "u8 \<Rightarrow> arm_core_data \<Rightarrow> (unit \<times> arm_core_data) option" where
  "core_exception e c =
     (if e = ucast RESET then core_write_usr_register 15 0 (c\<lparr>reg := write_cpsr (reg c) 0x1d3\<rparr>) else Some ((), c))"

lemma traced_actionI:
  "(\<And>t s. same_settings t (trace s) \<Longrightarrow> room n t \<Longrightarrow> refines t (f s) (g (arm s))) \<Longrightarrow> traced_action n f g"
  by unfold_locales simp

lemma write_usr_traced: "r < 18 \<Longrightarrow> traced_action 0 (arm_write_usr_register r v) (core_write_usr_register r v)"
  by (rule traced_actionI) (rule refines_write_usr)

interpretation except: traced_action 1 "arm_exception e" "core_exception e" for e
proof
  fix s :: machine
  assume room: "room 1 (trace s)"
  have w: "traced_action 1 (located l (arm_write_cpsr v)) (\<lambda>c. Some ((), c\<lparr>reg := write_cpsr (reg c) v\<rparr>))" for l v
    using cpsr_write.located_agrees by simp
  have u: "traced_action 1 (located l (arm_write_usr_register 15 0)) (core_write_usr_register 15 0)" for l
    using traced_action.located_agrees [OF write_usr_traced] by simp
  show "refines (trace s) (arm_exception e s) (core_exception e (arm s))"
    unfolding arm_exception_def core_exception_def
    using room
    by (auto intro!: refines_bind_Some traced_action.agrees [OF w] refines_return
        traced_action.agrees_from [OF u])
qed

lemma same_settings_fprintf_out [simp]:
  "same_settings t (trace (fprintf_out x s)) = same_settings t (trace s)" "arm (fprintf_out x s) = arm s"
  by (simp_all add: fprintf_out_def fprintf_def same_settings_def)

lemma refines_print_register:
  assumes "same_settings t (trace s)" "room n t" "r < 16"
  shows "refines t (print_register mode r count s) (Some (if mode = USR then count else count + 1, arm s))"
proof -
  have r: "unat (of_nat r :: u8) = r" "(of_nat r :: u8) < 18"
    using assms(3) by (simp_all add: unsigned_of_nat take_bit_nat_eq_self word_less_nat_alt)
  then have "\<exists>name. arm_get_register_name (of_nat r) = Some name"
    using assms(3) by (simp add: arm_get_register_name_def)
  then obtain name where name: "arm_get_register_name (of_nat r) = Some name" ..
  have usr: "\<exists>v. core_read_usr_register (of_nat r) c = Some (v, c)" for c
    using assms(3) by (auto simp: core_read_usr_register_def read_usr_register_def read_register_def r)
  have reg: "\<exists>v. core_read_register (of_nat r) c = Some (v, c)" for c
    using assms(3) by (auto simp: core_read_register_def read_register_def r)
  show ?thesis
  proof (cases "mode = USR")
    case True
    define s' where "s' = (if 0 < r \<and> r mod 5 = 0 then fprintf_out ([CHR 0x0A] @ ''    '') s else s)"
    have s': "same_settings t (trace s')" "arm s' = arm s" using assms(1) by (simp_all add: s'_def)
    obtain v where v: "core_read_usr_register (of_nat r) (arm s) = Some (v, arm s)" using usr by blast
    have "refines t (arm_read_usr_register (of_nat r) s') (Some (v, arm s))"
      using refines_read_usr [OF s'(1) assms(2) r(2)] s'(2) v by simp
    then show ?thesis using True
      by (auto simp: print_register_def name Let_def s'_def [symmetric] intro!: refines_bind_Some refines_return)
  next
    case False
    define s' where "s' = (if 0 < count \<and> count mod 5 = 0 then fprintf_out ([CHR 0x0A] @ ''    '') s else s)"
    have s': "same_settings t (trace s')" "arm s' = arm s" using assms(1) by (simp_all add: s'_def)
    obtain v where v: "core_read_register (of_nat r) (arm s) = Some (v, arm s)" using reg by blast
    have "refines t (arm_read_register (of_nat r) s') (Some (v, arm s))"
      using read_reg.agrees_from [OF s'(1) assms(2) _ s'(2), where r = "of_nat r"] v by simp
    then show ?thesis using False
      by (auto simp: print_register_def name Let_def s'_def [symmetric] intro!: refines_bind_Some refines_return)
  qed
qed

lemma refines_print_registers:
  assumes "same_settings t (trace s)" "room n t" "\<forall>r\<in>set rs. r < 16"
  shows "refines t (print_registers mode rs count s) (Some ((), arm s))"
  using assms
proof (induction rs arbitrary: count s)
  case Nil
  then show ?case by (simp add: refines_return)
next
  case (Cons r rs)
  show ?case
    unfolding print_registers.simps
  proof (rule refines_bind_Some)
    show "refines t (print_register mode r count s) (Some (if mode = USR then count else count + 1, arm s))"
      using Cons.prems by (intro refines_print_register) auto
    fix u :: machine
    assume "arm u = arm s" "same_settings t (trace u)"
    then show "refines t (print_registers mode rs (if mode = USR then count else count + 1) u) (Some ((), arm s))"
      using Cons.IH [of u] Cons.prems by simp
  qed
qed

lemma refines_print_mode:
  assumes "same_settings t (trace s)" "room n t" "mode < 32"
  shows "refines t (print_mode mode s) (Some ((), arm s))"
proof -
  obtain name where name: "arm_get_mode_name mode = Some name"
    using assms(3) by (auto simp: arm_get_mode_name_def table_at_def word_less_nat_alt)
  show ?thesis
  proof (cases name)
    case None
    then show ?thesis using assms(1) by (simp add: print_mode_def name refines_return)
  next
    case (Some nm)
    define s' where "s' = (if mode \<noteq> 0x1f then fprintf_out (nm @ '':'') s else s)"
    have s': "same_settings t (trace s')" "arm s' = arm s" using assms(1) by (simp_all add: s'_def)
    have "refines t (print_registers mode [0..<16] 0 s') (Some ((), arm s))"
      using refines_print_registers [OF s'(1) assms(2)] s'(2) by simp
    then show ?thesis
      using assms(2)
      by (auto simp: print_mode_def name Some Let_def s'_def [symmetric]
          intro!: refines_bind_Some refines_return cpsr_read.agrees_from)
  qed
qed

lemma refines_print_modes:
  assumes "same_settings t (trace s)" "room n t" "\<forall>m\<in>set ms. m < 32"
  shows "refines t (print_modes ms s) (Some ((), arm s))"
  using assms
proof (induction ms arbitrary: s)
  case Nil
  then show ?case by (simp add: refines_return)
next
  case (Cons m ms)
  show ?case
    unfolding print_modes.simps
  proof (rule refines_bind_Some)
    show "refines t (print_mode m s) (Some ((), arm s))"
      using Cons.prems by (intro refines_print_mode) auto
    fix u :: machine
    assume "arm u = arm s" "same_settings t (trace u)"
    then show "refines t (print_modes ms u) (Some ((), arm s))"
      using Cons.IH [of u] Cons.prems by simp
  qed
qed

interpretation state_print: traced_action 0 trace_arm_state "\<lambda>c. Some ((), c)"
proof
  fix s :: machine
  assume room: "room 0 (trace s)"
  have "\<forall>m\<in>set (map of_nat [0..<32]). m < (32 :: u8)"
    by (auto simp: word_less_nat_alt unsigned_of_nat take_bit_nat_eq_self)
  with room have "refines (trace s) (arm_print_state s) (Some ((), arm s))"
    unfolding arm_print_state_def by (intro refines_print_modes) simp_all
  then show "refines (trace s) (trace_arm_state s) (Some ((), arm s))"
    by (simp add: trace_arm_state_def refines_return)
qed

subsection \<open>Properties\<close>

text \<open>The value written to a register through \<open>arm_write_register\<close> is the value \<open>arm_read_register\<close> returns, for
  every register but PC; PC reads as the written value plus 4 with bit 1 cleared.  No other register, no byte of
  memory and not the cycle counter changes.\<close>

theorem register_roundtrip:
  assumes "room 0 (trace s)" "r < 18"
  shows "\<exists>u w. arm_write_register r v s = Some ((), u) \<and>
    arm u = (arm s)\<lparr>reg := \<lparr>r_data = (r_data (regs s))(unat r := v)\<rparr>\<rparr> \<and>
    arm_read_register r u = Some (if r = 15 then (v + 4) AND 0xFFFFFFFD else v, w) \<and> arm w = arm u"
proof -
  have r: "unat r < 18" using assms(2) by (simp add: word_less_nat_alt)
  let ?c = "(arm s)\<lparr>reg := \<lparr>r_data = (r_data (regs s))(unat r := v)\<rparr>\<rparr>"
  have "core_write_register r v (arm s) = Some ((), ?c)"
    using r by (simp add: core_write_register_def write_register_def)
  from write_reg.runs [OF this assms(1)] obtain u where
    u: "arm_write_register r v s = Some ((), u)" "arm u = ?c" "same_settings (trace s) (trace u)" by blast
  have "core_read_register r (arm u) = Some (if r = 15 then (v + 4) AND 0xFFFFFFFD else v, arm u)"
    using r by (simp add: core_read_register_def read_register_def u(2))
  from read_reg.runs [OF this] u room_same assms(1) show ?thesis by blast
qed

text \<open>A machine just created: zeroed registers, the memory \<open>small_memory\<close>, an empty trace.\<close>

definition blank :: machine where
  "blank = \<lparr>arm = \<lparr>cycle_count = 0, reg = registers_create (\<lambda>_. 0), mem = small_memory 1\<rparr>, trace = trace_initial, console = []\<rparr>"

lemma blank_room [simp]: "room n (trace blank) \<longleftrightarrow> n < 128"
  by (simp add: blank_def room_def trace_initial_def)

theorem register_roundtrip_witness:
  "\<exists>u w. arm_write_register 15 8 blank = Some ((), u) \<and> arm_read_register 15 u = Some (12, w)"
  using register_roundtrip [of blank 15 8] by auto

text \<open>Outside user mode the accesses to the user registers do nothing: reads return 0 and writes are lost, also
  in system mode, which shares the registers of user mode.\<close>

theorem usr_registers_privileged:
  assumes "room 0 (trace s)" "in_a_privileged_mode (regs s)" "r < 18"
  shows "\<exists>u w. arm_write_usr_register r v s = Some ((), u) \<and> arm u = arm s \<and>
    arm_read_usr_register r u = Some (if r = 15 then 4 else 0, w) \<and> arm w = arm s"
proof -
  have "core_write_usr_register r v (arm s) = Some ((), arm s)"
    using assms(2) by (simp add: core_write_usr_register_def write_usr_register_def)
  with refines_write_usr [OF _ assms(1,3), of s v] obtain u where
    u: "arm_write_usr_register r v s = Some ((), u)" "arm u = arm s" "same_settings (trace s) (trace u)"
    by (auto simp: refines_Some same_settings_def)
  have "core_read_usr_register r (arm u) = Some (if r = 15 then 4 else 0, arm u)"
    using assms(2) by (simp add: core_read_usr_register_def read_usr_register_def u(2))
  with refines_read_usr [OF u(3) assms(1,3)] u show ?thesis by (auto simp: refines_Some)
qed

theorem usr_registers_privileged_witness:
  "\<exists>s u w. get_mode (regs s) = SYS \<and> arm_write_usr_register 3 7 s = Some ((), u) \<and> arm u = arm s \<and>
     arm_read_usr_register 3 u = Some (0, w)"
proof -
  let ?s = "set_regs (write_cpsr (regs blank) 0x1F) blank"
  have m: "get_mode (regs ?s) = SYS" by (simp add: set_regs_def get_mode_def write_cpsr_def)
  then have "in_a_privileged_mode (regs ?s)" by (simp add: in_a_privileged_mode_def)
  moreover have "room 0 (trace ?s)" by (simp add: set_regs_def)
  ultimately show ?thesis using usr_registers_privileged [of ?s 3 7] m by fastforce
qed

text \<open>The reset exception enters supervisor mode with interrupts disabled but leaves PC as it is: the mode is
  changed first, and the write of PC through the user registers that follows is lost.  The other exceptions
  are ignored.\<close>

theorem reset_keeps_pc:
  assumes "room 1 (trace s)"
  shows "(\<exists>u. arm_exception (ucast RESET) s = Some ((), u) \<and> read_cpsr (regs u) = 0x1d3 \<and> get_mode (regs u) = SVC \<and>
      r_data (regs u) 15 = r_data (regs s) 15 \<and> memo u = memo s) \<and>
    (\<forall>e. e \<noteq> ucast RESET \<longrightarrow> arm_exception e s = Some ((), s))"
proof -
  let ?c = "(arm s)\<lparr>reg := write_cpsr (regs s) 0x1d3\<rparr>"
  have "core_exception (ucast RESET) (arm s) = Some ((), ?c)"
    by (simp add: core_exception_def core_write_usr_register_def write_usr_register_def in_a_privileged_mode_def
        get_mode_def write_cpsr_def)
  from except.runs [OF this assms] show ?thesis
    by (auto simp: read_cpsr_def write_cpsr_def get_mode_def arm_exception_def)
qed

theorem reset_keeps_pc_witness:
  "\<exists>u. arm_exception (ucast RESET) (blank\<lparr>arm := (arm blank)\<lparr>reg := registers_create (\<lambda>_. 0x44)\<rparr>\<rparr>) = Some ((), u) \<and>
     r_data (regs u) 15 = 0x44"
  using reset_keeps_pc [of "blank\<lparr>arm := (arm blank)\<lparr>reg := registers_create (\<lambda>_. 0x44)\<rparr>\<rparr>"]
  by (auto simp: registers_create_def)

text \<open>Printing the state of the processor on the trace, in every mode, changes neither the processor nor the
  options and the location stack of the trace.\<close>

theorem print_state_keeps:
  assumes "room 0 (trace s)"
  shows "\<exists>u. trace_arm_state s = Some ((), u) \<and> arm u = arm s \<and> same_settings (trace s) (trace u)"
  using state_print.runs [OF refl assms] by blast

theorem print_state_keeps_witness:
  "\<exists>u. trace_arm_state (blank\<lparr>trace := trace_add STATE (trace_enable trace_initial)\<rparr>) = Some ((), u) \<and> arm u = arm blank"
  using print_state_keeps [of "blank\<lparr>trace := trace_add STATE (trace_enable trace_initial)\<rparr>"]
  by (auto simp: room_def trace_add_def trace_enable_def trace_initial_def)

end
