(* ===== verification/Gdb_Format.thy ===== *)
theory Gdb_Format
  imports Core_Refinement
begin

text \<open>
  The texts of \<open>gdb_protocol.c\<close>: the conversions of \<open>sscanf\<close> and \<open>atoi\<close> it uses, 32-bit values as eight
  hexadecimal digits in the byte order of the target, the packet buffer of 1024 characters and the packets
  with their checksum.
\<close>

abbreviation (input) "NUL \<equiv> CHR 0x00"

subsection \<open>Conversions of the C library\<close>

text \<open>A pointer into a block is the list of the bytes from there to the end of the block; the C string it
  points to ends at the first null byte, and there is none if the block holds no null byte.\<close>

definition c_string :: "string \<Rightarrow> string option" where
  "c_string d = (if NUL \<in> set d then Some (takeWhile (\<lambda>c. c \<noteq> NUL) d) else None)"

definition isspace :: "char \<Rightarrow> bool" where
  "isspace c \<longleftrightarrow> (of_char c :: nat) = 32 \<or> 9 \<le> (of_char c :: nat) \<and> (of_char c :: nat) \<le> 13"

definition digit_value :: "char \<Rightarrow> nat" where
  "digit_value c = (let n = of_char c :: nat in
     if 48 \<le> n \<and> n \<le> 57 then n - 48 else if 65 \<le> n \<and> n \<le> 70 then n - 55
     else if 97 \<le> n \<and> n \<le> 102 then n - 87 else 16)"

definition number :: "nat \<Rightarrow> string \<Rightarrow> nat" where
  "number base ds = foldl (\<lambda>n c. base * n + digit_value c) 0 ds"

definition split_sign :: "string \<Rightarrow> bool \<times> string" where
  "split_sign s = (case s of [] \<Rightarrow> (False, [])
     | c # cs \<Rightarrow> if c = CHR ''-'' then (True, cs) else if c = CHR ''+'' then (False, cs) else (False, s))"

definition skip_prefix :: "string \<Rightarrow> string" where
  "skip_prefix s = (case s of a # b # cs \<Rightarrow> if a = CHR ''0'' \<and> (b = CHR ''x'' \<or> b = CHR ''X'') then cs else s | _ \<Rightarrow> s)"

text \<open>\<open>%x\<close> on at most \<open>w\<close> characters: the value stored, an \<open>unsigned int\<close> cut from an \<open>unsigned long\<close> of 64 bits, and
  the rest of the input; \<^const>\<open>None\<close> when no digit is found, and then nothing is stored.\<close>

definition scan_hex :: "nat \<Rightarrow> string \<Rightarrow> (u32 \<times> string) option" where
  "scan_hex w s =
     (let s = dropWhile isspace s; (neg, t) = split_sign (take w s); t = skip_prefix t;
          ds = takeWhile (\<lambda>c. digit_value c < 16) t; n = number 16 ds in
      if ds = [] then None
      else Some (if 2 ^ 64 \<le> n then -1 else if neg then - of_nat n else of_nat n,
        drop (length ds) t @ drop w s))"

text \<open>\<open>sscanf(data, "%x,%x", &a, &b)\<close> from the previous contents of \<open>a\<close> and \<open>b\<close>.\<close>

definition scan_pair :: "string \<Rightarrow> u32 \<Rightarrow> u32 \<Rightarrow> u32 \<times> u32" where
  "scan_pair s a b = (case scan_hex (length s) s of
      None \<Rightarrow> (a, b)
    | Some (a, rest) \<Rightarrow> (case rest of
        c # cs \<Rightarrow> if c = CHR '','' then (case scan_hex (length cs) cs of None \<Rightarrow> (a, b) | Some (b, _) \<Rightarrow> (a, b)) else (a, b)
      | [] \<Rightarrow> (a, b)))"

text \<open>The value of the decimal number.  C leaves the result open when it is not an \<open>int\<close>; here it is the number, which
  the callers cut to the width of their variable or compare.\<close>

definition atoi :: "string \<Rightarrow> int" where
  "atoi s = (let (neg, t) = split_sign (dropWhile isspace s); n = int (number 10 (takeWhile (\<lambda>c. digit_value c < 10) t)) in
     if neg then - n else n)"

text \<open>\<open>index(data, c) + 1\<close>: what follows the first \<open>c\<close> of the C string; a null pointer otherwise.\<close>

definition after_char :: "char \<Rightarrow> string \<Rightarrow> string option" where
  "after_char c d = do {
     s \<leftarrow> c_string d;
     (if c \<in> set s then Some (tl (dropWhile (\<lambda>x. x \<noteq> c) d)) else None)
   }"

subsection \<open>32-bit values\<close>

text \<open>The bytes of the union, in the order the host stores them, and the order in which the loops visit them:
  \<open>BIG_ENDIAN_SIMULATOR\<close> is defined, so upwards on a big-endian host and downwards on the others.\<close>

definition host_bytes :: "bool \<Rightarrow> u32 \<Rightarrow> u8 list" where
  "host_bytes be v = (let le = [ucast v, ucast (drop_bit 8 v), ucast (drop_bit 16 v), ucast (drop_bit 24 v)] in
     if be then rev le else le)"

definition host_word :: "bool \<Rightarrow> u8 list \<Rightarrow> u32" where
  "host_word be bs = (if be then le_word (bs ! 3) (bs ! 2) (bs ! 1) (bs ! 0) else le_word (bs ! 0) (bs ! 1) (bs ! 2) (bs ! 3))"

definition visit_order :: "bool \<Rightarrow> nat list" where
  "visit_order be = (if is_big_endian (host_bytes be) then [0, 1, 2, 3] else [3, 2, 1, 0])"

fun scan_bytes :: "nat list \<Rightarrow> u32 \<Rightarrow> u8 list \<Rightarrow> string \<Rightarrow> u8 list option" where
  "scan_bytes [] v bs d = Some bs"
| "scan_bytes (i # is) v bs d = do {
     s \<leftarrow> c_string d;
     let v = (case scan_hex 2 s of None \<Rightarrow> v | Some (x, _) \<Rightarrow> x);
     scan_bytes is v (bs[i := ucast v]) (drop 2 d)
   }"

definition read_uint32 :: "bool \<Rightarrow> u32 \<Rightarrow> string \<Rightarrow> u32 option" where
  "read_uint32 be uninit data = do {
     bs \<leftarrow> scan_bytes (visit_order be) uninit [0, 0, 0, 0] data;
     Some (host_word be bs)
   }"

definition write_uint32 :: "bool \<Rightarrow> u32 \<Rightarrow> string" where
  "write_uint32 be v = concat (map (\<lambda>i. fmt_02x (host_bytes be v ! i)) (visit_order be))"

subsection \<open>Hexadecimal digits\<close>

lemma digit_value_lower: "d < 16 \<Longrightarrow> digit_value (hex_digit_lower d) = d"
  by (simp add: digit_value_def hex_digit_lower_def of_char_of Let_def) 

lemma of_char_lower: "d < 16 \<Longrightarrow> (of_char (hex_digit_lower d) :: nat) = (if d < 10 then 48 + d else 87 + d)"
  by (simp add: hex_digit_lower_def)


lemma hex_digit_plain:
  assumes "digit_value c < 16"
  shows "\<not> isspace c" "c \<noteq> CHR ''-''" "c \<noteq> CHR ''+''" "c \<noteq> CHR ''x''" "c \<noteq> CHR ''X''" "c \<noteq> NUL" "c \<noteq> CHR '',''"
    "c \<noteq> CHR '':''" "c \<noteq> CHR ''=''" "c \<noteq> CHR ''#''" "c \<noteq> CHR ''$''"
  using assms by (auto simp: digit_value_def isspace_def Let_def split: if_splits)

lemma scan_hex_digits:
  assumes "ds \<noteq> []" "\<forall>c\<in>set ds. digit_value c < 16" "number 16 ds < 2 ^ 64" "length ds \<le> w"
    and "length ds = w \<or> rest = [] \<or> 16 \<le> digit_value (hd rest) \<and> hd rest \<noteq> CHR ''x'' \<and> hd rest \<noteq> CHR ''X''"
  shows "scan_hex w (ds @ rest) = Some (of_nat (number 16 ds), rest)"
proof -
  obtain d ds' where ds: "ds = d # ds'" using assms(1) by (cases ds) auto
  have d: "digit_value d < 16" using assms(2) ds by simp
  have sp: "dropWhile isspace (ds @ rest) = ds @ rest" using hex_digit_plain(1) [OF d] by (simp add: ds)
  have tk: "take w (ds @ rest) = ds @ take (w - length ds) rest" using assms(4) by simp
  have sg: "split_sign (ds @ t) = (False, ds @ t)" for t using hex_digit_plain(2,3) [OF d] by (simp add: split_sign_def ds)
  let ?t = "take (w - length ds) rest"
  have hd: "?t = [] \<or> 16 \<le> digit_value (hd ?t) \<and> hd ?t \<noteq> CHR ''x'' \<and> hd ?t \<noteq> CHR ''X''"
    using assms(5) by (cases rest; cases "w - length ds") auto
  have px: "skip_prefix (ds @ ?t) = ds @ ?t"
  proof (cases ds')
    case Nil
    then show ?thesis using hd by (cases ?t) (auto simp: skip_prefix_def ds)
  next
    case (Cons e es)
    then have "digit_value e < 16" using assms(2) ds by simp
    then show ?thesis using hex_digit_plain(4,5) [of e] by (simp add: skip_prefix_def ds Cons)
  qed
  have tw: "takeWhile (\<lambda>c. digit_value c < 16) (ds @ ?t) = ds"
    using assms(2) hd by (cases ?t) (auto simp: takeWhile_append)
  have "drop w (ds @ rest) = drop (w - length ds) rest" using assms(4) by simp
  then show ?thesis
    using assms(1,3) by (simp add: scan_hex_def sp tk sg px tw)
qed

lemma unat_byte: "unat (b :: u8) < 256"
proof -
  have "unat b < 2 ^ LENGTH(8)" by (rule unsigned_less)
  then show ?thesis by simp
qed

lemma nibbles:
  "unat (drop_bit 4 (b :: u8)) < 16" "unat (take_bit 4 b) < 16" "16 * unat (drop_bit 4 b) + unat (take_bit 4 b) = unat b"
proof -
  have "unat (drop_bit 4 b) = unat b div 16" "unat (take_bit 4 b) = unat b mod 16"
    by (simp_all add: drop_bit_eq_div take_bit_eq_mod unat_div unat_mod)
  with unat_byte [of b] show "unat (drop_bit 4 b) < 16" "unat (take_bit 4 b) < 16" "16 * unat (drop_bit 4 b) + unat (take_bit 4 b) = unat b"
    by (simp_all add: less_mult_imp_div_less)
qed

lemma length_fmt_02x [simp]: "length (fmt_02x b) = 2" "fmt_02x b \<noteq> []"
  by (simp_all add: fmt_02x_def)

lemma number_fmt_02x: "number 16 (fmt_02x b) = unat b"
  using nibbles [of b] by (simp add: number_def fmt_02x_def digit_value_lower)

lemma digit_value_fmt: "c \<in> set (fmt_02x b) \<Longrightarrow> digit_value c < 16"
  using nibbles [of b] by (auto simp: fmt_02x_def digit_value_lower)

lemma scan_hex_byte: "scan_hex 2 (fmt_02x b @ rest) = Some (ucast b, rest)"
proof -
  have "unat b < 2 ^ 64" using unat_byte [of b] by simp
  then have "scan_hex 2 (fmt_02x b @ rest) = Some (of_nat (unat b), rest)"
    using scan_hex_digits [of "fmt_02x b" 2 rest] digit_value_fmt [of _ b] by (simp add: number_fmt_02x)
  then show ?thesis by simp
qed


subsection \<open>Values round trip\<close>

lemma is_big_endian_host [simp]: "is_big_endian (host_bytes be) \<longleftrightarrow> be"
  by (simp add: is_big_endian_def host_bytes_def Let_def)

lemma visit_order_eq: "visit_order be = (if be then [0, 1, 2, 3] else [3, 2, 1, 0])"
  by (simp add: visit_order_def)

text \<open>The eight digits are those of the value, most significant first, on every host.\<close>

lemma write_uint32_eq:
  "write_uint32 be v = fmt_02x (ucast (drop_bit 24 v)) @ fmt_02x (ucast (drop_bit 16 v)) @
     fmt_02x (ucast (drop_bit 8 v)) @ fmt_02x (ucast v)"
  by (cases be) (simp_all add: write_uint32_def visit_order_eq host_bytes_def Let_def)

lemma length_write_uint32 [simp]: "length (write_uint32 be v) = 8"
  by (simp add: write_uint32_eq)

lemma digit_write_uint32: "c \<in> set (write_uint32 be v) \<Longrightarrow> digit_value c < 16"
  using digit_value_fmt by (auto simp: write_uint32_eq)

lemma c_string_fmt: "c_string rest = Some s \<Longrightarrow> c_string (fmt_02x b @ rest) = Some (fmt_02x b @ s)"
proof -
  have "c \<noteq> NUL" if "c \<in> set (fmt_02x b)" for c using hex_digit_plain(6) digit_value_fmt [OF that] by blast
  then show "c_string rest = Some s \<Longrightarrow> ?thesis"
    by (auto simp: c_string_def takeWhile_append split: if_splits)
qed

lemma scan_bytes_step:
  assumes "c_string rest = Some s"
  shows "scan_bytes (i # is) v bs (fmt_02x b @ rest) = scan_bytes is (ucast b) (bs[i := b]) rest"
proof -
  have "(ucast (ucast b :: u32) :: u8) = b" by (rule bit_word_eqI) (auto simp: bit_simps)
  then show ?thesis using c_string_fmt [OF assms, of b] by (simp add: scan_hex_byte Let_def)
qed

lemma read_write_uint32:
  assumes "c_string rest = Some s"
  shows "read_uint32 be x (write_uint32 be v @ rest) = Some v"
proof -
  have w: "le_word (ucast v) (ucast (drop_bit 8 v)) (ucast (drop_bit 16 v)) (ucast (drop_bit 24 v)) = v"
    by (rule le_word_split)
  show ?thesis
    unfolding read_uint32_def write_uint32_eq append_assoc
    by (cases be) (simp_all add: visit_order_eq scan_bytes_step [OF c_string_fmt [OF c_string_fmt [OF c_string_fmt [OF assms]]]]
      scan_bytes_step [OF c_string_fmt [OF c_string_fmt [OF assms]]] scan_bytes_step [OF c_string_fmt [OF assms]]
      scan_bytes_step [OF assms] host_word_def w del: scan_bytes.simps(2))
qed

end
