(* ===== verification/Gdb_Packet.thy ===== *)
theory Gdb_Packet
  imports Gdb_Format
begin

text \<open>
  The connection to gdb: the state of \<open>struct gdb_protocol_data\<close>, the buffer of 1024 characters in which a
  packet is built, and its transmission.  What \<open>Rio_writen\<close> sends is kept as the list of the texts written.
\<close>

subsection \<open>State\<close>

abbreviation (input) "MAX_PACKET_SIZE \<equiv> (1024 :: nat)"

text \<open>The processor and its memory are those of \<open>target\<close>; \<open>buffer\<close> points to the second character of \<open>packet\<close>.
  \<open>write_open\<close> is cleared by \<open>shutdown\<close>, and \<open>terminated\<close> is set where the process ends: a failed assertion or a
  write on a closed connection.\<close>

record gdb_protocol_data =
  target :: machine
  target_exception :: c_int
  packet :: "nat \<Rightarrow> char"
  packet_len :: nat
  sent :: "string list"
  write_open :: bool
  terminated :: bool

definition gdb_init_data :: "machine \<Rightarrow> (nat \<Rightarrow> char) \<Rightarrow> gdb_protocol_data" where
  "gdb_init_data s block = \<lparr>target = s, target_exception = 0, packet = block, packet_len = 0, sent = [],
     write_open = True, terminated = False\<rparr>"

subsection \<open>Transmission\<close>

definition rio_write :: "string \<Rightarrow> gdb_protocol_data \<Rightarrow> gdb_protocol_data" where
  "rio_write s g = (if s = [] then g else if write_open g then g\<lparr>sent := sent g @ [s]\<rparr> else g\<lparr>terminated := True\<rparr>)"

definition gdb_transmit_packet :: "gdb_protocol_data \<Rightarrow> gdb_protocol_data" where
  "gdb_transmit_packet g = rio_write (map (packet g) [0..<packet_len g]) g"

definition gdb_send_ack :: "gdb_protocol_data \<Rightarrow> gdb_protocol_data" where
  "gdb_send_ack g = rio_write ''+'' g"

definition gdb_require_retransmission :: "gdb_protocol_data \<Rightarrow> gdb_protocol_data" where
  "gdb_require_retransmission g = rio_write ''-'' g"

definition load_char :: "(nat \<Rightarrow> char) \<Rightarrow> nat \<Rightarrow> char option" where
  "load_char p i = (if i < MAX_PACKET_SIZE then Some (p i) else None)"

definition store_char :: "(nat \<Rightarrow> char) \<Rightarrow> nat \<Rightarrow> char \<Rightarrow> (nat \<Rightarrow> char) option" where
  "store_char p i c = (if i < MAX_PACKET_SIZE then Some (p(i := c)) else None)"

text \<open>\<open>strcpy\<close> or \<open>sprintf\<close> of a text at a position of the buffer, with its final null character.\<close>

definition put_string :: "(nat \<Rightarrow> char) \<Rightarrow> nat \<Rightarrow> string \<Rightarrow> (nat \<Rightarrow> char) option" where
  "put_string p i s = write_all store_char p (zip [i..<i + length s + 1] (s @ [NUL]))"

function checksum_loop :: "(nat \<Rightarrow> char) \<Rightarrow> nat \<Rightarrow> u8 \<Rightarrow> (nat \<times> u8) option" where
  "checksum_loop p i check =
     (if i < MAX_PACKET_SIZE then
        if p i \<noteq> NUL then checksum_loop p (i + 1) (check + of_char (p i)) else Some (i, check)
      else None)"
  by auto
termination by (relation "measure (\<lambda>(p, i, check). MAX_PACKET_SIZE - i)") auto

declare checksum_loop.simps [simp del]

definition gdb_send_buffer :: "gdb_protocol_data \<Rightarrow> gdb_protocol_data option" where
  "gdb_send_buffer g = do {
     p \<leftarrow> store_char (packet g) 0 (CHR ''$'');
     (i, check) \<leftarrow> checksum_loop p 1 0;
     p \<leftarrow> store_char p i (CHR ''#'');
     let i = i + 1;
     p \<leftarrow> put_string p i (fmt_02x check);
     let i = i + 2;
     p \<leftarrow> store_char p i NUL;
     Some (gdb_transmit_packet (g\<lparr>packet := p, packet_len := i\<rparr>))
   }"

definition gdb_send_data :: "string \<Rightarrow> gdb_protocol_data \<Rightarrow> gdb_protocol_data option" where
  "gdb_send_data data g = do {
     p \<leftarrow> put_string (packet g) 1 data;
     gdb_send_buffer (g\<lparr>packet := p\<rparr>)
   }"

subsection \<open>The buffer as a keyed store\<close>

interpretation packet_store: keyed_store load_char store_char "\<lambda>p i. i < MAX_PACKET_SIZE"
  by unfold_locales (auto simp: load_char_def store_char_def split: if_splits)

text \<open>The text at a position of the buffer.\<close>

definition holds :: "(nat \<Rightarrow> char) \<Rightarrow> nat \<Rightarrow> string \<Rightarrow> bool" where
  "holds p i s \<longleftrightarrow> i + length s < MAX_PACKET_SIZE \<and> (\<forall>j. j < length s \<longrightarrow> p (i + j) = s ! j) \<and> p (i + length s) = NUL"

lemma put_string_holds:
  assumes "i + length s < MAX_PACKET_SIZE"
  shows "\<exists>p'. put_string p i s = Some p' \<and> holds p' i s \<and>
    (\<forall>j. j < MAX_PACKET_SIZE \<and> (j < i \<or> i + length s < j) \<longrightarrow> p' j = p j)"
proof -
  let ?kvs = "zip [i..<i + length s + 1] (s @ [NUL])"
  have keys: "map fst ?kvs = [i..<i + length s + 1]" by simp
  then have fst: "fst ` set ?kvs = {i..<i + length s + 1}" by (metis list.set_map set_upt)
  have "list_all (\<lambda>(k, v). k < MAX_PACKET_SIZE) ?kvs"
    using assms by (auto simp: list_all_iff dest!: set_zip_leftD)
  then obtain p' where p': "put_string p i s = Some p'"
    unfolding put_string_def using packet_store.write_all_total by blast
  have at: "p' (i + j) = (s @ [NUL]) ! j" if "j \<le> length s" for j
  proof -
    have len: "j < length ?kvs" using that by simp
    have "?kvs ! j = (i + j, (s @ [NUL]) ! j)" using that by (simp del: upt_Suc)
    with nth_mem [OF len] have "(i + j, (s @ [NUL]) ! j) \<in> set ?kvs" by (simp del: upt_Suc)
    then have "load_char p' (i + j) = Some ((s @ [NUL]) ! j)"
      using packet_store.write_all_same [OF p' [unfolded put_string_def]] unfolding keys by simp
    then show ?thesis using that assms by (simp add: load_char_def)
  qed
  have "holds p' i s" unfolding holds_def
    using assms at at [of "length s"] by (auto simp: nth_append)
  moreover have "p' j = p j" if "j < MAX_PACKET_SIZE" "j < i \<or> i + length s < j" for j
  proof -
    have "j \<notin> fst ` set ?kvs" using that(2) unfolding fst by auto
    from packet_store.write_all_other [OF p' [unfolded put_string_def] this] that(1) show ?thesis
      by (simp add: load_char_def)
  qed
  ultimately show ?thesis using p' by blast
qed

lemma checksum_loop_eq:
  "holds p i s \<Longrightarrow> NUL \<notin> set s \<Longrightarrow> checksum_loop p i check = Some (i + length s, check + sum_list (map of_char s))"
proof (induction s arbitrary: i check)
  case Nil
  then show ?case by (subst checksum_loop.simps) (simp add: holds_def)
next
  case (Cons c s)
  then have c: "p i = c" "i < MAX_PACKET_SIZE" "c \<noteq> NUL" by (auto simp: holds_def dest: spec [of _ 0])
  have "holds p (i + 1) s" using Cons.prems(1) by (fastforce simp: holds_def)
  from Cons.IH [OF this] Cons.prems(2) c show ?case by (subst checksum_loop.simps) (simp add: add.assoc)
qed

subsection \<open>Packets\<close>

definition checksum :: "string \<Rightarrow> u8" where
  "checksum s = sum_list (map of_char s)"

definition frame :: "string \<Rightarrow> string" where
  "frame s = ''$'' @ s @ ''#'' @ fmt_02x (checksum s)"

text \<open>The answer \<open>s\<close> has been sent: one packet more, kept in the buffer for a retransmission.\<close>

definition answered :: "string \<Rightarrow> gdb_protocol_data \<Rightarrow> gdb_protocol_data \<Rightarrow> bool" where
  "answered s g g' \<longleftrightarrow> target g' = target g \<and> target_exception g' = target_exception g \<and>
     write_open g' \<and> terminated g' = terminated g \<and> sent g' = sent g @ [frame s] \<and>
     map (packet g') [0..<packet_len g'] = frame s"

lemma gdb_send_buffer_holds:
  assumes "holds (packet g) 1 s" "NUL \<notin> set s" "length s \<le> 1019" "write_open g"
  shows "\<exists>g'. gdb_send_buffer g = Some g' \<and> answered s g g'"
proof -
  let ?n = "length s"
  define p0 where "p0 = (packet g)(0 := CHR ''$'')"
  have h0: "holds p0 1 s" using assms(1) by (simp add: holds_def p0_def)
  define p1 where "p1 = p0(?n + 1 := CHR ''#'')"
  obtain p2 where p2: "put_string p1 (?n + 2) (fmt_02x (checksum s)) = Some p2" "holds p2 (?n + 2) (fmt_02x (checksum s))"
    "\<And>j. j < ?n + 2 \<Longrightarrow> p2 j = p1 j"
    using put_string_holds [of "?n + 2" "fmt_02x (checksum s)" p1] assms(3) by auto
  define p3 where "p3 = p2(?n + 4 := NUL)"
  have body: "map p3 [0..<?n + 4] = frame s"
  proof (rule nth_equalityI)
    fix j assume "j < length (map p3 [0..<?n + 4])"
    then have j: "j < ?n + 4" by simp
    then consider "j = 0" | "1 \<le> j" "j \<le> ?n" | "j = ?n + 1" | "j = ?n + 2" | "j = ?n + 3" by linarith
    then show "map p3 [0..<?n + 4] ! j = frame s ! j"
    proof cases
      case 2
      then have "p0 j = s ! (j - 1)" using h0 by (auto simp: holds_def dest!: spec [of _ "j - 1"])
      moreover have "j - Suc 0 < ?n" using 2 by linarith
      ultimately show ?thesis using 2 j by (simp add: p3_def p2(3) p1_def frame_def nth_append nth_Cons')
    next
      case 4
      then show ?thesis using p2(2) j by (auto simp: p3_def holds_def frame_def nth_append nth_Cons' dest!: spec [of _ 0])
    next
      case 5
      then show ?thesis using p2(2) j
        by (auto simp: p3_def holds_def frame_def nth_append nth_Cons' fmt_02x_def numeral_3_eq_3 dest!: spec [of _ 1])
    qed (simp_all add: p3_def p2(3) p1_def p0_def frame_def nth_append nth_Cons')
  qed (simp add: frame_def)
  have four: "?n + 4 = Suc (Suc (Suc (Suc ?n)))" by simp
  have "checksum_loop p0 1 0 = Some (?n + 1, checksum s)"
    using checksum_loop_eq [OF h0 assms(2)] by (simp add: checksum_def)
  then have "gdb_send_buffer g = Some (gdb_transmit_packet (g\<lparr>packet := p3, packet_len := ?n + 4\<rparr>))"
    using assms(3) p2(1) [unfolded p1_def, simplified]
    by (simp add: gdb_send_buffer_def store_char_def Let_def p0_def [symmetric] p3_def four)
  moreover have "frame s \<noteq> []" by (simp add: frame_def)
  ultimately show ?thesis using assms(4) body
    by (simp add: answered_def gdb_transmit_packet_def rio_write_def)
qed


lemma gdb_send_data_answers:
  assumes "NUL \<notin> set s" "length s \<le> 1019" "write_open g"
  shows "\<exists>g'. gdb_send_data s g = Some g' \<and> answered s g g'"
proof -
  obtain p where p: "put_string (packet g) 1 s = Some p" "holds p 1 s"
    using put_string_holds [of 1 s "packet g"] assms(2) by auto
  have "\<exists>g'. gdb_send_buffer (g\<lparr>packet := p\<rparr>) = Some g' \<and> answered s (g\<lparr>packet := p\<rparr>) g'"
    using gdb_send_buffer_holds [of "g\<lparr>packet := p\<rparr>" s] p(2) assms by simp
  then show ?thesis by (auto simp: gdb_send_data_def p(1) [unfolded One_nat_def] answered_def)
qed

text \<open>An answer of 1020 characters writes its final null character past the end of the buffer.\<close>

lemma gdb_send_buffer_overrun:
  assumes "holds (packet g) 1 s" "NUL \<notin> set s" "1020 \<le> length s"
  shows "gdb_send_buffer g = None"
proof -
  let ?n = "length s"
  define p0 where "p0 = (packet g)(0 := CHR ''$'')"
  have h0: "holds p0 1 s" using assms(1) by (simp add: holds_def p0_def)
  have loop: "checksum_loop p0 1 0 = Some (?n + 1, checksum s)"
    using checksum_loop_eq [OF h0 assms(2)] by (simp add: checksum_def)
  have "store_char p (Suc (?n + 1) + 2) c = None" for p c using assms(3) by (simp add: store_char_def)
  with loop show ?thesis
    by (auto simp: gdb_send_buffer_def store_char_def [of "packet g"] p0_def [symmetric] Let_def bind_eq_None_conv
        split: bind_splits)
qed

end
