(* ===== verification/Branch_Other.thy ===== *)
theory Branch_Other
  imports Core_Refinement
begin

text \<open>
  Branches and the other decoders of \<open>arm_branch_other.c\<close>, and the decoders of
  \<open>arm_data_processing.c\<close>, which only report an undefined instruction.
\<close>

subsection \<open>Operations\<close>

definition Extend_30 :: "indet \<Rightarrow> u32 \<Rightarrow> u32" where
  "Extend_30 k ins =
     (let x = get_bits k ins 23 0 in
      if get_bit k ins 23 = 0 then set_bits_macro k x 30 24 0 else set_bits_macro k x 30 24 0x3F)"

abbreviation (input) "BO n \<equiv> (''arm_branch_other.c'', n :: int)"

definition arm_branch :: "indet \<Rightarrow> u32 \<Rightarrow> c_int action" where
  "arm_branch k ins s =
     (if get_bit k ins 24 = 0 then do {
        let x = c_shl k (Extend_30 k ins) 2;
        (_, s) \<leftarrow> located (BO 47) (\<lambda>s. do {
          (pc, s) \<leftarrow> located (BO 47) (arm_read_register 15) s;
          arm_write_register 15 (pc + x) s }) s;
        Some (0, s)
      } else do {
        (adr, s) \<leftarrow> located (BO 52) (arm_read_register 15) s;
        (_, s) \<leftarrow> located (BO 53) (arm_write_register 14 adr) s;
        let x = c_shl k (Extend_30 k ins) 2;
        (_, s) \<leftarrow> located (BO 55) (\<lambda>s. do {
          (pc, s) \<leftarrow> located (BO 55) (arm_read_register 15) s;
          arm_write_register 15 (pc + x) s }) s;
        Some (0, s)
      })"

datatype outcome = Exited int | Returned c_int

definition arm_coprocessor_others_swi :: "indet \<Rightarrow> u32 \<Rightarrow> outcome" where
  "arm_coprocessor_others_swi k ins =
     (if get_bit k ins 24 \<noteq> 0 then
        if ins AND 0xFFFFFF = 0x123456 then Exited 0 else Returned SOFTWARE_INTERRUPT
      else Returned UNDEFINED_INSTRUCTION)"

definition arm_miscellaneous :: "u32 \<Rightarrow> c_int" where
  "arm_miscellaneous ins = UNDEFINED_INSTRUCTION"

definition arm_data_processing_shift :: "u32 \<Rightarrow> c_int" where
  "arm_data_processing_shift ins = UNDEFINED_INSTRUCTION"

definition arm_data_processing_immediate_msr :: "u32 \<Rightarrow> c_int" where
  "arm_data_processing_immediate_msr ins = UNDEFINED_INSTRUCTION"

subsection \<open>The branch on the processor alone\<close>

text \<open>The branch offset of the architecture: the signed 24-bit field, in words.\<close>

definition branch_offset :: "u32 \<Rightarrow> u32" where
  "branch_offset ins = push_bit 2 (signed_take_bit 23 ins)"

lemma Extend_30_bit:
  assumes "i < 30"
  shows "bit (Extend_30 k ins) i = bit ins (min 23 i)"
proof -
  have m: "(0x3F :: u32) = mask 6" by (simp add: mask_eq_exp_minus_1)
  have x: "get_bits k ins 23 0 = take_bit 24 ins" by simp
  show ?thesis
  proof (cases "i < 24")
    case True
    then have "min 23 i = i" by simp
    then show ?thesis using True assms
      by (simp add: Extend_30_def Let_def x set_bits_macro_eq m bit_simps)
  next
    case False
    then have "i - 24 < 6" "min 23 i = 23" using assms by auto
    then show ?thesis using False assms
      by (simp add: Extend_30_def Let_def x set_bits_macro_eq m bit_simps)
  qed
qed

lemma Extend_30_offset: "c_shl k (Extend_30 k ins) 2 = branch_offset ins"
  by (rule bit_word_eqI) (auto simp: branch_offset_def bit_simps Extend_30_bit)

end
