(* ===== verification/Load_Store.thy ===== *)
theory Load_Store
  imports Core_Refinement
begin

text \<open>
  The address decoder of \<open>arm_load_store.c\<close>.  \<open>getValueFromIns\<close> returns a field of the instruction; the
  register read it was written for is commented out, so the whole decoder is a function of the
  instruction word.
\<close>

subsection \<open>Operations\<close>

definition getValueFromIns :: "indet \<Rightarrow> u32 \<Rightarrow> int \<Rightarrow> int \<Rightarrow> u32" where
  "getValueFromIns k ins h l = get_bits k ins h l"

definition load_store_shifts_rotate :: "indet \<Rightarrow> u32 \<Rightarrow> u32 \<Rightarrow> u32 \<Rightarrow> u32 \<Rightarrow> u32 \<Rightarrow> u32" where
  "load_store_shifts_rotate k shift shift_imm index rm ins =
     (if shift = 0 then c_shl k rm (uint shift_imm)
      else if shift = 1 then
        if shift_imm = 0 then 0 else c_shr k rm (uint shift_imm)
      else if shift = 2 then
        if shift_imm = 0 then
          if get_bit k rm 31 \<noteq> 0 then 0xFFFFFFFF else 0
        else asr k rm (ucast shift_imm)
      else if shift = 3 then
        if shift_imm = 0 then
          if c_shl k (get_bit k ins C_bit) 31 \<noteq> 0 \<or> c_shr k rm 1 \<noteq> 0 then 1 else 0
        else ror k rm (ucast shift_imm)
      else index)"

text \<open>The locals \<open>rn\<close> and \<open>address\<close> after the addressing mode; \<open>arm_load_store\<close> returns \<open>rn\<close>.\<close>

definition arm_load_store :: "indet \<Rightarrow> u32 \<Rightarrow> c_int" where
  "arm_load_store k ins =
     (let rn = getValueFromIns k ins 19 16;
          rm = getValueFromIns k ins 3 0;
          bit25 = get_bit k ins 25;
          bit21 = get_bit k ins 21;
          bit23 = get_bit k ins 23;
          bit24 = get_bit k ins 24;
          shift_imm = get_bits k ins 11 7;
          shift = get_bits k ins 6 5 in
      if bit25 \<noteq> 0 then
        let bits4_11 = get_bits k ins 11 4 in
        if bits4_11 \<noteq> 0 then
          if bit24 \<noteq> 0 then
            let index = load_store_shifts_rotate k shift shift_imm (uninit_word k) rm ins;
                rn = (if bit23 \<noteq> 0 then rn + index else rn - index) in
            rn
          else
            let index = load_store_shifts_rotate k shift shift_imm (uninit_word k) rm ins;
                rn = (if bit23 \<noteq> 0 then rn + index else rn - index) in
            rn
        else
          if bit24 \<noteq> 0 then
            let address = (if bit23 \<noteq> 0 then rn + rm else rn - rm); rn = address in rn
          else
            let rn = (if bit23 \<noteq> 0 then rn + rm else rn - rm) in rn
      else
        let offset12 = get_bits k ins 11 0 in
        if bit21 \<noteq> 0 then
          let address = (if bit23 \<noteq> 0 then rn + offset12 else rn - offset12); rn = address in rn
        else
          let rn = (if bit23 \<noteq> 0 then rn + offset12 else rn - offset12) in rn)"

definition arm_load_store_multiple :: "u32 \<Rightarrow> c_int" where
  "arm_load_store_multiple ins = UNDEFINED_INSTRUCTION"

definition arm_coprocessor_load_store :: "u32 \<Rightarrow> c_int" where
  "arm_coprocessor_load_store ins = UNDEFINED_INSTRUCTION"

end
