(* ===== verification/Instruction.thy ===== *)
theory Instruction
  imports Branch_Other Load_Store
begin

text \<open>
  Instruction execution, \<open>arm_instruction.c\<close>: the condition field, the flag updates, the shifter
  operand, the data-processing instructions, the word and byte transfers, and the dispatch of
  \<open>arm_execute_instruction\<close>.  The line number of every call of a processor access is kept, as the
  located calls record it.
\<close>

abbreviation (input) "AI n \<equiv> (''arm_instruction.c'', n :: int)"

subsection \<open>Conditions\<close>

text \<open>\<open>return 1\<close> when the test holds; otherwise control leaves the switch and reaches the end of the
  function, whose \<open>return 0\<close> stands inside the switch after a \<open>break\<close> and is never reached.\<close>

definition return_1_if :: "indet \<Rightarrow> bool \<Rightarrow> c_int" where
  "return_1_if k b = (if b then 1 else missing_return k)"

definition condition_switch :: "indet \<Rightarrow> u32 \<Rightarrow> u8 \<Rightarrow> c_int" where
  "condition_switch k flag cond =
     (if cond = 0b0000 then return_1_if k (get_bit k flag 30 = 1)
      else if cond = 0b0001 then return_1_if k (get_bit k flag 30 = 0)
      else if cond = 0b0010 then return_1_if k (get_bit k flag 29 = 1)
      else if cond = 0b0011 then return_1_if k (get_bit k flag 29 = 0)
      else if cond = 0b0100 then return_1_if k (get_bit k flag 31 = 1)
      else if cond = 0b0101 then return_1_if k (get_bit k flag 31 = 0)
      else if cond = 0b0110 then return_1_if k (get_bit k flag 28 = 1)
      else if cond = 0b0111 then return_1_if k (get_bit k flag 28 = 0)
      else if cond = 0b1000 then return_1_if k (get_bit k flag 29 = 1 \<and> get_bit k flag 30 = 0)
      else if cond = 0b1001 then return_1_if k (get_bit k flag 29 = 0 \<and> get_bit k flag 30 = 1)
      else if cond = 0b1010 then return_1_if k (get_bit k flag 31 = get_bit k flag 28)
      else if cond = 0b1011 then return_1_if k (get_bit k flag 31 \<noteq> get_bit k flag 28)
      else if cond = 0b1100 then return_1_if k (get_bit k flag 30 = 0 \<and> get_bit k flag 31 = get_bit k flag 28)
      else if cond = 0b1101 then return_1_if k (get_bit k flag 30 = 1 \<or> get_bit k flag 31 \<noteq> get_bit k flag 28)
      else -1)"

definition ConditionPassed :: "indet \<Rightarrow> u8 \<Rightarrow> c_int action" where
  "ConditionPassed k cond s = do {
     (flag, s) \<leftarrow> located (AI 515) arm_read_cpsr s;
     Some (condition_switch k flag cond, s)
   }"

subsection \<open>Flags\<close>

text \<open>\<open>set_bit\<close> and \<open>clr_bit\<close> are expressions; the functions compute them and drop the result.\<close>

definition update_Flag :: "indet \<Rightarrow> int \<Rightarrow> int \<Rightarrow> c_int \<Rightarrow> unit action" where
  "update_Flag k line position indice s = do {
     (flag, s) \<leftarrow> located (AI line) arm_read_cpsr s;
     let dropped = (if indice = 1 then set_bit_macro k flag position else clr_bit_macro k flag position);
     Some ((), s)
   }"

definition update_Flag_Z :: "indet \<Rightarrow> c_int \<Rightarrow> unit action" where
  "update_Flag_Z k indice = update_Flag k 304 Z_bit indice"

definition update_Flag_N :: "indet \<Rightarrow> c_int \<Rightarrow> unit action" where
  "update_Flag_N k indice = update_Flag k 312 N_bit indice"

definition update_Flag_C :: "indet \<Rightarrow> c_int \<Rightarrow> unit action" where
  "update_Flag_C k indice = update_Flag k 320 C_bit indice"

definition update_Flag_V :: "indet \<Rightarrow> c_int \<Rightarrow> unit action" where
  "update_Flag_V k indice = update_Flag k 328 V_bit indice"

text \<open>The pair of updates under the test of the upper half of a 64-bit result.\<close>

definition update_Flags_VC :: "indet \<Rightarrow> u64 \<Rightarrow> unit action" where
  "update_Flags_VC k result s =
     (if get_bits64 k result 63 32 \<noteq> 0 then do {
        (_, s) \<leftarrow> update_Flag_V k 1 s;
        update_Flag_C k 1 s
      } else Some ((), s))"

definition update_flag :: "indet \<Rightarrow> u64 \<Rightarrow> unit action" where
  "update_flag k result s = do {
     (flag, s) \<leftarrow> located (AI 335) arm_read_cpsr s;
     (if get_bit k flag 20 = 1 then do {
        (_, s) \<leftarrow> (if result = 0 then update_Flag_Z k 1 s else Some ((), s));
        (_, s) \<leftarrow> (if get_bit64 result 31 = 1 then update_Flag_N k 1 s else Some ((), s));
        update_Flags_VC k result s
      } else Some ((), s))
   }"

subsection \<open>Shifter operand\<close>

definition logicalShift :: "indet \<Rightarrow> u32 \<Rightarrow> u32 \<Rightarrow> char \<Rightarrow> machine \<Rightarrow> u32 \<times> machine" where
  "logicalShift k value shift direction s =
     (if direction = CHR ''r'' then (c_shr k value (uint shift), s)
      else if direction = CHR ''l'' then (c_shl k value (uint shift), s)
      else (0, printf (''Invalid shift direction argument! Possible unreliable result!'' @ [CHR 0x0A]) s))"

text \<open>The carry flag, read where the operand is not shifted.\<close>

definition operand_and_carry_flag :: "indet \<Rightarrow> int \<Rightarrow> u32 \<Rightarrow> (u32 \<times> u32) action" where
  "operand_and_carry_flag k line operand s = do {
     (cpsr, s) \<leftarrow> located (AI line) arm_read_cpsr s;
     Some ((operand, get_bit k cpsr C_bit), s)
   }"

text \<open>
  The operand and \<open>*shifter_carry_out\<close>.  \<open>shift_imm\<close> is assigned in the first case only; the other
  cases read it uninitialised.  The amounts of the register shifts are taken from the register number
  \<open>rs\<close>.
\<close>

definition shiftedRegisterOperand :: "indet \<Rightarrow> u32 \<Rightarrow> (u32 \<times> u32) action" where
  "shiftedRegisterOperand k ins s = do {
     let bits4_6 = get_bits k ins 6 4;
     (rm, s) \<leftarrow> located (AI 352) (arm_read_register (ucast (get_bits k ins 3 0))) s;
     let rs = get_bits k ins 11 8;
     let bits7_11 = get_bits k ins 11 7;
     let rs_bits_0_7 = get_bits k rs 7 0;
     let rs_bits_0_4 = get_bits k rs 4 0;
     let shift_imm = uninit_shift_imm k;
     (if bits4_6 = 0b000 then
        let shift_imm = get_bits k ins 11 7 in
        if shift_imm = 0 then operand_and_carry_flag k 362 rm s
        else let (v, s) = logicalShift k rm shift_imm (CHR ''l'') s in
          Some ((v, get_bit k rm (uint (32 - shift_imm))), s)
      else if bits4_6 = 0b001 then
        if rs_bits_0_7 = 0 then operand_and_carry_flag k 374 rm s
        else if rs_bits_0_7 < 32 then
          let (v, s) = logicalShift k rm rs_bits_0_7 (CHR ''l'') s in
          Some ((v, get_bit k rm (uint (32 - rs_bits_0_7))), s)
        else if rs_bits_0_7 = 32 then Some ((0, get_bit k rm 0), s)
        else Some ((0, 0), s)
      else if bits4_6 = 0b010 then
        if shift_imm = 0 then Some ((0, get_bit k rm 31), s)
        else let (v, s) = logicalShift k rm shift_imm (CHR ''r'') s in
          Some ((v, get_bit k rm (uint (shift_imm - 1))), s)
      else if bits4_6 = 0b011 then
        if rs_bits_0_7 = 0 then operand_and_carry_flag k 405 rm s
        else if rs_bits_0_7 < 32 then
          let (v, s) = logicalShift k rm rs_bits_0_7 (CHR ''r'') s in
          Some ((v, get_bit k rm (uint (rs_bits_0_7 - 1))), s)
        else if rs_bits_0_7 = 32 then Some ((0, get_bit k rm 31), s)
        else Some ((0, 0), s)
      else if bits4_6 = 0b100 then
        if shift_imm = 0 then
          Some ((if get_bit k rm 31 = 0 then 0 else 0xFFFFFFFF, get_bit k rm 31), s)
        else Some ((asr k rm (ucast shift_imm), get_bit k rm (uint (shift_imm - 1))), s)
      else if bits4_6 = 0b101 then
        if rs_bits_0_7 = 0 then operand_and_carry_flag k 441 rm s
        else if rs_bits_0_7 < 32 then
          Some ((asr k rm (ucast rs_bits_0_7), get_bit k rm (uint (rs_bits_0_7 - 1))), s)
        else Some ((if get_bit k rm 31 = 0 then 0 else 0xFFFFFFFF, get_bit k rm 31), s)
      else if bits4_6 = 0b110 then
        let cFlag = get_bit k (get_bit k ins 16) C_bit;
            (val1, s) = logicalShift k cFlag 31 (CHR ''l'') s;
            (val2, s) = logicalShift k rm 1 (CHR ''r'') s in
        if bits7_11 = 0 then Some ((val1 OR val2, get_bit k rm 0), s)
        else if shift_imm = 0 then Some ((val1 OR val2, get_bit k rm 0), s)
        else Some ((ror k rm (ucast shift_imm), get_bit k rm (uint (shift_imm - 1))), s)
      else if bits4_6 = 0b111 then
        if rs_bits_0_7 = 0 then operand_and_carry_flag k 484 rm s
        else if rs_bits_0_4 = 0 then Some ((rm, get_bit k rm 31), s)
        else Some ((ror k rm (ucast rs_bits_0_4), get_bit k rm (uint (rs_bits_0_4 - 1))), s)
      else Some ((uninit_word k, uninit_word k),
        printf (''Invalid data processing shift operation is being executed.!'' @ [CHR 0x0A]) s))
   }"

subsection \<open>Data processing\<close>

text \<open>The second operand and \<open>shifter_carry_out\<close>; \<open>bits4_11\<close> is never assigned.\<close>

definition data_processing_operand2 :: "indet \<Rightarrow> u32 \<Rightarrow> (u32 \<times> u32) action" where
  "data_processing_operand2 k res s =
     (if get_bit k res 25 = 0 then
        if uninit_bits4_11 k = 0 then do {
          (operand2, s) \<leftarrow> located (AI 67) (arm_read_register (ucast (get_bits k res 3 0))) s;
          operand_and_carry_flag k 68 operand2 s
        } else shiftedRegisterOperand k res s
      else
        let bit8_11 = get_bits k res 11 8; bit0_7 = get_bits k res 7 0;
            operand2 = ror k bit0_7 (ucast (bit8_11 * 2)) in
        if bit8_11 = 0 then operand_and_carry_flag k 81 operand2 s
        else Some ((operand2, get_bit k operand2 31), s))"

text \<open>\<open>arm_write_register(p, rd, result); update_flag(p, result)\<close>.\<close>

definition write_result :: "indet \<Rightarrow> int \<Rightarrow> u32 \<Rightarrow> u32 \<Rightarrow> unit action" where
  "write_result k line rd result s = do {
     (_, s) \<leftarrow> located (AI line) (arm_write_register (ucast rd) result) s;
     update_flag k (ucast result) s
   }"

text \<open>The updates of the comparisons: Z and N, then C from the shifter or V and C from the upper half.\<close>

definition test_flags :: "indet \<Rightarrow> u32 \<Rightarrow> u32 \<Rightarrow> unit action" where
  "test_flags k alu_out carry s = do {
     (_, s) \<leftarrow> update_Flag_Z k (if alu_out = 0 then 1 else 0) s;
     (_, s) \<leftarrow> update_Flag_N k (ucast (get_bit64 (ucast alu_out) 31)) s;
     update_Flag_C k carry s
   }"

definition compare_flags :: "indet \<Rightarrow> u32 \<Rightarrow> unit action" where
  "compare_flags k alu_out s = do {
     (_, s) \<leftarrow> update_Flag_Z k (if alu_out = 0 then 1 else 0) s;
     (_, s) \<leftarrow> update_Flag_N k (ucast (get_bit64 (ucast alu_out) 31)) s;
     update_Flags_VC k (ucast alu_out) s
   }"

definition c_not :: "u32 \<Rightarrow> u32" where
  "c_not x = (if x = 0 then 1 else 0)"

definition data_processing_opcode :: "indet \<Rightarrow> u32 \<Rightarrow> u32 \<Rightarrow> u32 \<Rightarrow> u32 \<Rightarrow> u32 \<Rightarrow> unit action" where
  "data_processing_opcode k opcode operand1 operand2 shifter_carry_out rd s =
     (if opcode = 0b0000 then write_result k 89 rd (operand1 AND operand2) s
      else if opcode = 0b0001 then write_result k 95 rd (operand1 XOR operand2) s
      else if opcode = 0b0010 then write_result k 101 rd (operand1 - operand2) s
      else if opcode = 0b0011 then write_result k 107 rd (operand2 - operand1) s
      else if opcode = 0b0100 then write_result k 113 rd (operand1 + operand2) s
      else if opcode = 0b0101 then do {
        (cpsr, s) \<leftarrow> located (AI 118) arm_read_cpsr s;
        let operand3 = get_bit k cpsr C_bit;
        write_result k 120 rd (operand1 + operand2 + operand3) s
      }
      else if opcode = 0b0110 then do {
        (cpsr, s) \<leftarrow> located (AI 125) arm_read_cpsr s;
        let operand3 = (if get_bit k cpsr C_bit = 0 then 1 else 0);
        write_result k 129 rd (operand1 - operand2 - operand3) s
      }
      else if opcode = 0b0111 then do {
        (cpsr, s) \<leftarrow> located (AI 134) arm_read_cpsr s;
        let operand3 = (if get_bit k cpsr C_bit = 0 then 1 else 0);
        write_result k 138 rd (operand2 - operand1 - operand3) s
      }
      else if opcode = 0b1000 then test_flags k (operand1 AND operand2) shifter_carry_out s
      else if opcode = 0b1001 then test_flags k (operand1 OR operand2) shifter_carry_out s
      else if opcode = 0b1010 then compare_flags k (operand1 - operand2) s
      else if opcode = 0b1011 then compare_flags k (operand1 + operand2) s
      else if opcode = 0b1100 then do {
        let result = operand1 OR operand2;
        (_, s) \<leftarrow> update_flag k (ucast result) s;
        located (AI 205) (arm_write_register (ucast rd) result) s
      }
      else if opcode = 0b1101 then located (AI 209) (arm_write_register (ucast rd) operand2) s
      else if opcode = 0b1110 then write_result k 214 rd (operand1 AND c_not operand2) s
      else if opcode = 0b1111 then located (AI 219) (arm_write_register (ucast rd) (c_not operand2)) s
      else Some ((), s))"

definition data_processing :: "indet \<Rightarrow> u32 \<Rightarrow> u32 \<Rightarrow> unit action" where
  "data_processing k res operand1 s = do {
     (passed, s) \<leftarrow> ConditionPassed k (ucast (get_bits k res 31 28)) s;
     (if passed \<noteq> 0 then do {
        ((operand2, shifter_carry_out), s) \<leftarrow> data_processing_operand2 k res s;
        data_processing_opcode k (get_bits k res 24 21) operand1 operand2 shifter_carry_out
          (get_bits k res 15 12) s
      } else Some ((), printf (''Condition not passed (bits 28 - 31)'' @ [CHR 0x0A]) s))
   }"

subsection \<open>Word and byte transfers\<close>

definition loadStoreByteOrWord :: "indet \<Rightarrow> u32 \<Rightarrow> u32 \<Rightarrow> u32 \<Rightarrow> u32 \<Rightarrow> u32 \<Rightarrow> unit action" where
  "loadStoreByteOrWord k addr rd_value bit20 bit22 rd s =
     (if bit20 = 0 \<and> bit22 = 0 then do {
        (_, s) \<leftarrow> located (AI 275) (arm_write_word addr rd_value) s;
        ((r, _), s) \<leftarrow> located (AI 276) (arm_read_word addr (uninit_word k)) s;
        Some ((), printf (''Just wrote word : '' @ fmt_d (sint r) @ [CHR 0x0A]) s)
      }
      else if bit20 = 0 \<and> bit22 \<noteq> 0 then do {
        (_, s) \<leftarrow> located (AI 279) (arm_write_byte addr (ucast (get_bits k rd_value 7 0))) s;
        ((r, _), s) \<leftarrow> located (AI 280) (arm_read_byte addr (uninit_byte k)) s;
        Some ((), printf (''Just wrote byte : '' @ fmt_d (sint r) @ [CHR 0x0A]) s)
      }
      else if bit20 \<noteq> 0 \<and> bit22 = 0 then do {
        ((val1, _), s) \<leftarrow> located (AI 284) (arm_read_word addr (uninit_word k)) s;
        let val2 = get_bits k addr 1 0;
        let data = ror k val1 (ucast (8 * val2));
        (if rd = 15 then located (AI 288) (arm_write_register (ucast rd) (data AND 0xFFFFFFFE)) s
         else located (AI 290) (arm_write_register (ucast rd) data) s)
      }
      else if bit20 \<noteq> 0 \<and> bit22 \<noteq> 0 then do {
        let s = printf (''Executing LDRB'' @ [CHR 0x0A]) s;
        ((r, _), s) \<leftarrow> located (AI 294) (arm_read_byte addr (uninit_byte k)) s;
        let y = (ucast r :: u8);
        let s = printf (''register number (r) = '' @ fmt_d (sint rd) @ '', value to load to r = '' @
          fmt_d (uint y) @ [CHR 0x0A]) s;
        located (AI 296) (arm_write_register (ucast rd) (ucast y)) s
      }
      else Some ((), printf (''Error during loading or storing a byte or a word to memory'' @ [CHR 0x0A]) s))"

subsection \<open>One instruction\<close>

text \<open>The \<open>switch\<close> on bits 26 and 27; \<open>operand1\<close> is the content of \<open>Rn\<close>.\<close>

definition execute_switch :: "indet \<Rightarrow> u32 \<Rightarrow> u32 \<Rightarrow> u32 \<Rightarrow> unit action" where
  "execute_switch k res instr operand1 s =
     (let bits26_27 = get_bits k res 27 26;
          bit25 = get_bit k res 25;
          rd = get_bits k res 15 12;
          cond_bits = (ucast (get_bits k res 31 28) :: u8) in
      if bits26_27 = 0b00 then
        let bit23_24 = get_bits k res 24 23; bit20 = get_bit k res 20 in
        if bit23_24 = 0b10 \<and> bit20 = 0 then
          let arm_decode = arm_miscellaneous instr in Some ((), s)
        else data_processing k res operand1 s
      else if bits26_27 = 0b01 then do {
        (passed, s) \<leftarrow> ConditionPassed k cond_bits s;
        (if passed \<noteq> 0 then do {
           let load_store_address = arm_load_store k instr;
           let bit20 = get_bit k res 20;
           let bit22 = get_bit k res 22;
           (rd_value, s) \<leftarrow> located (AI 236) (arm_read_register (ucast rd)) s;
           loadStoreByteOrWord k load_store_address rd_value bit20 bit22 rd s
         } else Some ((), s))
      }
      else if bits26_27 = 0b10 then
        if bit25 = 0 then
          let arm_decode = arm_load_store_multiple instr in Some ((), s)
        else do {
          (passed, s) \<leftarrow> ConditionPassed k cond_bits s;
          (if passed \<noteq> 0 then do {
             (arm_decode, s) \<leftarrow> arm_branch k instr s;
             Some ((), s)
           } else Some ((), s))
        }
      else
        if bit25 = 0 then
          let arm_decode = arm_coprocessor_load_store instr in Some ((), s)
        else Some ((), s))"

definition arm_execute_instruction :: "indet \<Rightarrow> c_int action" where
  "arm_execute_instruction k s = do {
     ((res, instr), s) \<leftarrow> located (AI 45) (arm_fetch (uninit_word k)) s;
     (operand1, s) \<leftarrow> located (AI 50) (arm_read_register (ucast (get_bits k res 19 16))) s;
     (_, s) \<leftarrow> execute_switch k res instr operand1 s;
     Some (0, s)
   }"

definition arm_step :: "indet \<Rightarrow> c_int action" where
  "arm_step k s = do {
     (result, s) \<leftarrow> arm_execute_instruction k s;
     (_, s) \<leftarrow> (if result \<noteq> 0 then arm_exception (ucast result) s else Some ((), s));
     Some (result, s)
   }"

end
