(* ===== verification/Instruction_Refinement.thy ===== *)
theory Instruction_Refinement
  imports Instruction
begin

text \<open>
  One instruction on the processor alone, without the trace and the printed messages, and the proof
  that \<open>arm_step\<close> does exactly that.
\<close>

subsection \<open>Reading and writing a register of the processor\<close>

definition rval :: "arm_core_data \<Rightarrow> u8 \<Rightarrow> u32" where
  "rval c r = (if r = 15 then (r_data (reg c) 15 + 4) AND 0xFFFFFFFD else r_data (reg c) (unat r))"

definition put_reg :: "u8 \<Rightarrow> u32 \<Rightarrow> arm_core_data \<Rightarrow> arm_core_data" where
  "put_reg r v c = c\<lparr>reg := (reg c)\<lparr>r_data := (r_data (reg c))(unat r := v)\<rparr>\<rparr>"

lemma core_read_register_eq: "r < 16 \<Longrightarrow> core_read_register r c = Some (rval c r, c)"
  by (auto simp: core_read_register_def read_register_def rval_def word_less_nat_alt)

lemma core_write_register_eq: "r < 16 \<Longrightarrow> core_write_register r v c = Some ((), put_reg r v c)"
  by (auto simp: core_write_register_def write_register_def put_reg_def word_less_nat_alt)

lemma nibble_less [simp]: "(ucast (take_bit 4 (w :: u32)) :: u8) < 16"
proof -
  have "unat (ucast (take_bit 4 w) :: u8) \<le> unat (take_bit 4 w)"
    by (simp add: unsigned_ucast_eq take_bit_nat_less_eq_self)
  also have "\<dots> < 16" unfolding unsigned_take_bit_eq using take_bit_nat_less_exp [of 4 "unat w"] by simp
  finally show ?thesis by (simp add: word_less_nat_alt)
qed

lemma refines_read_at:
  assumes "same_settings t (trace s)" "room n t" "1 \<le> n" "r < 16" "arm s = c"
  shows "refines t (located loc (arm_read_register r) s) (Some (rval c r, c))"
proof -
  have "refines t (located loc (arm_read_register r) s) (core_read_register r c)"
    by (rule traced_action.agrees_from [OF read_reg.located_agrees assms(1,2) _ assms(5)]) (use assms(3) in simp)
  then show ?thesis by (simp add: core_read_register_eq assms(4))
qed

lemma refines_cpsr_at:
  assumes "same_settings t (trace s)" "room n t" "1 \<le> n" "arm s = c"
  shows "refines t (located loc arm_read_cpsr s) (Some (read_cpsr (reg c), c))"
  using traced_action.agrees_from [OF cpsr_read.located_agrees assms(1,2) _ assms(4)] assms(3) by simp

lemma refines_write_at:
  assumes "same_settings t (trace s)" "room n t" "1 \<le> n" "r < 16" "arm s = c"
  shows "refines t (located loc (arm_write_register r v) s) (Some ((), put_reg r v c))"
proof -
  have "refines t (located loc (arm_write_register r v) s) (core_write_register r v c)"
    by (rule traced_action.agrees_from [OF write_reg.located_agrees assms(1,2) _ assms(5)]) (use assms(3) in simp)
  then show ?thesis by (simp add: core_write_register_eq assms(4))
qed

lemma refines_printf: "refines t (Some (x, s)) r \<Longrightarrow> refines t (Some (x, printf text s)) r"
  by (simp add: refines_def printf_def)

lemma printf_simps [simp]: "arm (printf text s) = arm s" "trace (printf text s) = trace s"
  by (simp_all add: printf_def)

subsection \<open>Conditions and flags\<close>

lemma refines_ConditionPassed:
  assumes "same_settings t (trace s)" "room n t" "1 \<le> n" "arm s = c"
  shows "refines t (ConditionPassed k cond s) (Some (condition_switch k (read_cpsr (reg c)) cond, c))"
  unfolding ConditionPassed_def
  by (rule refines_bind_Some, rule refines_cpsr_at [OF assms]) (auto intro: refines_return)

text \<open>No flag update changes the processor.\<close>

lemma refines_update_Flag:
  assumes "same_settings t (trace s)" "room n t" "1 \<le> n" "arm s = c"
  shows "refines t (update_Flag k line pos i s) (Some ((), c))"
  unfolding update_Flag_def Let_def
  by (rule refines_bind_Some, rule refines_cpsr_at [OF assms]) (auto intro: refines_return)

lemmas update_Flag_defs = update_Flag_Z_def update_Flag_N_def update_Flag_C_def update_Flag_V_def

lemma refines_update_Flags_VC:
  assumes "same_settings t (trace s)" "room n t" "1 \<le> n" "arm s = c"
  shows "refines t (update_Flags_VC k r s) (Some ((), c))"
  unfolding update_Flags_VC_def update_Flag_defs
  using assms by (auto intro!: refines_bind_Some refines_update_Flag refines_return)

lemma refines_update_flag:
  assumes "same_settings t (trace s)" "room n t" "1 \<le> n" "arm s = c"
  shows "refines t (update_flag k r s) (Some ((), c))"
  unfolding update_flag_def
proof (rule refines_bind_Some, rule refines_cpsr_at [OF assms])
  fix u :: machine
  assume u: "arm u = c" "same_settings t (trace u)"
  show "refines t (if get_bit k (read_cpsr (reg c)) 20 = 1 then do {
        (_, s) \<leftarrow> (if r = 0 then update_Flag_Z k 1 u else Some ((), u));
        (_, s) \<leftarrow> (if get_bit64 r 31 = 1 then update_Flag_N k 1 s else Some ((), s));
        update_Flags_VC k r s
      } else Some ((), u)) (Some ((), c))"
    using u assms(2,3) unfolding update_Flag_defs
    by (auto intro!: refines_bind_Some [where c = c] refines_update_Flag refines_update_Flags_VC refines_return)
qed

subsection \<open>Shifter operand\<close>

text \<open>The value of the shifter operand \<open>shiftedRegisterOperand\<close> computes from the content of \<open>Rm\<close>.\<close>

definition shifter_value :: "indet \<Rightarrow> u32 \<Rightarrow> u32 \<Rightarrow> u32" where
  "shifter_value k ins rm =
     (let kind = take_bit 3 (drop_bit 4 ins); imm = take_bit 5 (drop_bit 7 ins);
          rs = unat (take_bit 4 (drop_bit 8 ins)); n = uninit_shift_imm k in
      if kind = 0 then push_bit (unat imm) rm
      else if kind = 1 then push_bit rs rm
      else if kind = 2 then if n = 0 then 0 else c_shr k rm (uint n)
      else if kind = 3 then drop_bit rs rm
      else if kind = 4 then
        if n = 0 then if bit rm 31 then 0xFFFFFFFF else 0 else asr k rm (ucast n)
      else if kind = 5 then signed_drop_bit rs rm
      else if kind = 6 then if imm = 0 \<or> n = 0 then drop_bit 1 rm else ror k rm (ucast n)
      else word_rotr rs rm)"

lemma logicalShift_simps [simp]:
  "logicalShift k v n (CHR ''r'') s = (c_shr k v (uint n), s)"
  "logicalShift k v n (CHR ''l'') s = (c_shl k v (uint n), s)"
  by (simp_all add: logicalShift_def)

lemma refines_operand_and_carry_flag:
  assumes "same_settings t (trace s)" "room n t" "1 \<le> n" "arm s = c"
  shows "refines t (operand_and_carry_flag k line v s) (Some ((v, get_bit k (read_cpsr (reg c)) 29), c))"
  unfolding operand_and_carry_flag_def
  by (rule refines_bind_Some, rule refines_cpsr_at [OF assms]) (auto intro: refines_return)

lemma small_count:
  assumes "x \<noteq> 0" "x < (32 :: u32)"
  shows "0 < (ucast x :: u8)" "(ucast x :: u8) < 32" "unat (ucast x :: u8) = unat x"
proof -
  have "unat x < 32" using assms(2) by (simp add: word_less_nat_alt)
  then show u: "unat (ucast x :: u8) = unat x" by (simp add: unsigned_ucast_eq take_bit_nat_eq_self)
  show "(ucast x :: u8) < 32" "0 < (ucast x :: u8)"
    using assms \<open>unat x < 32\<close> by (simp_all add: word_less_nat_alt u word_unat_eq_iff)
qed

lemma refines_shiftedRegisterOperand:
  assumes "same_settings t (trace s)" "room n t" "1 \<le> n" "arm s = c"
  shows "\<exists>carry. refines t (shiftedRegisterOperand k ins s)
    (Some ((shifter_value k ins (rval c (ucast (take_bit 4 ins))), carry), c))"
proof -
  define rm where "rm = rval c (ucast (take_bit 4 ins))"
  obtain u where u: "located (AI 352) (arm_read_register (ucast (take_bit 4 ins))) s = Some (rm, u)"
    "arm u = c" "same_settings t (trace u)"
    using refines_read_at [OF assms(1-3) nibble_less assms(4), of "AI 352" ins]
    by (auto simp: refines_Some rm_def)
  define kind where "kind = take_bit 3 (drop_bit 4 ins)"
  define r where "r = take_bit 4 (drop_bit 8 ins)"
  define imm where "imm = take_bit 5 (drop_bit 7 ins)"
  have rs: "unat r < 16" unfolding r_def unsigned_take_bit_eq
    using take_bit_nat_less_exp [of 4 "unat (drop_bit 8 ins)"] by simp
  have im: "unat imm < 32" unfolding imm_def unsigned_take_bit_eq
    using take_bit_nat_less_exp [of 5 "unat (drop_bit 7 ins)"] by simp
  have r: "r < 32" "imm < 32" "take_bit 8 r = r" "take_bit 5 r = r"
    using rs im by (auto simp: r_def word_less_nat_alt)
  note flag = refines_operand_and_carry_flag [OF u(3) assms(2,3) u(2)]
  have "unat kind < 8" unfolding kind_def unsigned_take_bit_eq
    using take_bit_nat_less_exp [of 3 "unat (drop_bit 4 ins)"] by simp
  then have "kind = 0 \<or> kind = 1 \<or> kind = 2 \<or> kind = 3 \<or> kind = 4 \<or> kind = 5 \<or> kind = 6 \<or> kind = 7"
    unfolding word_unat_eq_iff by simp arith
  moreover have fields: "get_bits k ins 6 4 = kind" "get_bits k ins 3 0 = take_bit 4 ins" "get_bits k ins 11 8 = r"
    "get_bits k ins 11 7 = imm" "get_bits k r 7 0 = r" "get_bits k r 4 0 = r"
    using r by (simp_all add: kind_def r_def imm_def)
  note unf = shiftedRegisterOperand_def fields u(1) shifter_value_def Let_def rm_def [symmetric]
    kind_def [symmetric] r_def [symmetric] imm_def [symmetric]
  have shift: "x \<noteq> 0 \<Longrightarrow> x < 32 \<Longrightarrow> asr k rm (ucast x) = signed_drop_bit (unat x) rm"
    "x \<noteq> 0 \<Longrightarrow> x < 32 \<Longrightarrow> ror k rm (ucast x) = word_rotr (unat x) rm"
    "x < 32 \<Longrightarrow> c_shl k rm (uint x) = push_bit (unat x) rm"
    "x < 32 \<Longrightarrow> c_shr k rm (uint x) = drop_bit (unat x) rm" for x :: u32
    using small_count [of x] by (simp_all add: asr_eq ror_eq c_shl_def c_shr_def word_less_def)
  have ret: "\<exists>carry. refines t (Some ((v, x), u)) (Some ((v, carry), c))" for v x :: u32
    using u(2,3) by (simp add: refines_def)
  have flag: "\<exists>carry. refines t (operand_and_carry_flag k line v u) (Some ((v, carry), c))" for line v
    using refines_operand_and_carry_flag [OF u(3) assms(2,3) u(2)] by blast
  have bits: "get_bit k rm 31 = of_bool (bit rm 31)" "get_bit k (get_bit k ins 16) 29 = 0" "word_rotr 0 rm = rm"
    by simp_all (auto intro: bit_word_eqI simp: bit_word_rotr_iff)
  note facts = flag ret shift r(1,2) bits
  ultimately show ?thesis
    unfolding unf Option.bind.simps prod.case
    by (elim disjE; simp del: get_bits_eq get_bit_eq add: facts)
qed


subsection \<open>Data processing\<close>

definition carry_flag :: "arm_core_data \<Rightarrow> bool" where
  "carry_flag c = bit (read_cpsr (reg c)) 29"

definition operand2_value :: "indet \<Rightarrow> u32 \<Rightarrow> arm_core_data \<Rightarrow> u32" where
  "operand2_value k ins c =
     (if bit ins 25 then ror k (take_bit 8 ins) (ucast (take_bit 4 (drop_bit 8 ins) * 2))
      else let rm = rval c (ucast (take_bit 4 ins)) in
        if uninit_bits4_11 k = 0 then rm else shifter_value k ins rm)"

text \<open>The value a data-processing instruction writes to \<open>Rd\<close>; the four comparisons write none.\<close>

definition alu_result :: "nat \<Rightarrow> u32 \<Rightarrow> u32 \<Rightarrow> bool \<Rightarrow> u32 option" where
  "alu_result opcode a b carry =
     (if opcode \<in> {8, 9, 10, 11} then None
      else Some ([a AND b, a XOR b, a - b, b - a, a + b, a + b + of_bool carry, a - b - of_bool (\<not> carry),
        b - a - of_bool (\<not> carry), 0, 0, 0, 0, a OR b, b, a AND c_not b, c_not b] ! opcode))"

definition put_result :: "u32 \<Rightarrow> u32 option \<Rightarrow> arm_core_data \<Rightarrow> arm_core_data" where
  "put_result ins r c = (case r of None \<Rightarrow> c | Some v \<Rightarrow> put_reg (ucast (take_bit 4 (drop_bit 12 ins))) v c)"

definition core_condition :: "indet \<Rightarrow> u32 \<Rightarrow> arm_core_data \<Rightarrow> bool" where
  "core_condition k ins c \<longleftrightarrow> condition_switch k (read_cpsr (reg c)) (ucast (drop_bit 28 ins)) \<noteq> 0"

definition core_data_processing :: "indet \<Rightarrow> u32 \<Rightarrow> u32 \<Rightarrow> arm_core_data \<Rightarrow> arm_core_data" where
  "core_data_processing k ins a c =
     (if core_condition k ins c
      then put_result ins (alu_result (unat (take_bit 4 (drop_bit 21 ins))) a (operand2_value k ins c) (carry_flag c)) c
      else c)"

lemma refines_operand2:
  assumes "same_settings t (trace s)" "room n t" "1 \<le> n" "arm s = c"
  shows "\<exists>carry. refines t (data_processing_operand2 k ins s) (Some ((operand2_value k ins c, carry), c))"
proof -
  have b: "get_bit k ins 25 = of_bool (bit ins 25)" by simp
  note flag = refines_operand_and_carry_flag [OF assms]
  show ?thesis
  proof (cases "bit ins 25")
    case True
    then show ?thesis
      using assms flag
      by (auto simp: b data_processing_operand2_def operand2_value_def Let_def simp del: get_bit_eq
          intro!: exI refines_return)
  next
    case False
    show ?thesis
    proof (cases "uninit_bits4_11 k = 0")
      case True
      have "refines t (data_processing_operand2 k ins s)
          (Some ((operand2_value k ins c, get_bit k (read_cpsr (reg c)) 29), c))"
        using False True assms(2,3)
        by (auto simp: b data_processing_operand2_def operand2_value_def simp del: get_bit_eq
            intro!: refines_bind_Some [OF refines_read_at [OF assms(1-3) nibble_less assms(4)]]
              refines_operand_and_carry_flag)
      then show ?thesis ..
    next
      case other: False
      show ?thesis using refines_shiftedRegisterOperand [OF assms, of k ins] False other
        by (simp add: data_processing_operand2_def operand2_value_def)
    qed
  qed
qed

lemma refines_write_result:
  assumes "same_settings t (trace s)" "room n t" "1 \<le> n" "arm s = c"
  shows "refines t (write_result k line (take_bit 4 w) v s) (Some ((), put_reg (ucast (take_bit 4 w)) v c))"
  unfolding write_result_def
  by (rule refines_bind_Some, rule refines_write_at [OF assms(1-3) nibble_less assms(4)])
    (rule refines_update_flag [OF _ assms(2,3)])

lemma refines_test_flags:
  assumes "same_settings t (trace s)" "room n t" "1 \<le> n" "arm s = c"
  shows "refines t (test_flags k v carry s) (Some ((), c))" "refines t (compare_flags k v s) (Some ((), c))"
  unfolding test_flags_def compare_flags_def update_Flag_defs
  using assms by (auto intro!: refines_bind_Some refines_update_Flag refines_update_Flags_VC)


lemma refines_opcode:
  assumes "same_settings t (trace s)" "room n t" "1 \<le> n" "arm s = c" "unat op < 16"
  shows "refines t (data_processing_opcode k op a b carry (take_bit 4 (drop_bit 12 ins)) s)
    (Some ((), put_result ins (alu_result (unat op) a b (carry_flag c)) c))"
proof -
  define rd where "rd = take_bit 4 (drop_bit 12 ins)"
  have w: "refines t (write_result k line rd v s) (Some ((), put_reg (ucast rd) v c))" for line v
    unfolding rd_def by (rule refines_write_result [OF assms(1-4)])
  have l: "refines t (located (AI line) (arm_write_register (ucast rd) v) s) (Some ((), put_reg (ucast rd) v c))" for line v
    unfolding rd_def by (rule refines_write_at [OF assms(1-3) nibble_less assms(4)])
  have f: "refines t (do { (_, s) \<leftarrow> update_flag k r s; located (AI line) (arm_write_register (ucast rd) v) s })
      (Some ((), put_reg (ucast rd) v c))" for line v r
    unfolding rd_def
    by (rule refines_bind_Some, rule refines_update_flag [OF assms(1-4)])
      (rule refines_write_at [OF _ assms(2,3) nibble_less])
  have carry: "get_bit k (read_cpsr (reg c)) 29 = of_bool (carry_flag c)" by (simp add: carry_flag_def)
  have r: "refines t (Option.bind (located (AI line) arm_read_cpsr s) (\<lambda>(cpsr, s).
        write_result k line' rd (g (get_bit k cpsr 29)) s))
      (Some ((), put_reg (ucast rd) (g (of_bool (carry_flag c))) c))" for line line' g
    unfolding rd_def
    by (rule refines_bind_Some, rule refines_cpsr_at [OF assms(1-4)])
      (use refines_write_result [OF _ assms(2,3)] in \<open>simp add: carry del: get_bit_eq\<close>)
  note r3 = r [where g = "\<lambda>x. a + b + x"] r [where g = "\<lambda>x. a - b - (if x = 0 then 1 else 0)"]
    r [where g = "\<lambda>x. b - a - (if x = 0 then 1 else 0)"]
  note body = rd_def [symmetric] put_result_def data_processing_opcode_def alu_result_def
  have "op = 0 \<or> op = 1 \<or> op = 2 \<or> op = 3 \<or> op = 4 \<or> op = 5 \<or> op = 6 \<or> op = 7 \<or>
    op = 8 \<or> op = 9 \<or> op = 10 \<or> op = 11 \<or> op = 12 \<or> op = 13 \<or> op = 14 \<or> op = 15"
    using assms(5) unfolding word_unat_eq_iff by simp arith
  then consider "op = 5 \<or> op = 6 \<or> op = 7" | "op = 0 \<or> op = 1 \<or> op = 2 \<or> op = 3 \<or> op = 4 \<or>
    op = 8 \<or> op = 9 \<or> op = 10 \<or> op = 11 \<or> op = 12 \<or> op = 13 \<or> op = 14 \<or> op = 15"
    by argo
  then show ?thesis
  proof cases
    case 1
    then show ?thesis unfolding body using r3 by (cases "carry_flag c"; elim disjE) (simp_all del: get_bit_eq)
  next
    case 2
    then show ?thesis unfolding body
      by (elim disjE) (simp_all add: Let_def w l f refines_test_flags [OF assms(1-4)] del: get_bit_eq)
  qed
qed


lemma refines_data_processing:
  assumes "same_settings t (trace s)" "room n t" "1 \<le> n" "arm s = c"
  shows "refines t (data_processing k ins a s) (Some ((), core_data_processing k ins a c))"
proof -
  define cond where "cond = condition_switch k (read_cpsr (reg c)) (ucast (drop_bit 28 ins))"
  have f: "get_bits k ins 31 28 = drop_bit 28 ins" "get_bits k ins 24 21 = take_bit 4 (drop_bit 21 ins)"
    "get_bits k ins 15 12 = take_bit 4 (drop_bit 12 ins)"
    by (simp_all, rule bit_word_eqI) (auto simp: bit_simps dest: bit_imp_le_length)
  have op: "unat (take_bit 4 (drop_bit 21 ins)) < 16"
    unfolding unsigned_take_bit_eq using take_bit_nat_less_exp [of 4 "unat (drop_bit 21 ins)"] by simp
  show ?thesis unfolding data_processing_def f
  proof (rule refines_bind_Some, rule refines_ConditionPassed [OF assms], fold cond_def)
    fix u :: machine
    assume u: "arm u = c" "same_settings t (trace u)"
    obtain carry where two: "refines t (data_processing_operand2 k ins u) (Some ((operand2_value k ins c, carry), c))"
      using refines_operand2 [OF u(2) assms(2,3) u(1)] by blast
    show "refines t (if cond \<noteq> 0 then do {
        ((operand2, shifter_carry_out), s) \<leftarrow> data_processing_operand2 k ins u;
        data_processing_opcode k (take_bit 4 (drop_bit 21 ins)) a operand2 shifter_carry_out
          (take_bit 4 (drop_bit 12 ins)) s
      } else Some ((), printf (''Condition not passed (bits 28 - 31)'' @ [CHR 0x0A]) u))
      (Some ((), core_data_processing k ins a c))"
      using refines_opcode [OF _ assms(2,3) _ op]
      by (auto simp: core_data_processing_def core_condition_def cond_def [symmetric] u
          intro!: refines_bind_Some [OF two] refines_return)
  qed
qed

subsection \<open>Transfers and branches\<close>

definition core_transfer :: "indet \<Rightarrow> u32 \<Rightarrow> u32 \<Rightarrow> bool \<Rightarrow> bool \<Rightarrow> u8 \<Rightarrow> arm_core_data \<Rightarrow> (unit \<times> arm_core_data) option" where
  "core_transfer k addr v load byte rd c =
     (if \<not> load \<and> \<not> byte then do {
        (_, c) \<leftarrow> core_write_word addr v c;
        (_, c) \<leftarrow> core_read_word addr (uninit_word k) c;
        Some ((), c)
      } else if \<not> load \<and> byte then do {
        (_, c) \<leftarrow> core_write_byte addr (ucast (take_bit 8 v)) c;
        (_, c) \<leftarrow> core_read_byte addr (uninit_byte k) c;
        Some ((), c)
      } else if load \<and> \<not> byte then do {
        ((w, _), c) \<leftarrow> core_read_word addr (uninit_word k) c;
        let data = ror k w (ucast (8 * take_bit 2 addr));
        Some ((), put_reg rd (if rd = 15 then data AND 0xFFFFFFFE else data) c)
      } else do {
        ((b, _), c) \<leftarrow> core_read_byte addr (uninit_byte k) c;
        Some ((), put_reg rd (ucast (ucast b :: u8)) c)
      })"

definition core_branch :: "u32 \<Rightarrow> arm_core_data \<Rightarrow> arm_core_data" where
  "core_branch ins c =
     (let pc = rval c 15; c = (if bit ins 24 then put_reg 14 pc c else c) in
      put_reg 15 (rval c 15 + branch_offset ins) c)"

lemma refines_branch:
  assumes "same_settings t (trace s)" "room n t" "2 \<le> n" "arm s = c"
  shows "refines t (arm_branch k ins s) (Some (0, core_branch ins c))"
proof -
  have n1: "1 \<le> n" using assms(3) by simp
  have jump: "traced_action 2 (located loc (\<lambda>s. do {
          (pc, s) \<leftarrow> located loc' (arm_read_register 15) s;
          arm_write_register 15 (pc + x) s })) (\<lambda>c. Some ((), put_reg 15 (rval c 15 + x) c))" for loc loc' x
  proof -
    have "traced_action 1 (\<lambda>s. do {
          (pc, s) \<leftarrow> located loc' (arm_read_register 15) s;
          arm_write_register 15 (pc + x) s }) (\<lambda>c. Some ((), put_reg 15 (rval c 15 + x) c))"
    proof (rule traced_action.intro)
      fix s :: machine
      assume room: "room 1 (trace s)"
      have t: "same_settings (trace s) (trace s)" by (simp add: same_settings_def)
      show "refines (trace s) (do { (pc, s) \<leftarrow> located loc' (arm_read_register 15) s;
          arm_write_register 15 (pc + x) s }) (Some ((), put_reg 15 (rval (arm s) 15 + x) (arm s)))"
        by (rule refines_bind_Some, rule refines_read_at [OF t room _ _ refl])
          (use write_reg.agrees_from [OF _ room, where r = 15] core_write_register_eq [of 15] in \<open>simp_all\<close>)
    qed
    from traced_action.located_agrees [OF this] show ?thesis by (simp add: numeral_2_eq_2)
  qed
  note j = traced_action.agrees_from [OF jump _ assms(2,3)]
  have pc: "refines t (located loc (arm_read_register 15) s) (Some (rval c 15, c))" for loc
    by (rule refines_read_at [OF assms(1,2) n1 _ assms(4)]) simp
  have lr: "refines t (located loc (arm_write_register 14 v) u) (Some ((), put_reg 14 v (arm u)))"
    if "same_settings t (trace u)" for loc v u
    by (rule refines_write_at [OF that assms(2) n1 _ refl]) simp
  show ?thesis
    unfolding arm_branch_def core_branch_def Let_def Extend_30_offset
    using assms(1,4) by (auto intro!: refines_bind_Some [OF j] refines_bind_Some [OF pc] refines_bind_Some [OF lr] refines_return)
qed


lemma refines_transfer:
  assumes "same_settings t (trace s)" "room n t" "1 \<le> n" "arm s = c"
  shows "refines t (loadStoreByteOrWord k addr v (of_bool load) (of_bool byte) (take_bit 4 w) s)
    (core_transfer k addr v load byte (ucast (take_bit 4 w)) c)"
proof -
  have n: "Suc 0 \<le> n" using assms(3) by simp
  note rw = traced_action.agrees_from [OF word_read.located_agrees _ assms(2) n]
      traced_action.agrees_from [OF byte_read.located_agrees _ assms(2) n]
      traced_action.agrees_from [OF word_write.located_agrees _ assms(2) n]
      traced_action.agrees_from [OF byte_write.located_agrees _ assms(2) n]
      refines_write_at [OF _ assms(2,3)]
  have rd: "take_bit 4 w = 15 \<longleftrightarrow> (ucast (take_bit 4 w) :: u8) = 15"
  proof -
    have "unat (take_bit 4 w) < 256"
      unfolding unsigned_take_bit_eq using take_bit_nat_less_exp [of 4 "unat w"] by simp
    then show ?thesis by (simp add: word_unat_eq_iff unsigned_ucast_eq take_bit_nat_eq_self)
  qed
  have p: "arm (printf x s) = c" "same_settings t (trace (printf x s))" for x using assms by simp_all
  show ?thesis
    unfolding loadStoreByteOrWord_def core_transfer_def rd
    by (cases load; cases byte)
      (auto simp: p assms(1,4) Let_def intro!: refines_bind refines_return rw)
qed


subsection \<open>One step\<close>

definition core_execute :: "indet \<Rightarrow> u32 \<Rightarrow> u32 \<Rightarrow> arm_core_data \<Rightarrow> (unit \<times> arm_core_data) option" where
  "core_execute k res ins c =
     (let kind = take_bit 2 (drop_bit 26 res) in
      if kind = 0 then
        if take_bit 2 (drop_bit 23 res) = 2 \<and> \<not> bit res 20 then Some ((), c)
        else Some ((), core_data_processing k res (rval c (ucast (take_bit 4 (drop_bit 16 res)))) c)
      else if kind = 1 then
        if core_condition k res c then
          let rd = ucast (take_bit 4 (drop_bit 12 res)) in
          core_transfer k (arm_load_store k ins) (rval c rd) (bit res 20) (bit res 22) rd c
        else Some ((), c)
      else if kind = 2 \<and> bit res 25 \<and> core_condition k res c then Some ((), core_branch ins c)
      else Some ((), c))"

definition core_step :: "indet \<Rightarrow> arm_core_data \<Rightarrow> (c_int \<times> arm_core_data) option" where
  "core_step k c = do {
     ((res, ins), c) \<leftarrow> core_fetch (uninit_word k) c;
     (_, c) \<leftarrow> core_execute k res ins c;
     Some (0, c)
   }"

lemma get_bits_top [simp]: "get_bits k (w :: u32) 31 28 = drop_bit 28 w"
  by (simp, rule bit_word_eqI) (auto simp: bit_simps dest: bit_imp_le_length)

lemma refines_execute:
  assumes "same_settings t (trace s)" "room n t" "2 \<le> n" "arm s = c"
  shows "refines t (execute_switch k res ins (rval c (ucast (take_bit 4 (drop_bit 16 res)))) s) (core_execute k res ins c)"
proof -
  have n: "1 \<le> n" using assms(3) by simp
  note cond = refines_bind_Some [OF refines_ConditionPassed [OF assms(1,2) n assms(4)]]
  have b: "get_bit k res 25 = of_bool (bit res 25)" "get_bit k res 20 = of_bool (bit res 20)"
    "get_bit k res 22 = of_bool (bit res 22)" "get_bits k res 27 26 = take_bit 2 (drop_bit 26 res)"
    "get_bits k res 24 23 = take_bit 2 (drop_bit 23 res)" "get_bits k res 15 12 = take_bit 4 (drop_bit 12 res)"
    by simp_all
  have xfer: "refines t (do { (v, u) \<leftarrow> located (AI 236) (arm_read_register (ucast (take_bit 4 w))) u;
      loadStoreByteOrWord k addr v (of_bool load) (of_bool byte) (take_bit 4 w) u })
      (core_transfer k addr (rval c (ucast (take_bit 4 w))) load byte (ucast (take_bit 4 w)) c)"
    if "same_settings t (trace u)" "arm u = c" for u addr load byte w
    by (rule refines_bind_Some, rule refines_read_at [OF that(1) assms(2) n nibble_less that(2)])
      (rule refines_transfer [OF _ assms(2) n])
  note ret = refines_return [OF assms(1) assms(4) [symmetric]]
  note body = execute_switch_def core_execute_def b Let_def get_bits_top
  define kind where "kind = take_bit 2 (drop_bit 26 res)"
  consider "kind = 0" | "kind = 1" | "kind \<noteq> 0 \<and> kind \<noteq> 1" by blast
  then show ?thesis
  proof cases
    case 1
    then show ?thesis
      by (simp add: body kind_def del: get_bit_eq get_bits_eq)
        (auto intro: ret refines_data_processing [OF assms(1,2) n assms(4)])
  next
    case 2
    then show ?thesis
      by (simp add: body kind_def core_condition_def [symmetric] del: get_bit_eq get_bits_eq)
        (intro conjI impI cond; simp add: b Let_def core_condition_def [symmetric] xfer refines_return del: get_bit_eq)
  next
    case 3
    then show ?thesis
      by (simp add: body kind_def del: get_bit_eq get_bits_eq)
        (auto simp: core_condition_def [symmetric] intro!: ret cond refines_return
          refines_bind_Some [OF refines_branch [OF _ assms(2,3)]])
  qed
qed

lemma execute_returns_0: "arm_execute_instruction k s = Some (r, u) \<Longrightarrow> r = 0"
  by (auto simp: arm_execute_instruction_def bind_eq_Some_conv)

interpretation step: traced_action 2 "arm_step k" "core_step k" for k
proof
  fix s :: machine
  assume room: "room 2 (trace s)"
  define t where "t = trace s"
  have t: "room 2 t" "same_settings t (trace s)" using room by (simp_all add: t_def same_settings_def)
  note fetch = refines_bind [OF traced_action.agrees_from [OF fetch.located_agrees t(2,1) _ refl]]
  note rd = refines_bind_Some [OF refines_read_at [OF _ t(1) _ nibble_less refl]]
  have "refines t (arm_execute_instruction k s) (core_step k (arm s))"
    unfolding arm_execute_instruction_def core_step_def
    by (rule fetch) (auto intro!: rd refines_bind refines_execute [OF _ t(1)] refines_return)
  then show "refines (trace s) (arm_step k s) (core_step k (arm s))"
    by (auto simp: arm_step_def t_def refines_def dest!: execute_returns_0 split: option.splits)
qed

end
