(* ===== verification/Gdb.thy ===== *)
theory Gdb
  imports Gdb_Packet Instruction_Refinement
begin

text \<open>
  The commands of the gdb protocol, \<open>gdb_protocol.c\<close>: one definition per handler, the table of handlers and
  the analysis of a packet.  A handler takes the bytes from its argument to the end of the block that holds
  the packet, \<open>be\<close> tells whether the host is big endian, and the texts the \<open>debug\<close> macros print on the
  standard error are left out.
\<close>

abbreviation (input) "GP n \<equiv> (''gdb_protocol.c'', n :: int)"

definition on_target :: "'a action \<Rightarrow> gdb_protocol_data \<Rightarrow> ('a \<times> gdb_protocol_data) option" where
  "on_target f g = do { (x, s) \<leftarrow> f (target g); Some (x, g\<lparr>target := s\<rparr>) }"

definition on_trace :: "(trace_state \<Rightarrow> trace_state) \<Rightarrow> gdb_protocol_data \<Rightarrow> gdb_protocol_data" where
  "on_trace f g = g\<lparr>target := (target g)\<lparr>trace := f (trace (target g))\<rparr>\<rparr>"

subsection \<open>Running\<close>

definition gdb_send_stop_reason :: "gdb_protocol_data \<Rightarrow> gdb_protocol_data option" where
  "gdb_send_stop_reason g =
     (if target_exception g = UNDEFINED_INSTRUCTION then gdb_send_data ''S04'' g
      else if target_exception g = PREFETCH_ABORT \<or> target_exception g = DATA_ABORT then gdb_send_data ''S10'' g
      else gdb_send_data ''S05'' g)"

text \<open>A handler has returned, or \<open>cont\<close> is still running when the steps given to it are used up.\<close>

datatype progress = Done gdb_protocol_data | Running gdb_protocol_data

text \<open>The read of the next instruction, with the trace disabled; \<open>instruction\<close> keeps its content when the read fails.\<close>

definition cont_look :: "u32 \<Rightarrow> gdb_protocol_data \<Rightarrow> (u32 \<times> gdb_protocol_data) option" where
  "cont_look instruction g = do {
     let g = on_trace trace_disable g;
     (pc, g) \<leftarrow> on_target (located (GP 169) (arm_read_register 15)) g;
     let r15 = pc - 4;
     ((_, instruction), g) \<leftarrow> on_target (located (GP 170) (arm_read_word r15 instruction)) g;
     Some (instruction, on_trace trace_enable g)
   }"

definition gdb_run_step :: "indet \<Rightarrow> gdb_protocol_data \<Rightarrow> gdb_protocol_data option" where
  "gdb_run_step k g = do {
     (result, g) \<leftarrow> on_target (arm_step k) g;
     (_, g) \<leftarrow> on_target trace_arm_state (g\<lparr>target_exception := result\<rparr>);
     Some g
   }"

text \<open>The \<open>while\<close> loop of \<open>cont\<close>, with the indeterminate values of one step per iteration.\<close>

fun cont_loop :: "indet list \<Rightarrow> u32 \<Rightarrow> gdb_protocol_data \<Rightarrow> progress option" where
  "cont_loop [] instruction g = Some (Running g)"
| "cont_loop (k # ks) instruction g = do {
     (instruction, g) \<leftarrow> cont_look instruction g;
     (if instruction AND 0xFFF000F0 = 0xE7F000F0 then Some (Done g)
      else do { g \<leftarrow> gdb_run_step k g; cont_loop ks instruction g })
   }"

definition cont :: "indet list \<Rightarrow> indet \<Rightarrow> gdb_protocol_data \<Rightarrow> progress option" where
  "cont ks k g = do {
     r \<leftarrow> cont_loop ks (uninit_word k) g;
     (case r of Running g \<Rightarrow> Some (Running g) | Done g \<Rightarrow> map_option Done (gdb_send_stop_reason g))
   }"

definition gdb_step :: "indet \<Rightarrow> gdb_protocol_data \<Rightarrow> gdb_protocol_data option" where
  "gdb_step k g = do { g \<leftarrow> gdb_run_step k g; gdb_send_stop_reason g }"

definition kill_request :: "gdb_protocol_data \<Rightarrow> gdb_protocol_data" where
  "kill_request g = g\<lparr>write_open := False\<rparr>"

definition reason :: "gdb_protocol_data \<Rightarrow> gdb_protocol_data option" where
  "reason g = gdb_send_stop_reason g"

subsection \<open>Queries\<close>

definition query :: "string \<Rightarrow> gdb_protocol_data \<Rightarrow> gdb_protocol_data option" where
  "query raw g = do {
     data \<leftarrow> c_string raw;
     (if data = ''Offsets'' then gdb_send_data ''Text=0;Data=0;Bss=0'' g
      else if take 9 data = ''Supported'' then gdb_send_data ''PacketSize=400'' g
      else if data = ''TStatus'' then gdb_send_data ''T0;tnotrun:0'' g
      else if data = ''Symbol::'' then gdb_send_data '''' g
      else gdb_send_data '''' g)
   }"

definition set_thread :: "string \<Rightarrow> gdb_protocol_data \<Rightarrow> gdb_protocol_data option" where
  "set_thread raw g = do {
     kind \<leftarrow> (case raw of [] \<Rightarrow> None | c # _ \<Rightarrow> Some c);
     digits \<leftarrow> c_string (tl raw);
     let value = atoi digits;
     (if (kind = CHR ''c'' \<or> kind = CHR ''g'') \<and> value < 1 \<and> -2 < value then gdb_send_data ''OK'' g
      else gdb_send_data ''E01'' g)
   }"

subsection \<open>Registers\<close>

definition put_text :: "nat \<Rightarrow> string \<Rightarrow> gdb_protocol_data \<Rightarrow> gdb_protocol_data option" where
  "put_text position s g = do { p \<leftarrow> put_string (packet g) position s; Some (g\<lparr>packet := p\<rparr>) }"

fun put_registers :: "bool \<Rightarrow> nat list \<Rightarrow> nat \<Rightarrow> gdb_protocol_data \<Rightarrow> gdb_protocol_data option" where
  "put_registers be [] position g = Some g"
| "put_registers be (i # is) position g = do {
     (v, g) \<leftarrow> on_target (located (GP 217) (arm_read_register (of_nat i))) g;
     g \<leftarrow> put_text position (write_uint32 be v) g;
     put_registers be is (position + 8) g
   }"

fun put_blanks :: "nat \<Rightarrow> nat \<Rightarrow> gdb_protocol_data \<Rightarrow> gdb_protocol_data option" where
  "put_blanks 0 position g = Some g"
| "put_blanks (Suc n) position g = do {
     g \<leftarrow> put_text position ''xxxxxxxx'' g;
     put_blanks n (position + 8) g
   }"

definition read_general_registers :: "bool \<Rightarrow> gdb_protocol_data \<Rightarrow> gdb_protocol_data option" where
  "read_general_registers be g = do {
     let g = on_trace trace_disable g;
     let position = 1;
     g \<leftarrow> put_registers be [0..<15] position g;
     let position = position + 8 * 15;
     (pc, g) \<leftarrow> on_target (located (GP 221) (arm_read_register 15)) g;
     g \<leftarrow> put_text position (write_uint32 be (pc - 4)) g;
     let position = position + 8;
     g \<leftarrow> put_blanks (8 * 3) position g;
     let position = position + 8 * 8 * 3;
     g \<leftarrow> put_text position ''xxxxxxxx'' g;
     let position = position + 8;
     (cpsr, g) \<leftarrow> on_target (located (GP 235) arm_read_cpsr) g;
     g \<leftarrow> put_text position (write_uint32 be cpsr) g;
     gdb_send_buffer (on_trace trace_enable g)
   }"

text \<open>\<open>assert(reg < 16)\<close> ends the process when it fails.\<close>

definition gdb_read_register :: "bool \<Rightarrow> string \<Rightarrow> gdb_protocol_data \<Rightarrow> gdb_protocol_data option" where
  "gdb_read_register be raw g = do {
     data \<leftarrow> c_string raw;
     let reg = (word_of_int (atoi data) :: u32);
     (if \<not> reg < 16 then Some (g\<lparr>terminated := True\<rparr>) else do {
        let g = on_trace trace_disable g;
        (v, g) \<leftarrow> on_target (located (GP 260) (arm_read_register (ucast reg))) g;
        g \<leftarrow> put_text 1 (write_uint32 be (v - (if reg = 15 then 4 else 0))) g;
        gdb_send_buffer (on_trace trace_enable g)
      })
   }"

fun take_registers :: "bool \<Rightarrow> indet \<Rightarrow> nat list \<Rightarrow> string \<Rightarrow> gdb_protocol_data \<Rightarrow> gdb_protocol_data option" where
  "take_registers be k [] position g = Some g"
| "take_registers be k (i # is) position g = do {
     v \<leftarrow> read_uint32 be (uninit_word k) position;
     (_, g) \<leftarrow> on_target (located (GP 297) (arm_write_register (of_nat i) v)) g;
     take_registers be k is (drop 8 position) g
   }"

text \<open>The floating point registers are parsed and dropped.\<close>

fun skip_values :: "bool \<Rightarrow> indet \<Rightarrow> nat \<Rightarrow> string \<Rightarrow> unit option" where
  "skip_values be k 0 position = Some ()"
| "skip_values be k (Suc n) position = do {
     v \<leftarrow> read_uint32 be (uninit_word k) position;
     skip_values be k n (drop 8 position)
   }"

definition write_general_registers :: "bool \<Rightarrow> indet \<Rightarrow> string \<Rightarrow> gdb_protocol_data \<Rightarrow> gdb_protocol_data option" where
  "write_general_registers be k raw g = do {
     let g = on_trace trace_disable g;
     g \<leftarrow> take_registers be k [0..<16] raw g;
     let position = drop (8 * 16) raw;
     _ \<leftarrow> skip_values be k (8 * 3 + 1) position;
     let position = drop (8 * (8 * 3 + 1)) position;
     v \<leftarrow> read_uint32 be (uninit_word k) position;
     (_, g) \<leftarrow> on_target (located (GP 322) (arm_write_cpsr v)) g;
     gdb_send_data ''OK'' (on_trace trace_enable g)
   }"

definition gdb_write_register :: "bool \<Rightarrow> indet \<Rightarrow> string \<Rightarrow> gdb_protocol_data \<Rightarrow> gdb_protocol_data option" where
  "gdb_write_register be k raw g = do {
     data \<leftarrow> c_string raw;
     let reg = (case scan_hex (length data) data of None \<Rightarrow> uninit_word k | Some (r, _) \<Rightarrow> r);
     raw \<leftarrow> after_char (CHR ''='') raw;
     v \<leftarrow> read_uint32 be (uninit_word k) raw;
     (if \<not> reg < 16 then Some (g\<lparr>terminated := True\<rparr>) else do {
        let g = on_trace trace_disable g;
        (_, g) \<leftarrow> on_target (located (GP 365) (arm_write_register (ucast reg) v)) g;
        gdb_send_data ''OK'' (on_trace trace_enable g)
      })
   }"

subsection \<open>Memory\<close>

fun read_memory_loop :: "memory_data \<Rightarrow> nat \<Rightarrow> u32 \<Rightarrow> u8 \<Rightarrow> nat \<Rightarrow> gdb_protocol_data \<Rightarrow> gdb_protocol_data option" where
  "read_memory_loop m 0 address value position g = Some g"
| "read_memory_loop m (Suc n) address value position g = do {
     (result, value) \<leftarrow> memory_read_byte m address value;
     (if result \<noteq> -1 then do {
        g \<leftarrow> put_text position (fmt_02x value) g;
        read_memory_loop m n (address + 1) value (position + 2) g
      } else Some g)
   }"

definition read_memory :: "indet \<Rightarrow> string \<Rightarrow> gdb_protocol_data \<Rightarrow> gdb_protocol_data option" where
  "read_memory k raw g = do {
     data \<leftarrow> c_string raw;
     let (address, count) = scan_pair data (uninit_word k) (uninit_word k);
     p \<leftarrow> store_char (packet g) 1 NUL;
     g \<leftarrow> read_memory_loop (memo (target g)) (unat count) address (uninit_byte k) 1 (g\<lparr>packet := p\<rparr>);
     gdb_send_buffer g
   }"

text \<open>The content is read past null characters; \<open>0x7d\<close> announces a character sent with bit 5 inverted.\<close>

fun write_memory_loop :: "nat \<Rightarrow> u32 \<Rightarrow> string \<Rightarrow> memory_data \<Rightarrow> (bool \<times> memory_data) option" where
  "write_memory_loop 0 address content m = Some (True, m)"
| "write_memory_loop (Suc n) address content m = do {
     (value, content) \<leftarrow> (case content of
        [] \<Rightarrow> None
      | c # rest \<Rightarrow> if (of_char c :: u8) = 0x7d then (case rest of [] \<Rightarrow> None | e # rest \<Rightarrow> Some (of_char e XOR 0x20 :: u8, rest))
          else Some (of_char c, rest));
     (result, m) \<leftarrow> memory_write_byte m address value;
     (if result = 0 then write_memory_loop n (address + 1) content m else Some (False, m))
   }"

definition write_memory_binary :: "indet \<Rightarrow> string \<Rightarrow> gdb_protocol_data \<Rightarrow> gdb_protocol_data option" where
  "write_memory_binary k raw g = do {
     data \<leftarrow> c_string raw;
     let (address, count) = scan_pair data (uninit_word k) (uninit_word k);
     content \<leftarrow> after_char (CHR '':'') raw;
     (ok, m) \<leftarrow> (if unat address < memory_get_size (memo (target g))
       then write_memory_loop (unat count) address content (memo (target g)) else Some (False, memo (target g)));
     let g = g\<lparr>target := set_mem m (target g)\<rparr>;
     (if ok then gdb_send_data ''OK'' g else gdb_send_data ''E02'' g)
   }"

subsection \<open>Packets\<close>

text \<open>The table \<open>gdb_init\<close> fills.\<close>

datatype gdb_handler = Cont | Kill_request | Query | Read_general_registers | Read_memory | Read_register | Reason
  | Set_thread | Step | Write_general_registers | Write_memory_binary | Write_register

definition handler_table :: "(char \<times> gdb_handler) list" where
  "handler_table = [(CHR ''c'', Cont), (CHR ''k'', Kill_request), (CHR ''q'', Query), (CHR ''g'', Read_general_registers),
     (CHR ''m'', Read_memory), (CHR ''p'', Read_register), (CHR ''?'', Reason), (CHR ''H'', Set_thread), (CHR ''s'', Step),
     (CHR ''G'', Write_general_registers), (CHR ''X'', Write_memory_binary), (CHR ''P'', Write_register)]"

definition run_handler :: "gdb_handler \<Rightarrow> indet list \<Rightarrow> indet \<Rightarrow> bool \<Rightarrow> string \<Rightarrow> gdb_protocol_data \<Rightarrow> progress option" where
  "run_handler h ks k be raw g = (case h of
      Cont \<Rightarrow> cont ks k g
    | Kill_request \<Rightarrow> Some (Done (kill_request g))
    | Query \<Rightarrow> map_option Done (query raw g)
    | Read_general_registers \<Rightarrow> map_option Done (read_general_registers be g)
    | Read_memory \<Rightarrow> map_option Done (read_memory k raw g)
    | Read_register \<Rightarrow> map_option Done (gdb_read_register be raw g)
    | Reason \<Rightarrow> map_option Done (reason g)
    | Set_thread \<Rightarrow> map_option Done (set_thread raw g)
    | Step \<Rightarrow> map_option Done (gdb_step k g)
    | Write_general_registers \<Rightarrow> map_option Done (write_general_registers be k raw g)
    | Write_memory_binary \<Rightarrow> map_option Done (write_memory_binary k raw g)
    | Write_register \<Rightarrow> map_option Done (gdb_write_register be k raw g))"

text \<open>\<open>yytext\<close> is the text of the packet, at least four characters and a null one; \<open>packet[i]\<close> is its \<open>#\<close>.\<close>

definition gdb_packet_analysis :: "indet list \<Rightarrow> indet \<Rightarrow> bool \<Rightarrow> string \<Rightarrow> gdb_protocol_data \<Rightarrow> progress option" where
  "gdb_packet_analysis ks k be yytext g = do {
     let i = length yytext - 3;
     let check = sum_list (map of_char (take (i - 1) (tl yytext)) :: u8 list);
     tail \<leftarrow> c_string (drop (i + 1) (yytext @ [NUL]));
     let given = (case scan_hex (length tail) tail of None \<Rightarrow> uninit_word k | Some (n, _) \<Rightarrow> n);
     (if ucast check = given then
        let g = gdb_send_ack g; block = (yytext @ [NUL])[i := NUL] in
        (case map_of handler_table (block ! 1) of
          Some h \<Rightarrow> run_handler h ks k be (drop 2 block) g
        | None \<Rightarrow> map_option Done (gdb_send_data '''' g))
      else Some (Done (gdb_require_retransmission g)))
   }"

end
