(* ===== verification/Step_Properties.thy ===== *)
theory Step_Properties
  imports Instruction_Refinement
begin

text \<open>
  What one instruction does, stated on \<open>arm_step\<close> itself: the fetch, what every instruction keeps, the
  result of each class of instructions, and the invariants of a run from the creation of the processor.
\<close>

subsection \<open>Fetch\<close>

definition fetch_address :: "arm_core_data \<Rightarrow> u32" where
  "fetch_address c = rval c 15 - 4"

definition fetched :: "arm_core_data \<Rightarrow> arm_core_data" where
  "fetched c = put_reg 15 (rval c 15) (c\<lparr>cycle_count := cycle_count c + 1\<rparr>)"

text \<open>The instruction at the fetch address lies inside the memory and is \<open>ins\<close>.\<close>

definition executes :: "arm_core_data \<Rightarrow> u32 \<Rightarrow> bool" where
  "executes c ins \<longleftrightarrow> inside (mem c) (fetch_address c) 4 \<and> word_at (mem c) (fetch_address c) = ins"

definition aligned_pc :: "arm_core_data \<Rightarrow> bool" where
  "aligned_pc c \<longleftrightarrow> take_bit 2 (r_data (reg c) 15) = 0"

lemma put_reg_simps [simp]:
  "mem (put_reg r v c) = mem c" "cycle_count (put_reg r v c) = cycle_count c"
  "r_data (reg (put_reg r v c)) = (r_data (reg c))(unat r := v)"
  by (simp_all add: put_reg_def)

lemma fetched_simps [simp]:
  "mem (fetched c) = mem c" "cycle_count (fetched c) = cycle_count c + 1"
  "r_data (reg (fetched c)) = (r_data (reg c))(15 := rval c 15)"
  by (simp_all add: fetched_def)

lemma rval_fetched [simp]: "r \<noteq> 15 \<Longrightarrow> rval (fetched c) r = rval c r"
  by (auto simp: rval_def word_unat_eq_iff)

lemma core_fetch_eq:
  "core_fetch x c = do { (r, v) \<leftarrow> memory_read_word (mem c) (fetch_address c) x; Some ((r, v), fetched c) }"
proof -
  have "core_read_register 15 (c\<lparr>cycle_count := n\<rparr>) = Some (rval c 15, c\<lparr>cycle_count := n\<rparr>)" for n
    by (simp add: core_read_register_eq rval_def)
  then show ?thesis
    by (cases "memory_read_word (mem c) (fetch_address c) x")
      (auto simp: core_fetch_def core_read_word_def core_write_register_eq fetched_def fetch_address_def)
qed

lemma core_step_executes:
  assumes "executes c ins"
  shows "core_step k c = do { (_, c) \<leftarrow> core_execute k ins ins (fetched c); Some (0, c) }"
  using assms by (simp add: core_step_def core_fetch_eq executes_def memory_read_word_inside)

lemma aligned_plus_4:
  assumes "take_bit 2 (p :: u32) = 0"
  shows "(p + 4) AND 0xFFFFFFFD = p + 4"
proof -
  have "unat (take_bit 2 p) = 0" using assms by simp
  then have "unat p mod 4 = 0" by (simp add: unsigned_take_bit_eq take_bit_nat_def)
  then have "unat (p + 4) mod 4 = 0" unfolding unat_word_ariths by (simp add: mod_mod_cancel)
  then have "even (unat (p + 4) div 2)" by presburger
  then have "\<not> bit (unat (p + 4)) 1" by (simp add: bit_iff_odd)
  then have b: "\<not> bit (p + 4) 1" by (simp add: bit_unsigned_iff)
  have "(0xFFFFFFFD :: u32) = NOT (push_bit 1 1)" by simp
  then have "bit (0xFFFFFFFD :: u32) n \<longleftrightarrow> n < 32 \<and> n \<noteq> 1" for n by (simp only:) (auto simp: bit_simps)
  with b show ?thesis by (intro bit_word_eqI) (auto simp: bit_and_iff)
qed


lemma aligned_fetch:
  assumes "aligned_pc c"
  shows "rval c 15 = r_data (reg c) 15 + 4" "fetch_address c = r_data (reg c) 15"
    "rval (fetched c) 15 = r_data (reg c) 15 + 8"
proof -
  have p: "take_bit 2 (r_data (reg c) 15) = 0" using assms by (simp add: aligned_pc_def)
  show r: "rval c 15 = r_data (reg c) 15 + 4" by (simp add: rval_def aligned_plus_4 [OF p])
  then show "fetch_address c = r_data (reg c) 15" by (simp add: fetch_address_def)
  have "unat (take_bit 2 (r_data (reg c) 15)) = 0" using p by simp
  then have "unat (r_data (reg c) 15) mod 4 = 0" by (simp add: unsigned_take_bit_eq take_bit_nat_def)
  then have "unat (r_data (reg c) 15 + 4) mod 4 = 0" unfolding unat_word_ariths by (simp add: mod_mod_cancel)
  then have "unat (take_bit 2 (r_data (reg c) 15 + 4)) = 0" by (simp add: unsigned_take_bit_eq take_bit_nat_def)
  then have "take_bit 2 (r_data (reg c) 15 + 4) = 0" by (simp only: unsigned_eq_0_iff)
  from aligned_plus_4 [OF this] show "rval (fetched c) 15 = r_data (reg c) 15 + 8"
    by (simp add: rval_def [of "fetched c"] r add.assoc)
qed

subsection \<open>What a step keeps\<close>

text \<open>Whatever the instruction, execution leaves the status registers, the cycle counter and the shape of
  the memory alone.\<close>

definition same_status :: "arm_core_data \<Rightarrow> arm_core_data \<Rightarrow> bool" where
  "same_status c d \<longleftrightarrow> r_data (reg d) 16 = r_data (reg c) 16 \<and> r_data (reg d) 17 = r_data (reg c) 17 \<and>
     cycle_count d = cycle_count c \<and> mem_size (mem d) = mem_size (mem c) \<and> mem_be (mem d) = mem_be (mem c)"

lemma same_status_refl [simp]: "same_status c c"
  by (simp add: same_status_def)

lemma same_status_trans: "same_status c d \<Longrightarrow> same_status d e \<Longrightarrow> same_status c e"
  by (simp add: same_status_def)

lemma same_status_put_reg: "r < 16 \<Longrightarrow> same_status c (put_reg r v c)"
  by (auto simp: same_status_def word_less_nat_alt)

lemma store_byte_shape: "store_byte m i v = Some m' \<Longrightarrow> mem_size m' = mem_size m \<and> mem_be m' = mem_be m"
  by (auto simp: store_byte_def split: if_splits)

lemma same_status_write_word: "core_write_word a v c = Some (r, d) \<Longrightarrow> same_status c d"
  by (auto simp: core_write_word_def memory_write_word_def same_status_def bind_eq_Some_conv Let_def
      dest!: store_byte_shape split: if_splits)

lemma same_status_write_byte: "core_write_byte a v c = Some (r, d) \<Longrightarrow> same_status c d"
  by (auto simp: core_write_byte_def memory_write_byte_def same_status_def bind_eq_Some_conv dest!: store_byte_shape)

lemma same_status_read: "core_read_word a x c = Some (r, d) \<Longrightarrow> d = c" "core_read_byte a y c = Some (q, d) \<Longrightarrow> d = c"
  by (auto simp: core_read_word_def core_read_byte_def bind_eq_Some_conv)

lemma same_status_transfer: "core_transfer k a v ld b rd c = Some (r, d) \<Longrightarrow> rd < 16 \<Longrightarrow> same_status c d"
  by (auto simp: core_transfer_def bind_eq_Some_conv Let_def same_status_put_reg split: if_splits
      dest!: same_status_write_word same_status_write_byte same_status_read)

lemma same_status_execute:
  assumes "core_execute k res ins c = Some (r, d)"
  shows "same_status c d"
proof -
  have "same_status c (core_branch ins c)"
    by (simp add: core_branch_def Let_def same_status_def)
  moreover have "same_status c (core_data_processing k res a c)" for a
    by (auto simp: core_data_processing_def put_result_def intro!: same_status_put_reg split: option.split)
  ultimately show ?thesis using assms
    by (auto simp: core_execute_def Let_def split: if_splits dest!: same_status_transfer [OF _ nibble_less])
qed

lemma core_step_keeps:
  assumes "core_step k c = Some (r, d)"
  shows "r = 0 \<and> same_status (c\<lparr>cycle_count := cycle_count c + 1\<rparr>) d"
  using assms
  by (auto simp: core_step_def core_fetch_eq bind_eq_Some_conv dest!: same_status_execute)
    (simp add: same_status_def)

subsection \<open>Runs\<close>

inductive runs :: "nat \<Rightarrow> machine \<Rightarrow> machine \<Rightarrow> bool" where
  start: "runs 0 s s"
| step: "runs n s t \<Longrightarrow> arm_step k t = Some (r, u) \<Longrightarrow> runs (Suc n) s u"

inductive_cases runs_0E: "runs 0 s u"
inductive_cases runs_SucE: "runs (Suc n) s u"

lemma step_keeps:
  assumes "arm_step k s = Some (r, u)" "room 2 (trace s)"
  shows "r = 0 \<and> same_status ((arm s)\<lparr>cycle_count := cycles s + 1\<rparr>) (arm u) \<and> same_settings (trace s) (trace u)"
proof -
  have "refines (trace s) (Some (r, u)) (core_step k (arm s))" using step.agrees [OF assms(2), of k] assms(1) by simp
  then have "core_step k (arm s) = Some (r, arm u)" "same_settings (trace s) (trace u)" by (simp_all add: refines_def)
  with core_step_keeps show ?thesis by blast
qed

lemma runs_keep:
  assumes "runs n s u" "room 2 (trace s)"
  shows "same_status ((arm s)\<lparr>cycle_count := cycles s + of_nat n\<rparr>) (arm u) \<and> same_settings (trace s) (trace u)"
  using assms
proof (induction rule: runs.induct)
  case (start s)
  then show ?case by (simp add: same_status_def same_settings_def)
next
  case (step n s t k r u)
  then have t: "same_status ((arm s)\<lparr>cycle_count := cycles s + of_nat n\<rparr>) (arm t)" "same_settings (trace s) (trace t)"
    by auto
  then have "room 2 (trace t)" using step.prems room_same by blast
  from step_keeps [OF step.hyps(2) this] t show ?case
    by (auto simp: same_status_def algebra_simps intro: same_settings_trans)
qed

lemma arm_create_state:
  assumes "room 1 t"
  shows "\<exists>s. arm_create m block count t out = Some s \<and> same_settings t (trace s) \<and>
    arm s = \<lparr>cycle_count = 0, reg = \<lparr>r_data = block(16 := 0x1d3)\<rparr>, mem = m\<rparr>"
proof -
  let ?s = "\<lparr>arm = \<lparr>cycle_count = count, reg = registers_create block, mem = m\<rparr>, trace = t, console = out\<rparr>"
  have "core_exception (ucast RESET) (arm ?s) = Some ((), (arm ?s)\<lparr>reg := \<lparr>r_data = block(16 := 0x1d3)\<rparr>\<rparr>)"
    by (simp add: core_exception_def core_write_usr_register_def write_usr_register_def in_a_privileged_mode_def
        get_mode_def write_cpsr_def registers_create_def)
  from except.runs [OF this] assms obtain u where
    "arm_exception (ucast RESET) ?s = Some ((), u)" "arm u = (arm ?s)\<lparr>reg := \<lparr>r_data = block(16 := 0x1d3)\<rparr>\<rparr>"
    "same_settings t (trace u)" by auto
  then show ?thesis by (simp add: arm_create_def)
qed

text \<open>A machine in supervisor mode whose memory of 16 bytes holds one instruction at address 0, with
  register \<open>i\<close> holding \<open>i\<close>.\<close>

definition demo :: "u32 \<Rightarrow> machine" where
  "demo ins = \<lparr>arm = \<lparr>cycle_count = 0, reg = \<lparr>r_data = (\<lambda>i. of_nat i)(15 := 0, 16 := 0x1d3)\<rparr>,
     mem = put_bytes (small_memory 1) 0 (word_bytes 1 ins)\<rparr>, trace = trace_initial, console = []\<rparr>"

lemma demo_simps [simp]:
  "room n (trace (demo ins)) \<longleftrightarrow> n < 128" "aligned_pc (arm (demo ins))" "executes (arm (demo ins)) ins"
  "r_data (regs (demo ins)) = (\<lambda>i. of_nat i)(15 := 0, 16 := 0x1d3)" "cycles (demo ins) = 0"
  "memo (demo ins) = put_bytes (small_memory 1) 0 (word_bytes 1 ins)"
proof -
  show a: "aligned_pc (arm (demo ins))" by (simp add: demo_def aligned_pc_def)
  have "r_data (regs (demo ins)) 15 = 0" by (simp add: demo_def)
  then show "executes (arm (demo ins)) ins"
    using word_at_put_word [of "small_memory 1" 0 ins]
    by (simp add: executes_def aligned_fetch [OF a]) (simp add: demo_def)
qed (simp_all add: demo_def room_def trace_initial_def)

subsection \<open>Properties of every step\<close>

text \<open>C2: a step of the simulator is a step of the processor alone: \<open>arm_step\<close> succeeds exactly when \<open>core_step\<close> does,
  returns the same value and leaves the same processor, and the trace keeps its options and the height of
  its location stack, which needs two free entries.\<close>

theorem step_refines:
  assumes "room 2 (trace s)"
  shows "refines (trace s) (arm_step k s) (core_step k (arm s))"
  by (rule step.agrees [OF assms])

theorem step_refines_witness:
  "refines trace_initial (arm_step host (demo 0xEF000000)) (Some (0, fetched (arm (demo 0xEF000000))))"
proof -
  have "core_step host (arm (demo 0xEF000000)) = Some (0, fetched (arm (demo 0xEF000000)))"
    using core_step_executes [of "arm (demo 0xEF000000)" "0xEF000000" host] by (simp add: core_execute_def)
  moreover have "trace (demo 0xEF000000) = trace_initial" by (simp add: demo_def)
  moreover have "room 2 (trace (demo 0xEF000000))" by simp
  ultimately show ?thesis using step_refines [of "demo 0xEF000000" host] by simp
qed

text \<open>C5: tracing has no influence on the simulated program: two machines with the same processor, whatever
  their trace options, registered trace file and printed output, execute the next instruction alike
  (same result, same processor afterwards, or undefined behaviour in both), as long as the location stack
  has two free entries.\<close>

theorem step_ignores_trace:
  assumes "arm s = arm s'" "room 2 (trace s)" "room 2 (trace s')"
  shows "map_option (\<lambda>(r, u). (r, arm u)) (arm_step k s) = map_option (\<lambda>(r, u). (r, arm u)) (arm_step k s')"
  by (rule step.transparent [OF assms])

theorem step_ignores_trace_witness:
  "map_option (\<lambda>(r, u). (r, arm u)) (arm_step host (demo 0xE3A01005)) =
   map_option (\<lambda>(r, u). (r, arm u)) (arm_step host ((demo 0xE3A01005)\<lparr>trace := trace_add MEMORY (trace_enable trace_initial)\<rparr>))"
  by (rule step_ignores_trace) (simp_all, simp add: room_def trace_initial_def trace_add_def trace_enable_def)

text \<open>C3: no run of the simulator, from the creation of the processor on, leaves supervisor mode, changes
  CPSR or SPSR, or resizes the memory; the location stack of the trace is as high after the run as
  before it, and the cycle counter counts the instructions modulo \<open>2^32\<close>.\<close>

theorem run_invariant:
  assumes "arm_create m block count t out = Some s" "room 2 t" "runs n s u"
  shows "read_cpsr (regs u) = 0x1d3 \<and> get_mode (regs u) = SVC \<and> read_spsr (regs u) = block 17 \<and>
    mem_size (memo u) = mem_size m \<and> mem_be (memo u) = mem_be m \<and> arm_get_cycle_count u = of_nat n \<and>
    location_stack_top (trace u) = location_stack_top t"
proof -
  have "room 1 t" using assms(2) by (simp add: room_def)
  then have s: "same_settings t (trace s)" "arm s = \<lparr>cycle_count = 0, reg = \<lparr>r_data = block(16 := 0x1d3)\<rparr>, mem = m\<rparr>"
    using arm_create_state [of t m block count out] assms(1) by auto
  then have "room 2 (trace s)" using assms(2) room_same by blast
  from runs_keep [OF assms(3) this] s have
    "same_status \<lparr>cycle_count = of_nat n, reg = \<lparr>r_data = block(16 := 0x1d3)\<rparr>, mem = m\<rparr> (arm u)"
    "same_settings t (trace u)" by (auto intro: same_settings_trans)
  then show ?thesis
    by (simp add: same_status_def read_cpsr_def read_spsr_def get_mode_def current_mode_has_spsr_def Let_def
        arm_get_cycle_count_def same_settings_def)
qed

theorem run_invariant_witness:
  "\<exists>s u. arm_create (memo (demo 0xEF000000)) (\<lambda>_. 0) 7 trace_initial [] = Some s \<and> runs 1 s u \<and>
    read_cpsr (regs u) = 0x1d3 \<and> get_mode (regs u) = SVC \<and> arm_get_cycle_count u = 1"
proof -
  have room: "room 2 trace_initial" by (simp add: room_def trace_initial_def)
  define m where "m = memo (demo 0xEF000000)"
  obtain s where s: "arm_create m (\<lambda>_. 0) 7 trace_initial [] = Some s"
    "same_settings trace_initial (trace s)" "arm s = \<lparr>cycle_count = 0, reg = \<lparr>r_data = (\<lambda>_. 0)(16 := 0x1d3)\<rparr>, mem = m\<rparr>"
    using arm_create_state [of trace_initial m "\<lambda>_. 0" 7 "[]"] room by (auto simp: room_def)
  have "aligned_pc (arm s)" by (simp add: aligned_pc_def s)
  then have "executes (arm s) 0xEF000000"
    using demo_simps(3) [of "0xEF000000"] by (simp add: executes_def aligned_fetch m_def s)
  moreover have "room 2 (trace s)" using room room_same s(2) by blast
  ultimately obtain u where "arm_step host s = Some (0, u)"
    using step.runs [where k = host and s = s and c = "fetched (arm s)"]
    by (auto simp: core_step_executes core_execute_def)
  then have "runs 1 s u" using runs.step [OF runs.start] by fastforce
  with run_invariant [OF s(1) room this] s(1) show ?thesis unfolding m_def by auto
qed

text \<open>\<open>arm_step\<close> always reports success: whatever the instruction, \<open>arm_execute_instruction\<close> returns 0 and
  the exception path of \<open>arm_step\<close> is never taken.  Undefined instructions, software interrupts and failed
  fetches are not reported.\<close>

theorem step_reports_success:
  "arm_step k s = map_option (\<lambda>(_, u). (0, u)) (arm_execute_instruction k s)"
  using execute_returns_0 [of k s]
  by (cases "arm_execute_instruction k s") (auto simp: arm_step_def)

text \<open>An instruction of the coprocessor and software-interrupt class (bits 27 and 26 set) only fetches:
  PC moves by 4, the cycle counter by 1, and nothing else of the processor changes.  In particular
  \<open>swi 0x123456\<close> does not end the simulation and no other \<open>swi\<close> enters an exception.\<close>

theorem step_swi_ignored:
  assumes "room 2 (trace s)" "aligned_pc (arm s)" "executes (arm s) ins" "take_bit 2 (drop_bit 26 ins) = 3"
  shows "\<exists>u. arm_step k s = Some (0, u) \<and> memo u = memo s \<and> cycles u = cycles s + 1 \<and>
    r_data (regs u) = (r_data (regs s))(15 := r_data (regs s) 15 + 4)"
proof -
  have "core_step k (arm s) = Some (0, fetched (arm s))"
    using assms by (simp add: core_step_executes core_execute_def)
  from step.runs [OF this assms(1)] show ?thesis using aligned_fetch [OF assms(2)] by auto
qed

theorem step_swi_ignored_witness:
  "\<exists>u. arm_step host (demo 0xEF123456) = Some (0, u) \<and> memo u = memo (demo 0xEF123456) \<and> cycles u = cycles (demo 0xEF123456) + 1 \<and>
    r_data (regs u) = (r_data (regs (demo 0xEF123456)))(15 := r_data (regs (demo 0xEF123456)) 15 + 4) \<and>
    arm_coprocessor_others_swi host 0xEF123456 = Exited 0"
  using step_swi_ignored [where s = "demo 0xEF123456" and ins = "0xEF123456" and k = host] by (simp add: arm_coprocessor_others_swi_def)

text \<open>A fetch beyond the end of the memory is taken for the instruction \<open>0xFFFFFFFF\<close>, the result \<open>-1\<close> of
  \<open>memory_read_word\<close>: no prefetch abort, PC moves on by 4.\<close>

theorem step_fetch_out_of_range:
  assumes "room 2 (trace s)" "aligned_pc (arm s)" "mem_size (memo s) < unat (r_data (regs s) 15)"
  shows "\<exists>u. arm_step k s = Some (0, u) \<and> memo u = memo s \<and> cycles u = cycles s + 1 \<and>
    r_data (regs u) = (r_data (regs s))(15 := r_data (regs s) 15 + 4)"
proof -
  have "core_step k (arm s) = Some (0, fetched (arm s))"
    using assms aligned_fetch [OF assms(2)]
    by (simp add: core_step_def core_fetch_eq memory_read_word_def core_execute_def mask_eq_exp_minus_1)
  from step.runs [OF this assms(1)] show ?thesis using aligned_fetch [OF assms(2)] by auto
qed


theorem step_fetch_out_of_range_witness:
  "\<exists>s u. r_data (regs s) 15 = 20 \<and> arm_step host s = Some (0, u) \<and> memo u = memo s \<and>
     r_data (regs u) = (r_data (regs s))(15 := 20 + 4)"
proof -
  let ?s = "(demo 0)\<lparr>arm := put_reg 15 20 (arm (demo 0))\<rparr>"
  have p: "r_data (regs ?s) 15 = 20" by simp
  have "room 2 (trace ?s)" "aligned_pc (arm ?s)" "mem_size (memo ?s) < unat (r_data (regs ?s) 15)"
    by (simp_all add: aligned_pc_def)
  from step_fetch_out_of_range [OF this, of host] show ?thesis using p by metis
qed

subsection \<open>Conditions\<close>

text \<open>The condition field of the architecture (ARM Architecture Reference Manual, A3.2), on the flags of CPSR;
  \<open>AL\<close> and the unconditional space hold always.\<close>

definition condition_holds :: "u32 \<Rightarrow> nat \<Rightarrow> bool" where
  "condition_holds cpsr cond =
     (let n = bit cpsr 31; z = bit cpsr 30; c = bit cpsr 29; v = bit cpsr 28 in
      [z, \<not> z, c, \<not> c, n, \<not> n, v, \<not> v, c \<and> \<not> z, \<not> c \<or> z, n = v, n \<noteq> v, \<not> z \<and> n = v, z \<or> n \<noteq> v, True, True] ! cond)"

lemma condition_switch_correct:
  assumes "cond < 16" "cond \<noteq> 9"
  shows "condition_switch k cpsr cond =
    (if condition_holds cpsr (unat cond) then if cond < 14 then 1 else -1 else missing_return k)"
proof -
  have "cond = 0 \<or> cond = 1 \<or> cond = 2 \<or> cond = 3 \<or> cond = 4 \<or> cond = 5 \<or> cond = 6 \<or> cond = 7 \<or>
    cond = 8 \<or> cond = 10 \<or> cond = 11 \<or> cond = 12 \<or> cond = 13 \<or> cond = 14 \<or> cond = 15"
    using assms unfolding word_unat_eq_iff word_less_nat_alt by simp arith
  then show ?thesis
    by (elim disjE) (auto simp: condition_switch_def condition_holds_def return_1_if_def Let_def)
qed

text \<open>C28: for every condition but \<open>LS\<close>, \<open>ConditionPassed\<close> is non-zero when the condition of the architecture
  holds for CPSR, and when it does not the call ends without a \<open>return\<close> and has an indeterminate value.  It
  leaves the processor unchanged.\<close>

theorem condition_passed:
  assumes "room 1 (trace s)" "cond < 16" "cond \<noteq> 9"
  shows "\<exists>r u. ConditionPassed k cond s = Some (r, u) \<and> arm u = arm s \<and>
    (if condition_holds (read_cpsr (regs s)) (unat cond) then r \<noteq> 0 else r = missing_return k)"
proof -
  have "same_settings (trace s) (trace s)" by (simp add: same_settings_def)
  from refines_ConditionPassed [OF this assms(1) _ refl, of k cond] show ?thesis
    by (cases "condition_holds (read_cpsr (regs s)) (unat cond)")
      (auto simp: refines_Some condition_switch_correct assms(2,3) split: if_splits)
qed

theorem condition_passed_witness:
  "\<exists>r u. ConditionPassed host 1 (demo 0) = Some (r, u) \<and> arm u = arm (demo 0) \<and> r \<noteq> 0"
  using condition_passed [of "demo 0" 1 host] by (simp add: condition_holds_def read_cpsr_def)

text \<open>The condition \<open>LS\<close> (unsigned lower or same, C clear or Z set) is tested as C clear and Z set: with
  both flags clear, where the condition holds, the call has the value it has for a failed condition.\<close>

theorem condition_LS_wrong:
  "condition_holds 0 9 \<and> condition_switch k 0 9 = missing_return k \<and>
   condition_holds 0x60000000 9 \<and> condition_switch k 0x60000000 9 = missing_return k"
  by (simp add: condition_holds_def condition_switch_def return_1_if_def)

subsection \<open>Data processing\<close>

text \<open>The operations of the architecture (A3.4.1), as the comments of the source state them.\<close>

definition arm_alu :: "nat \<Rightarrow> u32 \<Rightarrow> u32 \<Rightarrow> bool \<Rightarrow> u32 option" where
  "arm_alu opcode a b carry =
     (if opcode \<in> {8, 9, 10, 11} then None
      else Some ([a AND b, a XOR b, a - b, b - a, a + b, a + b + of_bool carry, a - b - of_bool (\<not> carry),
        b - a - of_bool (\<not> carry), 0, 0, 0, 0, a OR b, b, a AND NOT b, NOT b] ! opcode))"

definition opcode_of :: "u32 \<Rightarrow> nat" where
  "opcode_of ins = unat (take_bit 4 (drop_bit 21 ins))"

definition is_data_processing :: "u32 \<Rightarrow> bool" where
  "is_data_processing ins \<longleftrightarrow> take_bit 2 (drop_bit 26 ins) = 0 \<and> (take_bit 2 (drop_bit 23 ins) = 2 \<longrightarrow> bit ins 20)"

text \<open>The operand of an instruction with a rotated 8-bit constant or with an unshifted register.\<close>

definition plain_operand :: "u32 \<Rightarrow> bool" where
  "plain_operand ins \<longleftrightarrow> bit ins 25 \<or> take_bit 8 (drop_bit 4 ins) = 0"

definition arm_operand2 :: "u32 \<Rightarrow> arm_core_data \<Rightarrow> u32" where
  "arm_operand2 ins c =
     (if bit ins 25 then word_rotr (2 * unat (take_bit 4 (drop_bit 8 ins))) (take_bit 8 ins)
      else rval c (ucast (take_bit 4 ins)))"

lemma opcode_less: "opcode_of ins < 16"
  unfolding opcode_of_def unsigned_take_bit_eq using take_bit_nat_less_exp [of 4 "unat (drop_bit 21 ins)"] by simp

lemma word_rotr_0 [simp]: "word_rotr 0 (w :: u32) = w"
  by (auto intro: bit_word_eqI simp: bit_word_rotr_iff)

lemma operand2_plain:
  assumes "plain_operand ins" "shl_by_width_keeps_or_clears k"
  shows "operand2_value k ins c = arm_operand2 ins c"
proof (cases "bit ins 25")
  case True
  define r where "r = take_bit 4 (drop_bit 8 ins)"
  have r: "unat r < 16" unfolding r_def unsigned_take_bit_eq
    using take_bit_nat_less_exp [of 4 "unat (drop_bit 8 ins)"] by simp
  then have r2: "unat (r * 2) = 2 * unat r" by (simp add: unat_word_ariths)
  have "r * 2 < 32" using r r2 by (simp add: word_less_nat_alt)
  moreover have "r = 0 \<or> r * 2 \<noteq> 0" using r2 by (auto simp: word_unat_eq_iff)
  ultimately show ?thesis using True small_count [of "r * 2"] ror_0 [OF assms(2)]
    by (auto simp: operand2_value_def arm_operand2_def r_def [symmetric] ror_eq r2)
next
  case False
  then have f: "take_bit 8 (drop_bit 4 ins) = 0" using assms(1) by (simp add: plain_operand_def)
  have "take_bit 3 (drop_bit 4 ins) = take_bit 3 (take_bit 8 (drop_bit 4 ins))" by simp
  moreover have "take_bit 5 (drop_bit 7 ins) = drop_bit 3 (take_bit 8 (drop_bit 4 ins))"
    by (simp add: drop_bit_take_bit)
  ultimately have "take_bit 3 (drop_bit 4 ins) = 0" "take_bit 5 (drop_bit 7 ins) = 0" using f by simp_all
  then show ?thesis using False
    by (simp add: operand2_value_def arm_operand2_def shifter_value_def Let_def)
qed


lemma rval_less: "(ucast (take_bit 4 (w :: u32)) :: u8) \<noteq> 16"
  using nibble_less [of w] by (auto simp: word_less_nat_alt)

lemma core_step_data_processing:
  assumes "executes c ins" "is_data_processing ins"
  shows "core_step k c = Some (0, core_data_processing k ins (rval (fetched c) (ucast (take_bit 4 (drop_bit 16 ins)))) (fetched c))"
  using assms by (auto simp: core_step_executes core_execute_def is_data_processing_def Let_def)

lemma cpsr_fetched [simp]: "read_cpsr (reg (fetched c)) = read_cpsr (reg c)"
  "core_condition k ins (fetched c) = core_condition k ins c" "carry_flag (fetched c) = carry_flag c"
  by (simp_all add: read_cpsr_def core_condition_def carry_flag_def)

text \<open>C1: an \<open>AND\<close>, \<open>EOR\<close>, \<open>SUB\<close>, \<open>RSB\<close>, \<open>ADD\<close>, \<open>ADC\<close>, \<open>SBC\<close>, \<open>RSC\<close>, \<open>ORR\<close> or \<open>MOV\<close> whose condition passes, with a
  rotated constant or an unshifted register as second operand, computes what the architecture says: \<open>Rd\<close> receives the result of the operation on \<open>Rn\<close>, the operand and the carry flag,
  with PC read 8 bytes ahead, and nothing else changes but PC and the cycle counter.  The host must either
  keep or clear the operand of a shift by 32, which \<open>ror\<close> by 0 evaluates.  The other opcodes are the subject of
  \<open>step_comparison_no_effect\<close> and \<open>step_bic_mvn\<close>.\<close>

theorem step_data_processing:
  assumes "room 2 (trace s)" "executes (arm s) ins" "is_data_processing ins" "plain_operand ins"
    and "core_condition k ins (arm s)" "opcode_of ins \<in> {0, 1, 2, 3, 4, 5, 6, 7, 12, 13}" "shl_by_width_keeps_or_clears k"
  shows "\<exists>u v. arm_step k s = Some (0, u) \<and>
    arm_alu (opcode_of ins) (rval (fetched (arm s)) (ucast (take_bit 4 (drop_bit 16 ins))))
      (arm_operand2 ins (fetched (arm s))) (carry_flag (arm s)) = Some v \<and>
    arm u = put_reg (ucast (take_bit 4 (drop_bit 12 ins))) v (fetched (arm s))"
proof -
  have "alu_result (opcode_of ins) a b f = arm_alu (opcode_of ins) a b f \<and> arm_alu (opcode_of ins) a b f \<noteq> None"
    for a b f using assms(6) by (auto simp: alu_result_def arm_alu_def)
  then obtain v where v: "alu_result (opcode_of ins) (rval (fetched (arm s)) (ucast (take_bit 4 (drop_bit 16 ins))))
      (arm_operand2 ins (fetched (arm s))) (carry_flag (arm s)) = Some v"
    "arm_alu (opcode_of ins) (rval (fetched (arm s)) (ucast (take_bit 4 (drop_bit 16 ins))))
      (arm_operand2 ins (fetched (arm s))) (carry_flag (arm s)) = Some v" by fastforce
  then have "core_step k (arm s) = Some (0, put_reg (ucast (take_bit 4 (drop_bit 12 ins))) v (fetched (arm s)))"
    using assms by (simp add: core_step_data_processing core_data_processing_def operand2_plain opcode_of_def [symmetric]
        put_result_def)
  from step.runs [OF this assms(1)] v(2) show ?thesis by auto
qed

text \<open>\<open>ADD r1, r2, #5\<close>: 2 + 5 goes to \<open>r1\<close>.\<close>

theorem step_data_processing_witness:
  "\<exists>u. arm_step host (demo 0xE2821005) = Some (0, u) \<and> arm u = put_reg 1 7 (fetched (arm (demo 0xE2821005)))"
proof -
  have c: "opcode_of 0xE2821005 = 4" "is_data_processing 0xE2821005" "plain_operand 0xE2821005"
    by (simp_all add: opcode_of_def is_data_processing_def plain_operand_def)
  have "core_condition host 0xE2821005 (arm (demo 0xE2821005))"
    by (simp add: core_condition_def condition_switch_def)
  then show ?thesis
    using step_data_processing [of "demo 0xE2821005" "0xE2821005" host] c
    by (simp add: arm_alu_def arm_operand2_def rval_def)
qed

text \<open>The comparisons \<open>TST\<close>, \<open>TEQ\<close>, \<open>CMP\<close> and \<open>CMN\<close> have no effect: the flags they compute are dropped, and
  the step only fetches, whether the condition passes or not.\<close>

theorem step_comparison_no_effect:
  assumes "room 2 (trace s)" "executes (arm s) ins" "is_data_processing ins" "opcode_of ins \<in> {8, 9, 10, 11}"
  shows "\<exists>u. arm_step k s = Some (0, u) \<and> arm u = fetched (arm s)"
proof -
  have "core_step k (arm s) = Some (0, fetched (arm s))"
    using assms by (auto simp: core_step_data_processing core_data_processing_def opcode_of_def [symmetric]
        put_result_def alu_result_def)
  from step.runs [OF this assms(1)] show ?thesis by auto
qed

text \<open>\<open>CMP r1, #1\<close> with \<open>r1\<close> holding 1: the Z flag stays clear.\<close>

theorem step_comparison_no_effect_witness:
  "\<exists>u. arm_step host (demo 0xE3510001) = Some (0, u) \<and> \<not> bit (read_cpsr (regs u)) 30"
  using step_comparison_no_effect [of "demo 0xE3510001" "0xE3510001" host]
  by (auto simp: opcode_of_def is_data_processing_def read_cpsr_def)

text \<open>\<open>BIC\<close> and \<open>MVN\<close> use the logical negation of C: \<open>MVN\<close> writes 1 when its operand is 0 and 0 otherwise,
  \<open>BIC\<close> keeps bit 0 of \<open>Rn\<close> or nothing, where the comments announce the complement of the operand.\<close>

theorem step_bic_mvn:
  assumes "room 2 (trace s)" "executes (arm s) ins" "is_data_processing ins" "plain_operand ins"
    and "core_condition k ins (arm s)" "opcode_of ins \<in> {14, 15}" "shl_by_width_keeps_or_clears k"
  shows "\<exists>u. arm_step k s = Some (0, u) \<and>
    arm u = put_reg (ucast (take_bit 4 (drop_bit 12 ins)))
      (let b = arm_operand2 ins (fetched (arm s)) in
       if b \<noteq> 0 then 0
       else if opcode_of ins = 15 then 1
       else rval (fetched (arm s)) (ucast (take_bit 4 (drop_bit 16 ins))) AND 1) (fetched (arm s))"
proof -
  let ?b = "arm_operand2 ins (fetched (arm s))"
  let ?a = "rval (fetched (arm s)) (ucast (take_bit 4 (drop_bit 16 ins)))"
  let ?v = "if ?b \<noteq> 0 then 0 else if opcode_of ins = 15 then 1 else ?a AND 1"
  have "alu_result (opcode_of ins) ?a ?b (carry_flag (arm s)) = Some ?v"
    using assms(6) by (auto simp: alu_result_def c_not_def)
  then have "core_step k (arm s) = Some (0, put_reg (ucast (take_bit 4 (drop_bit 12 ins))) ?v (fetched (arm s)))"
    using assms(2-5,7) by (simp add: core_step_data_processing core_data_processing_def operand2_plain
        opcode_of_def [symmetric] put_result_def)
  from step.runs [OF this assms(1)] show ?thesis by (auto simp: Let_def)
qed

text \<open>\<open>MVN r1, #0\<close> writes 1, the architecture \<open>0xFFFFFFFF\<close>.\<close>

theorem step_bic_mvn_witness:
  "\<exists>u. arm_step host (demo 0xE3E01000) = Some (0, u) \<and> r_data (regs u) 1 = 1 \<and> arm_alu 15 0 0 False = Some 0xFFFFFFFF"
proof -
  have c: "opcode_of 0xE3E01000 = 15" "is_data_processing 0xE3E01000" "plain_operand 0xE3E01000"
    by (simp_all add: opcode_of_def is_data_processing_def plain_operand_def)
  have "core_condition host 0xE3E01000 (arm (demo 0xE3E01000))"
    by (simp add: core_condition_def condition_switch_def)
  moreover have "word_rotr 0 (0 :: u32) = 0" by simp
  ultimately show ?thesis
    using step_bic_mvn [of "demo 0xE3E01000" "0xE3E01000" host] c
    by (auto simp: arm_alu_def arm_operand2_def)
qed

subsection \<open>Shifted operands\<close>

text \<open>The operand for each kind, with the amount \<open>n\<close> of the unassigned variable.\<close>

lemma shifter_value_kinds:
  defines "kind \<equiv> \<lambda>ins :: u32. unat (take_bit 3 (drop_bit 4 ins))" and "n \<equiv> \<lambda>k. unat (uninit_shift_imm k)"
  shows "kind ins = 0 \<Longrightarrow> shifter_value k ins rm = push_bit (unat (take_bit 5 (drop_bit 7 ins))) rm"
    and "kind ins = 1 \<Longrightarrow> shifter_value k ins rm = push_bit (unat (take_bit 4 (drop_bit 8 ins))) rm"
    and "kind ins = 2 \<Longrightarrow> n k < 32 \<Longrightarrow> shifter_value k ins rm = (if n k = 0 then 0 else drop_bit (n k) rm)"
    and "kind ins = 3 \<Longrightarrow> shifter_value k ins rm = drop_bit (unat (take_bit 4 (drop_bit 8 ins))) rm"
    and "kind ins = 4 \<Longrightarrow> n k < 32 \<Longrightarrow> shifter_value k ins rm =
      (if n k = 0 then if bit rm 31 then 0xFFFFFFFF else 0 else signed_drop_bit (n k) rm)"
    and "kind ins = 5 \<Longrightarrow> shifter_value k ins rm = signed_drop_bit (unat (take_bit 4 (drop_bit 8 ins))) rm"
    and "kind ins = 6 \<Longrightarrow> n k < 32 \<Longrightarrow> shifter_value k ins rm =
      (if unat (take_bit 5 (drop_bit 7 ins)) = 0 \<or> n k = 0 then drop_bit 1 rm else word_rotr (n k) rm)"
    and "kind ins = 6 \<Longrightarrow> unat (take_bit 5 (drop_bit 7 ins)) = 0 \<Longrightarrow> shifter_value k ins rm = drop_bit 1 rm"
    and "kind ins = 7 \<Longrightarrow> shifter_value k ins rm = word_rotr (unat (take_bit 4 (drop_bit 8 ins))) rm"
proof -
  have u: "unat w = i \<longleftrightarrow> w = of_nat i" if "i < 8" for i and w :: u32
    using that by (auto simp: word_unat_eq_iff unsigned_of_nat take_bit_nat_eq_self)
  have z: "unat w = 0 \<longleftrightarrow> w = 0" for w :: u32 by (simp add: unat_eq_0)
  note s = shifter_value_def kind_def n_def u z Let_def
  have w: "uninit_shift_imm k \<noteq> 0" "uninit_shift_imm k < 32" if "n k \<noteq> 0" "n k < 32"
    using that by (auto simp: n_def word_less_nat_alt)
  note c = small_count [OF w]
  show "kind ins = 0 \<Longrightarrow> shifter_value k ins rm = push_bit (unat (take_bit 5 (drop_bit 7 ins))) rm"
    "kind ins = 1 \<Longrightarrow> shifter_value k ins rm = push_bit (unat (take_bit 4 (drop_bit 8 ins))) rm"
    "kind ins = 3 \<Longrightarrow> shifter_value k ins rm = drop_bit (unat (take_bit 4 (drop_bit 8 ins))) rm"
    "kind ins = 5 \<Longrightarrow> shifter_value k ins rm = signed_drop_bit (unat (take_bit 4 (drop_bit 8 ins))) rm"
    "kind ins = 6 \<Longrightarrow> unat (take_bit 5 (drop_bit 7 ins)) = 0 \<Longrightarrow> shifter_value k ins rm = drop_bit 1 rm"
    "kind ins = 7 \<Longrightarrow> shifter_value k ins rm = word_rotr (unat (take_bit 4 (drop_bit 8 ins))) rm"
    by (simp_all add: s)
  show "kind ins = 2 \<Longrightarrow> n k < 32 \<Longrightarrow> shifter_value k ins rm = (if n k = 0 then 0 else drop_bit (n k) rm)"
    using w(2) by (auto simp: s c_shr_def word_less_def)
  show "kind ins = 4 \<Longrightarrow> n k < 32 \<Longrightarrow> shifter_value k ins rm =
      (if n k = 0 then if bit rm 31 then 0xFFFFFFFF else 0 else signed_drop_bit (n k) rm)"
    using c by (auto simp: s asr_eq)
  show "kind ins = 6 \<Longrightarrow> n k < 32 \<Longrightarrow> shifter_value k ins rm =
      (if unat (take_bit 5 (drop_bit 7 ins)) = 0 \<or> n k = 0 then drop_bit 1 rm else word_rotr (n k) rm)"
    using c by (auto simp: s ror_eq)
qed

text \<open>C40: the value of a shifted register operand, for each of the eight kinds of shift.  The amount of a shift by
  register is the number of the register \<open>Rs\<close>, not its content; \<open>LSL\<close> by a constant is the one shift by a
  constant that uses its amount.  \<open>LSR\<close>, \<open>ASR\<close> and \<open>ROR\<close> by a constant use the unassigned variable \<open>shift_imm\<close>: the
  value is the shift of \<open>Rm\<close> by what the variable holds, when it is less than 32; 0 stands for 32 in \<open>LSR\<close>, which
  gives 0, and in \<open>ASR\<close>, which gives 32 copies of the sign, and for the rotate with extend in \<open>ROR\<close>, as does a
  constant 0.  The rotate with extend shifts in 0 whatever the carry flag.  The operand does not depend on any
  register but \<open>Rm\<close>.\<close>

theorem shifted_operand:
  assumes "room 1 (trace s)"
  shows "let rm = rval (arm s) (ucast (take_bit 4 ins)); kind = unat (take_bit 3 (drop_bit 4 ins));
       imm = unat (take_bit 5 (drop_bit 7 ins)); rs = unat (take_bit 4 (drop_bit 8 ins));
       n = unat (uninit_shift_imm k) in
    \<exists>v carry u. shiftedRegisterOperand k ins s = Some ((v, carry), u) \<and> arm u = arm s \<and>
    (kind = 0 \<longrightarrow> v = push_bit imm rm) \<and>
    (kind = 1 \<longrightarrow> v = push_bit rs rm) \<and>
    (kind = 2 \<and> n < 32 \<longrightarrow> v = (if n = 0 then 0 else drop_bit n rm)) \<and>
    (kind = 3 \<longrightarrow> v = drop_bit rs rm) \<and>
    (kind = 4 \<and> n < 32 \<longrightarrow> v = (if n = 0 then if bit rm 31 then 0xFFFFFFFF else 0 else signed_drop_bit n rm)) \<and>
    (kind = 5 \<longrightarrow> v = signed_drop_bit rs rm) \<and>
    (kind = 6 \<and> n < 32 \<longrightarrow> v = (if imm = 0 \<or> n = 0 then drop_bit 1 rm else word_rotr n rm)) \<and>
    (kind = 6 \<and> imm = 0 \<longrightarrow> v = drop_bit 1 rm) \<and>
    (kind = 7 \<longrightarrow> v = word_rotr rs rm)"
proof -
  define rm where "rm = rval (arm s) (ucast (take_bit 4 ins))"
  have "same_settings (trace s) (trace s)" by (simp add: same_settings_def)
  from refines_shiftedRegisterOperand [OF this assms(1) _ refl, of k ins]
  obtain carry u where "shiftedRegisterOperand k ins s = Some ((shifter_value k ins rm, carry), u)" "arm u = arm s"
    by (auto simp: refines_Some rm_def)
  then show ?thesis unfolding Let_def rm_def [symmetric]
    by (intro exI [of _ "shifter_value k ins rm"] exI [of _ carry] exI [of _ u])
      (auto simp: shifter_value_kinds)
qed

text \<open>\<open>r3, LSL r2\<close>, with \<open>r3 = 3\<close> and \<open>r2 = 2\<close>, and with \<open>r2\<close> changed to 30: the operand is the same.\<close>

theorem shifted_operand_witness:
  "\<exists>c1 c2 u1 u2. shiftedRegisterOperand host 0x213 (demo 0) = Some ((12, c1), u1) \<and>
    shiftedRegisterOperand host 0x213 ((demo 0)\<lparr>arm := put_reg 2 30 (arm (demo 0))\<rparr>) = Some ((12, c2), u2)"
  using shifted_operand [of "demo 0" "0x213" host]
    shifted_operand [of "(demo 0)\<lparr>arm := put_reg 2 30 (arm (demo 0))\<rparr>" "0x213" host]
  by (auto simp: rval_def Let_def)

subsection \<open>Branches\<close>

text \<open>C27: a branch whose condition passes jumps to the address of the instruction, plus 8, plus the sign-extended
  24-bit field times 4, as the architecture says.  With the link bit, \<open>r14\<close> receives the address of the branch
  plus 8, one instruction too far: the architecture returns to the instruction after the branch.\<close>

theorem step_branch:
  assumes "room 2 (trace s)" "aligned_pc (arm s)" "executes (arm s) ins"
    and "take_bit 2 (drop_bit 26 ins) = 2" "bit ins 25" "core_condition k ins (arm s)"
  shows "\<exists>u. arm_step k s = Some (0, u) \<and> memo u = memo s \<and> cycles u = cycles s + 1 \<and>
    r_data (regs u) = (let pc = r_data (regs s) 15 in
      (r_data (regs s))(15 := pc + 8 + branch_offset ins, 14 := if bit ins 24 then pc + 8 else r_data (regs s) 14))"
proof -
  have step: "core_step k (arm s) = Some (0, core_branch ins (fetched (arm s)))"
    using assms by (simp add: core_step_executes core_execute_def)
  have pc: "rval (put_reg 14 v c) 15 = rval c 15" for v c by (simp add: rval_def)
  have "r_data (reg (core_branch ins (fetched (arm s)))) = (let pc = r_data (regs s) 15 in
      (r_data (regs s))(15 := pc + 8 + branch_offset ins, 14 := if bit ins 24 then pc + 8 else r_data (regs s) 14))"
    using aligned_fetch [OF assms(2)] by (auto simp: core_branch_def Let_def pc fun_eq_iff)
  moreover have "mem (core_branch ins (fetched (arm s))) = memo s" "cycle_count (core_branch ins (fetched (arm s))) = cycles s + 1"
    by (simp_all add: core_branch_def Let_def)
  ultimately show ?thesis using step.runs [OF step assms(1)] by auto
qed

text \<open>\<open>BL .-4\<close> at address 0: PC is \<open>-4\<close> and \<open>r14\<close> is 8.\<close>

theorem step_branch_witness:
  "\<exists>u. arm_step host (demo 0xEBFFFFFD) = Some (0, u) \<and> r_data (regs u) 15 = -4 \<and> r_data (regs u) 14 = 8"
proof -
  have o: "branch_offset 0xEBFFFFFD = -12" by (simp add: branch_offset_def signed_take_bit_def mask_eq_exp_minus_1)
  have "core_condition host 0xEBFFFFFD (arm (demo 0xEBFFFFFD))"
    by (simp add: core_condition_def condition_switch_def)
  with step_branch [of "demo 0xEBFFFFFD" "0xEBFFFFFD" host] show ?thesis by (auto simp: o Let_def)
qed

subsection \<open>Transfers\<close>

definition rd_of :: "u32 \<Rightarrow> u8" where
  "rd_of ins = ucast (take_bit 4 (drop_bit 12 ins))"

definition is_transfer :: "u32 \<Rightarrow> bool \<Rightarrow> bool \<Rightarrow> bool" where
  "is_transfer ins load byte \<longleftrightarrow> take_bit 2 (drop_bit 26 ins) = 1 \<and> bit ins 20 = load \<and> bit ins 22 = byte"

lemma core_step_transfer:
  assumes "executes c ins" "is_transfer ins load byte" "core_condition k ins c"
  shows "core_step k c = map_option (\<lambda>(_, d). (0, d)) (core_transfer k (arm_load_store k ins)
     (rval (fetched c) (rd_of ins)) load byte (rd_of ins) (fetched c))"
  using assms
  by (auto simp: core_step_executes core_execute_def is_transfer_def rd_of_def Let_def Option.bind_map_option
     map_option_case split: option.split)

lemma load_store_cases:
  assumes "bit ins 25 \<longrightarrow> take_bit 8 (drop_bit 4 ins) = 0"
  shows "arm_load_store k ins =
      (let n = take_bit 4 (drop_bit 16 ins); off = (if bit ins 25 then take_bit 4 ins else take_bit 12 ins) in
       if bit ins 23 then n + off else n - off) \<and>
    (bit ins 23 \<longrightarrow> unat (arm_load_store k ins) \<le> 4110)"
proof -
  define n where "n = take_bit 4 (drop_bit 16 ins)"
  define off where "off = (if bit ins 25 then take_bit 4 ins else take_bit 12 ins)"
  have a: "arm_load_store k ins = (if bit ins 23 then n + off else n - off)"
    using assms by (simp add: arm_load_store_def getValueFromIns_def Let_def n_def off_def)
  have "unat n \<le> 15" "unat off \<le> 4095"
    using take_bit_nat_less_exp [of 4 "unat (drop_bit 16 ins)"] take_bit_nat_less_exp [of 4 "unat ins"]
      take_bit_nat_less_exp [of 12 "unat ins"]
    by (auto simp: n_def off_def unsigned_take_bit_eq)
  then have "unat (n + off) \<le> 4110" by (simp add: unat_word_ariths)
  with a show ?thesis by (simp add: n_def off_def Let_def)
qed

text \<open>The address of a transfer with a constant or an unscaled register offset is the \<^emph>\<open>number\<close> of the register
  \<open>Rn\<close> plus or minus the constant or the number of the register \<open>Rm\<close>; the contents of the registers, which the
  architecture uses, are never read.  With a positive offset no address above 4110 is ever reached.\<close>

theorem load_store_address:
  assumes "bit ins 25 \<longrightarrow> take_bit 8 (drop_bit 4 ins) = 0"
  shows "arm_load_store k ins =
      (let n = take_bit 4 (drop_bit 16 ins); off = (if bit ins 25 then take_bit 4 ins else take_bit 12 ins) in
       if bit ins 23 then n + off else n - off) \<and>
    (bit ins 23 \<longrightarrow> unat (arm_load_store k ins) \<le> 4110)"
  using assms by (rule load_store_cases)

text \<open>\<open>LDR r1, [r2, #8]\<close> reads at address 10.\<close>

theorem load_store_address_witness: "arm_load_store host 0xE5921008 = 10"
  using load_store_address [of "0xE5921008" host] by simp

lemma core_step_store_word:
  assumes "executes c ins" "is_transfer ins False False" "core_condition k ins c" "inside (mem c) (arm_load_store k ins) 4"
  shows "core_step k c = Some (0, (fetched c)\<lparr>mem := put_bytes (mem c) (arm_load_store k ins)
      (word_bytes (mem_be (mem c)) (rval (fetched c) (rd_of ins)))\<rparr>)"
  using assms by (simp add: core_step_transfer core_transfer_def core_write_word_def core_read_word_def
      memory_write_word_inside memory_read_word_inside)

lemma core_step_load_word:
  assumes "executes c ins" "is_transfer ins True False" "core_condition k ins c"
    and "inside (mem c) (arm_load_store k ins) 4" "take_bit 2 (arm_load_store k ins) = 0" "shl_by_width_keeps_or_clears k"
  shows "core_step k c = Some (0, put_reg (rd_of ins) (let w = word_at (mem c) (arm_load_store k ins) in
      if rd_of ins = 15 then w AND 0xFFFFFFFE else w) (fetched c))"
  using assms by (simp add: core_step_transfer core_transfer_def core_read_word_def
      memory_read_word_inside ror_0 Let_def)

text \<open>C31: \<open>STR\<close> whose condition passes and whose address lies inside the memory writes the four bytes of \<open>Rd\<close> in the
  byte order of the memory and changes no other byte.\<close>

theorem step_store_word:
  assumes "room 2 (trace s)" "executes (arm s) ins" "is_transfer ins False False" "core_condition k ins (arm s)"
    and "inside (memo s) (arm_load_store k ins) 4"
  shows "\<exists>u. arm_step k s = Some (0, u) \<and> regs u = reg (fetched (arm s)) \<and> cycles u = cycles s + 1 \<and>
    memo u = put_bytes (memo s) (arm_load_store k ins)
      (word_bytes (mem_be (memo s)) (rval (fetched (arm s)) (rd_of ins)))"
  using step.runs [OF core_step_store_word [OF assms(2-5)] assms(1)] by auto

text \<open>C32: \<open>LDR\<close> whose condition passes and whose address is a multiple of 4 inside the memory loads the word at that
  address into \<open>Rd\<close>; into PC it clears bit 0.\<close>

theorem step_load_word:
  assumes "room 2 (trace s)" "executes (arm s) ins" "is_transfer ins True False" "core_condition k ins (arm s)"
    and "inside (memo s) (arm_load_store k ins) 4" "take_bit 2 (arm_load_store k ins) = 0" "shl_by_width_keeps_or_clears k"
  shows "\<exists>u. arm_step k s = Some (0, u) \<and>
    arm u = put_reg (rd_of ins) (let w = word_at (memo s) (arm_load_store k ins) in
      if rd_of ins = 15 then w AND 0xFFFFFFFE else w) (fetched (arm s))"
  using step.runs [OF core_step_load_word [OF assms(2-7)] assms(1)] by auto

text \<open>C15: a word stored by one instruction is loaded back by the next: when a \<open>STR\<close> is followed by an \<open>LDR\<close> from the
  same address, inside the memory and a multiple of 4, the destination of the load (not PC) ends with the
  value of the register that was stored.\<close>

theorem store_then_load:
  assumes "room 2 (trace s)" "executes (arm s) st" "is_transfer st False False" "core_condition k st (arm s)"
    and "inside (memo s) (arm_load_store k st) 4" "take_bit 2 (arm_load_store k st) = 0"
    and "mem_be (memo s) = 0 \<or> mem_be (memo s) = 1" "arm_step k s = Some (r, u)"
    and "executes (arm u) ld" "is_transfer ld True False" "core_condition k' ld (arm u)"
    and "arm_load_store k' ld = arm_load_store k st" "rd_of ld \<noteq> 15" "shl_by_width_keeps_or_clears k'"
  shows "\<exists>w. arm_step k' u = Some (0, w) \<and> r_data (regs w) (unat (rd_of ld)) = rval (fetched (arm s)) (rd_of st)"
proof -
  have u: "memo u = put_bytes (memo s) (arm_load_store k st)
      (word_bytes (mem_be (memo s)) (rval (fetched (arm s)) (rd_of st)))" "same_settings (trace s) (trace u)"
    using step.runs [OF core_step_store_word [OF assms(2-5)] assms(1)] assms(8) by auto
  have "room 2 (trace u)" using u(2) assms(1) room_same by blast
  moreover have "inside (memo u) (arm_load_store k' ld) 4" "take_bit 2 (arm_load_store k' ld) = 0"
    using assms(5,6,12) u(1) by simp_all
  ultimately obtain w where "arm_step k' u = Some (0, w)"
    "arm w = put_reg (rd_of ld) (word_at (memo u) (arm_load_store k' ld)) (fetched (arm u))"
    using step.runs [OF core_step_load_word [OF assms(9-11) _ _ assms(14)]] assms(13) by fastforce
  then show ?thesis using assms(7,12) by (auto simp: u(1) word_at_put_word)
qed

text \<open>\<open>STR r3, [r0, #8]\<close> on a memory that holds it at address 0.\<close>

lemma demo_transfers:
  "is_transfer 0xE5803008 False False" "rd_of 0xE5803008 = 3" "arm_load_store host 0xE5803008 = 8"
  "core_condition host 0xE5803008 (arm (demo i))"
  "is_transfer 0xE5901008 True False" "rd_of 0xE5901008 = 1" "arm_load_store host 0xE5901008 = 8"
  "core_condition host 0xE5901008 (arm (demo i))"
  by (simp_all add: is_transfer_def rd_of_def arm_load_store_def getValueFromIns_def Let_def core_condition_def
      condition_switch_def)

theorem step_store_word_witness:
  "\<exists>u. arm_step host (demo 0xE5803008) = Some (0, u) \<and>
    memo u = put_bytes (memo (demo 0xE5803008)) 8 (word_bytes 1 3)"
  using step_store_word [of "demo 0xE5803008" "0xE5803008" host]
  by (auto simp: demo_transfers rval_def)

text \<open>\<open>LDR r1, [r0, #8]\<close>: the word at 8 is 0.\<close>

theorem step_load_word_witness:
  "\<exists>u. arm_step host (demo 0xE5901008) = Some (0, u) \<and> r_data (regs u) 1 = word_at (memo (demo 0xE5901008)) 8"
  using step_load_word [of "demo 0xE5901008" "0xE5901008" host]
  by (auto simp: demo_transfers)


text \<open>\<open>STR r3, [r0, #8]\<close> then \<open>LDR r1, [r0, #8]\<close>: \<open>r1\<close> ends with 3.\<close>

theorem store_then_load_witness:
  "\<exists>s u w. arm_step host s = Some (0, u) \<and> arm_step host u = Some (0, w) \<and> r_data (regs s) 3 = 3 \<and> r_data (regs w) 1 = 3"
proof -
  define s where "s = (demo 0)\<lparr>arm := (arm (demo 0))\<lparr>mem := put_bytes (memo (demo 0xE5803008)) 4 (word_bytes 1 0xE5901008)\<rparr>\<rparr>"
  have a: "aligned_pc (arm s)" "room 2 (trace s)" "mem_be (memo s) = 1" "r_data (regs s) = r_data (regs (demo 0))"
    by (simp_all add: s_def aligned_pc_def)
  have e: "executes (arm s) 0xE5803008"
    unfolding executes_def aligned_fetch [OF a(1)] using a(4)
    by (simp add: s_def inside_def word_at_def put_bytes_def word_bytes_def le_word_def Let_def)
  have c: "core_condition host i (arm s) = core_condition host i (arm (demo 0))" for i
    by (simp add: core_condition_def read_cpsr_def a(4))
  note t = demo_transfers
  have "inside (memo s) 8 4" by (simp add: s_def)
  then obtain u where u: "arm_step host s = Some (0, u)" "arm u = (fetched (arm s))\<lparr>mem := put_bytes (memo s) 8 (word_bytes 1 3)\<rparr>"
    using step.runs [OF core_step_store_word [OF e t(1)] a(2), of host] a(3,4) by (auto simp: t c rval_def)
  have au: "aligned_pc (arm u)" "r_data (regs u) 15 = 4" "r_data (regs u) 16 = 0x1d3"
    using aligned_fetch [OF a(1)] a(4) by (simp_all add: aligned_pc_def u(2))
  have "executes (arm u) 0xE5901008"
    unfolding executes_def aligned_fetch [OF au(1)] au(2)
    by (simp add: u(2) s_def inside_def word_at_def put_bytes_def word_bytes_def le_word_def Let_def)
  moreover have "core_condition host 0xE5901008 (arm u)"
    by (simp add: core_condition_def condition_switch_def)
  ultimately obtain w where "arm_step host u = Some (0, w)" "r_data (regs w) 1 = 3"
    using store_then_load [OF a(2) e t(1) _ _ _ _ u(1) _ t(5), of host] a \<open>inside (memo s) 8 4\<close>
    by (auto simp: t c rval_def)
  with u a(4) show ?thesis by fastforce
qed

end
