(* ===== verification/Gdb_Properties.thy ===== *)
theory Gdb_Properties
  imports Gdb Step_Properties
begin

text \<open>
  Properties of the gdb server: packets and their checksum, values, registers and memory read back as they
  were written, and the commands that run the processor.
\<close>

subsection \<open>Packets and values\<close>

text \<open>A 32-bit value is written as eight hexadecimal digits, most significant first, whatever the byte order of
  the host, and \<open>read_uint32\<close> reads it back, followed by anything.\<close>

theorem uint32_roundtrip:
  assumes "NUL \<in> set rest"
  shows "read_uint32 be x (write_uint32 be v @ rest) = Some v \<and> write_uint32 be v = write_uint32 (\<not> be) v"
proof -
  have "c_string rest = Some (takeWhile (\<lambda>c. c \<noteq> NUL) rest)" using assms by (simp add: c_string_def)
  from read_write_uint32 [OF this] show ?thesis by (simp add: write_uint32_eq)
qed

theorem uint32_roundtrip_witness:
  "read_uint32 False 0 (write_uint32 False 0x12345678 @ [NUL]) = Some 0x12345678"
  by (rule uint32_roundtrip [of "[NUL]", THEN conjunct1]) simp

text \<open>C33: an answer of at most 1019 characters is sent as one packet, with its checksum, and stays in the buffer for a
  retransmission; a longer one writes past the end of the buffer.\<close>

theorem answer_bounds:
  assumes "holds (packet g) 1 s" "NUL \<notin> set s" "write_open g"
  shows "if length s \<le> 1019
    then \<exists>g'. gdb_send_buffer g = Some g' \<and> answered s g g' \<and>
      sent (gdb_transmit_packet g') = sent g @ [frame s, frame s]
    else gdb_send_buffer g = None"
proof (cases "length s \<le> 1019")
  case True
  then obtain g' where g': "gdb_send_buffer g = Some g'" "answered s g g'"
    using gdb_send_buffer_holds assms by blast
  moreover have "frame s \<noteq> []" by (simp add: frame_def)
  ultimately have "sent (gdb_transmit_packet g') = sent g @ [frame s, frame s]"
    by (simp add: gdb_transmit_packet_def rio_write_def answered_def)
  with g' True show ?thesis by auto
qed (use gdb_send_buffer_overrun [OF assms(1,2)] in simp)

text \<open>A server for a blank machine, its buffer filled with null characters.\<close>

definition server :: "machine \<Rightarrow> gdb_protocol_data" where
  "server s = gdb_init_data s (\<lambda>_. NUL)"

lemma frame_empty: "frame [] = ''$#00''"
  by code_simp

theorem answer_bounds_witness:
  "\<exists>g'. gdb_send_buffer (server blank) = Some g' \<and> sent g' = [''$#00'']"
  using answer_bounds [of "server blank" "[]"]
  by (auto simp: holds_def server_def gdb_init_data_def answered_def frame_empty)

lemma analysis_parts:
  fixes s t :: string
  assumes "length t = 2"
  shows "length (''$'' @ s @ ''#'' @ t) - 3 = Suc (length s)"
    "drop (Suc (Suc (length s))) ((''$'' @ s @ ''#'' @ t) @ [NUL]) = t @ [NUL]"
    "((''$'' @ s @ ''#'' @ t) @ [NUL])[Suc (length s) := NUL] = ''$'' @ s @ [NUL] @ t @ [NUL]"
    "take (length s) (tl (''$'' @ s @ ''#'' @ t)) = s"
  using assms by (simp_all add: list_update_append)

lemma analysis_digits:
  assumes "digit_value x < 16" "digit_value y < 16"
  shows "gdb_packet_analysis ks k be (''$'' @ (c # data) @ ''#'' @ [x, y]) g =
    (if 16 * digit_value x + digit_value y = unat (checksum (c # data)) then
       (case map_of handler_table c of
         Some h \<Rightarrow> run_handler h ks k be (data @ NUL # x # y # [NUL]) (gdb_send_ack g)
       | None \<Rightarrow> map_option Done (gdb_send_data '''' (gdb_send_ack g)))
     else Some (Done (gdb_require_retransmission g)))"
proof -
  let ?s = "c # data" and ?t = "[x, y]" and ?n = "16 * digit_value x + digit_value y"
  have "c_string (?t @ [NUL]) = Some ?t" using hex_digit_plain(6) [OF assms(1)] hex_digit_plain(6) [OF assms(2)]
    by (simp add: c_string_def)
  moreover have "scan_hex 2 ?t = Some (of_nat ?n, [])"
    using scan_hex_digits [of ?t 2 "[]"] assms by (simp add: number_def)
  moreover have "ucast (checksum ?s) = (of_nat ?n :: u32) \<longleftrightarrow> ?n = unat (checksum ?s)"
  proof -
    have n: "?n < 256" using assms by simp
    then have "unat (of_nat ?n :: u32) = ?n" by (simp only: unsigned_of_nat) (simp add: take_bit_nat_eq_self)
    moreover have "unat (ucast (checksum ?s) :: u32) = unat (checksum ?s)"
      using unat_byte [of "checksum ?s"] by (simp add: unsigned_ucast_eq take_bit_nat_eq_self)
    ultimately show ?thesis unfolding word_unat_eq_iff by auto
  qed
  ultimately show ?thesis
    unfolding gdb_packet_analysis_def using analysis_parts [of ?t ?s]
    by (cases "map_of handler_table c") (simp_all add: Let_def checksum_def numeral_2_eq_2)
qed

text \<open>C26: a packet is executed exactly when the two hexadecimal digits after \<open>#\<close> are the sum of its characters modulo
  256: then it is acknowledged and its handler gets the text after the command, or an unknown command an empty
  answer; otherwise nothing happens but a request for retransmission.\<close>

theorem packet_checksum:
  assumes "digit_value x < 16" "digit_value y < 16"
  shows "gdb_packet_analysis ks k be (''$'' @ (c # data) @ ''#'' @ [x, y]) g =
    (if 16 * digit_value x + digit_value y = unat (checksum (c # data)) then
       (case map_of handler_table c of
         Some h \<Rightarrow> run_handler h ks k be (data @ NUL # x # y # [NUL]) (gdb_send_ack g)
       | None \<Rightarrow> map_option Done (gdb_send_data '''' (gdb_send_ack g)))
     else Some (Done (gdb_require_retransmission g)))"
  by (rule analysis_digits [OF assms])

theorem packet_checksum_witness:
  "gdb_packet_analysis [] host False ''$k#6b'' (server blank) = Some (Done (kill_request (gdb_send_ack (server blank)))) \<and>
   gdb_packet_analysis [] host False ''$k#6c'' (server blank) = Some (Done (gdb_require_retransmission (server blank)))"
  using packet_checksum [of "CHR ''6''" "CHR ''b''" "[]" host False "CHR ''k''" "[]" "server blank"]
    packet_checksum [of "CHR ''6''" "CHR ''c''" "[]" host False "CHR ''k''" "[]" "server blank"]
  by (simp add: digit_value_def checksum_def handler_table_def run_handler_def)

subsection \<open>Registers\<close>

lemma on_trace_simps [simp]:
  "arm (target (on_trace f g)) = arm (target g)" "packet (on_trace f g) = packet g" "sent (on_trace f g) = sent g"
  "write_open (on_trace f g) = write_open g" "terminated (on_trace f g) = terminated g"
  "target_exception (on_trace f g) = target_exception g" "trace (target (on_trace f g)) = f (trace (target g))"
  by (simp_all add: on_trace_def)

lemma room_toggle [simp]: "room n (trace_disable t) = room n t" "room n (trace_enable t) = room n t"
  by (simp_all add: room_def trace_disable_def trace_enable_def)

lemma on_target_runs:
  assumes "traced_action need f core" "room n (trace (target g))" "need \<le> n" "core (arm (target g)) = Some (x, c)"
  shows "\<exists>s. on_target f g = Some (x, g\<lparr>target := s\<rparr>) \<and> arm s = c \<and> same_settings (trace (target g)) (trace s)"
proof -
  have "room need (trace (target g))" using assms(2,3) room_mono by blast
  from traced_action.runs [OF assms(1,4) this] show ?thesis by (auto simp: on_target_def)
qed

lemma on_target_read:
  assumes "room 1 (trace (target g))" "r < 16"
  shows "\<exists>s. on_target (located loc (arm_read_register r)) g = Some (rval (arm (target g)) r, g\<lparr>target := s\<rparr>) \<and>
    arm s = arm (target g) \<and> same_settings (trace (target g)) (trace s)"
  by (rule on_target_runs [OF read_reg.located_agrees assms(1)]) (use assms(2) in \<open>simp_all add: core_read_register_eq\<close>)

text \<open>The text \<open>s\<close> has been written at a position of the buffer, without its final null character; nothing before it
  and nothing else of the server has changed.\<close>

definition wrote :: "nat \<Rightarrow> string \<Rightarrow> gdb_protocol_data \<Rightarrow> gdb_protocol_data \<Rightarrow> bool" where
  "wrote i s g g' \<longleftrightarrow> (\<forall>j. j < length s \<longrightarrow> packet g' (i + j) = s ! j) \<and> (\<forall>j. j < i \<longrightarrow> packet g' j = packet g j) \<and>
     arm (target g') = arm (target g) \<and> same_settings (trace (target g)) (trace (target g')) \<and>
     target_exception g' = target_exception g \<and> sent g' = sent g \<and> write_open g' = write_open g \<and> terminated g' = terminated g"

lemma wrote_refl: "wrote i [] g g"
  by (simp add: wrote_def)

lemma wrote_trans:
  assumes "wrote i s g g'" "wrote (i + length s) t g' g''"
  shows "wrote i (s @ t) g g''"
proof -
  have "packet g'' (i + j) = (s @ t) ! j" if "j < length (s @ t)" for j
    using assms that by (cases "j < length s") (auto simp: wrote_def nth_append dest!: spec [of _ "j - length s"])
  then show ?thesis using assms by (auto simp: wrote_def intro: same_settings_trans)
qed

lemma wrote_target: "arm s = arm (target g) \<Longrightarrow> same_settings (trace (target g)) (trace s) \<Longrightarrow>
    wrote i t (g\<lparr>target := s\<rparr>) g' \<Longrightarrow> wrote i t g g'"
  by (auto simp: wrote_def intro: same_settings_trans)

lemma put_text_wrote:
  assumes "i + length s < MAX_PACKET_SIZE"
  shows "\<exists>g'. put_text i s g = Some g' \<and> wrote i s g g' \<and> packet g' (i + length s) = NUL"
proof -
  obtain p where "put_string (packet g) i s = Some p" "holds p i s" "\<And>j. j < i \<Longrightarrow> p j = packet g j"
    using put_string_holds [OF assms, of "packet g"] assms by auto
  then show ?thesis by (simp add: put_text_def wrote_def holds_def)
qed

lemma room_wrote: "wrote i s g g' \<Longrightarrow> room n (trace (target g')) = room n (trace (target g))"
  by (auto simp: wrote_def room_same)

text \<open>One more piece of the answer, and one more value read from the processor in between.\<close>

lemma put_text_after:
  assumes "wrote i s g g'" "p = i + length s" "p + length t < MAX_PACKET_SIZE"
  shows "\<exists>g''. put_text p t g' = Some g'' \<and> wrote i (s @ t) g g'' \<and> packet g'' (p + length t) = NUL"
  using put_text_wrote [OF assms(3), of g'] wrote_trans [OF assms(1)] assms(2) by auto

lemma on_target_after:
  assumes "wrote i s g g'" "room 1 (trace (target g))" "traced_action need f core" "need \<le> 1"
    and "core (arm (target g)) = Some (x, arm (target g))"
  shows "\<exists>g''. on_target f g' = Some (x, g'') \<and> wrote i s g g''"
proof -
  have "room 1 (trace (target g'))" "core (arm (target g')) = Some (x, arm (target g'))"
    using assms room_wrote [OF assms(1)] by (auto simp: wrote_def)
  from on_target_runs [OF assms(3) this(1) assms(4) this(2)] obtain u where u: "on_target f g' = Some (x, g'\<lparr>target := u\<rparr>)"
    "arm u = arm (target g')" "same_settings (trace (target g')) (trace u)" by auto
  have "wrote i s g (g'\<lparr>target := u\<rparr>)" using assms(1) u(2,3) by (auto simp: wrote_def intro: same_settings_trans)
  with u(1) show ?thesis by blast
qed

lemma put_registers_wrote:
  assumes "room 1 (trace (target g))" "\<forall>i\<in>set is. i < 16" "position + 8 * length is < MAX_PACKET_SIZE"
  shows "\<exists>g'. put_registers be is position g = Some g' \<and>
    wrote position (concat (map (\<lambda>i. write_uint32 be (rval (arm (target g)) (of_nat i))) is)) g g'"
  using assms
proof (induction "is" arbitrary: position g)
  case Nil
  then show ?case by (simp add: wrote_refl)
next
  case (Cons i "is")
  have "(of_nat i :: u8) < 16"
    using Cons.prems(2) by (simp add: word_less_nat_alt unsigned_of_nat take_bit_nat_eq_self)
  from on_target_read [OF Cons.prems(1) this] obtain s where
    s: "on_target (located (GP 217) (arm_read_register (of_nat i))) g = Some (rval (arm (target g)) (of_nat i), g\<lparr>target := s\<rparr>)"
    "arm s = arm (target g)" "same_settings (trace (target g)) (trace s)" by blast
  let ?t = "write_uint32 be (rval (arm (target g)) (of_nat i))"
  obtain g1 where g1: "put_text position ?t (g\<lparr>target := s\<rparr>) = Some g1" "wrote position ?t (g\<lparr>target := s\<rparr>) g1"
    using put_text_wrote [of position ?t "g\<lparr>target := s\<rparr>"] Cons.prems(3) by auto
  have w1: "wrote position ?t g g1" using wrote_target [OF s(2,3) g1(2)] .
  obtain g2 where "put_registers be is (position + 8) g1 = Some g2"
    "wrote (position + 8) (concat (map (\<lambda>i. write_uint32 be (rval (arm (target g1)) (of_nat i))) is)) g1 g2"
    using Cons.IH [of g1 "position + 8"] Cons.prems room_wrote [OF w1] by auto
  then show ?case using s(1) g1(1) wrote_trans [OF w1] w1 by (auto simp: wrote_def [of position ?t])
qed

lemma put_blanks_wrote:
  assumes "position + 8 * n < MAX_PACKET_SIZE"
  shows "\<exists>g'. put_blanks n position g = Some g' \<and> wrote position (replicate (8 * n) (CHR ''x'')) g g'"
  using assms
proof (induction n arbitrary: position g)
  case 0
  then show ?case by (simp add: wrote_refl)
next
  case (Suc n)
  obtain g1 where g1: "put_text position ''xxxxxxxx'' g = Some g1" "wrote position ''xxxxxxxx'' g g1"
    using put_text_wrote [of position "''xxxxxxxx''" g] Suc.prems by auto
  obtain g2 where g2: "put_blanks n (position + 8) g1 = Some g2" "wrote (position + 8) (replicate (8 * n) (CHR ''x'')) g1 g2"
    using Suc.IH [of "position + 8" g1] Suc.prems by auto
  have "replicate (8 * Suc n) (CHR ''x'') = ''xxxxxxxx'' @ replicate (8 * n) (CHR ''x'')"
    by (simp add: numeral_eq_Suc)
  moreover have len: "length ''xxxxxxxx'' = 8" by simp
  ultimately show ?case using g1(1) g2(1) wrote_trans [OF g1(2), unfolded len, OF g2(2)] by simp
qed


text \<open>The answer to \<open>g\<close>: \<open>r0\<close> to \<open>r14\<close>, the address of the next instruction, 25 absent registers and CPSR.\<close>

definition registers_text :: "bool \<Rightarrow> arm_core_data \<Rightarrow> string" where
  "registers_text be c = concat (map (\<lambda>i. write_uint32 be (rval c (of_nat i))) [0..<15]) @ write_uint32 be (rval c 15 - 4) @
     replicate 200 (CHR ''x'') @ write_uint32 be (read_cpsr (reg c))"

lemma length_concat_8: "(\<And>x. x \<in> set xs \<Longrightarrow> length (f x) = 8) \<Longrightarrow> length (concat (map f xs)) = 8 * length xs"
  by (induction xs) auto

lemma length_registers_text [simp]: "length (registers_text be c) = 336"
  by (simp add: registers_text_def length_concat_8 del: upt_rec_numeral)

lemma read_general_registers_answers:
  assumes "room 1 (trace (target g))" "write_open g"
  shows "\<exists>g'. read_general_registers be g = Some g' \<and> arm (target g') = arm (target g) \<and>
    sent g' = sent g @ [frame (registers_text be (arm (target g)))]"
proof -
  let ?c = "arm (target g)"
  define g0 where "g0 = on_trace trace_disable g"
  have r0: "room 1 (trace (target g0))" "arm (target g0) = ?c" using assms(1) by (simp_all add: g0_def)
  let ?a = "concat (map (\<lambda>i. write_uint32 be (rval ?c (of_nat i))) [0..<15])"
    and ?b = "write_uint32 be (rval ?c 15 - 4)" and ?d = "write_uint32 be (read_cpsr (reg ?c))"
  have la: "length ?a = 120" by (simp add: length_concat_8 del: upt_rec_numeral)
  obtain g1 where g1: "put_registers be [0..<15] 1 g0 = Some g1" "wrote 1 ?a g0 g1"
    using put_registers_wrote [of g0 "[0..<15]" 1 be] r0 by auto
  obtain g2 where g2: "on_target (located (GP 221) (arm_read_register 15)) g1 = Some (rval ?c 15, g2)" "wrote 1 ?a g0 g2"
    using on_target_after [OF g1(2) r0(1) read_reg.located_agrees [of "GP 221" 15]] r0(2) by (auto simp: core_read_register_eq)
  obtain g3 where g3: "put_text 121 ?b g2 = Some g3" "wrote 1 (?a @ ?b) g0 g3"
    using put_text_after [OF g2(2), of 121 ?b] la by auto
  obtain g4 where g4: "put_blanks 24 129 g3 = Some g4" "wrote 129 (replicate 192 (CHR ''x'')) g3 g4"
    using put_blanks_wrote [of 129 24 g3] by auto
  have w4: "wrote 1 (?a @ ?b @ replicate 192 (CHR ''x'')) g0 g4"
    using wrote_trans [OF g3(2)] g4(2) la by simp
  have x: "replicate 192 (CHR ''x'') @ ''xxxxxxxx'' = replicate 200 (CHR ''x'')"
    using replicate_add [of 192 8 "CHR ''x''"] by (simp add: numeral_eq_Suc)
  obtain g5 where g5: "put_text 321 ''xxxxxxxx'' g4 = Some g5" "wrote 1 (?a @ ?b @ replicate 200 (CHR ''x'')) g0 g5"
    using put_text_after [OF w4, of 321 "''xxxxxxxx''"] la unfolding append_assoc x by auto
  obtain g6 where g6: "on_target (located (GP 235) arm_read_cpsr) g5 = Some (read_cpsr (reg ?c), g6)"
    "wrote 1 (?a @ ?b @ replicate 200 (CHR ''x'')) g0 g6"
    using on_target_after [OF g5(2) r0(1) cpsr_read.located_agrees [of "GP 235"]] r0(2) by auto
  obtain g7 where g7: "put_text 329 ?d g6 = Some g7" "wrote 1 (registers_text be ?c) g0 g7" "packet g7 337 = NUL"
    using put_text_after [OF g6(2), of 329 ?d] la by (auto simp: registers_text_def)
  have "holds (packet g7) 1 (registers_text be ?c)" using g7(2,3) by (simp add: holds_def wrote_def)
  moreover have "NUL \<notin> set (registers_text be ?c)"
    using digit_write_uint32 hex_digit_plain(6) by (auto simp: registers_text_def simp del: upt_rec_numeral)
  ultimately obtain g8 where g8: "gdb_send_buffer (on_trace trace_enable g7) = Some g8"
    "answered (registers_text be ?c) (on_trace trace_enable g7) g8"
    using gdb_send_buffer_holds [of "on_trace trace_enable g7" "registers_text be ?c"] g7(2) assms(2)
    by (auto simp: wrote_def g0_def)
  have "read_general_registers be g = Some g8"
    by (simp add: read_general_registers_def Let_def g0_def [symmetric] g1(1) [simplified] g2(1) g3(1) g4(1) g5(1) g6(1) g7(1) g8(1)
      del: upt_rec_numeral)
  moreover have "arm (target g8) = ?c" "sent g8 = sent g @ [frame (registers_text be ?c)]"
    using g8(2) g7(2) by (simp_all add: answered_def wrote_def g0_def)
  ultimately show ?thesis by blast
qed

lemma on_target_write:
  assumes "room 1 (trace (target g))" "r < 16"
  shows "\<exists>s. on_target (located loc (arm_write_register r v)) g = Some ((), g\<lparr>target := s\<rparr>) \<and>
    arm s = put_reg r v (arm (target g)) \<and> same_settings (trace (target g)) (trace s)"
  by (rule on_target_runs [OF write_reg.located_agrees assms(1)]) (use assms(2) in \<open>simp_all add: core_write_register_eq\<close>)

text \<open>The server after a change of its processor only.\<close>

definition retargeted :: "gdb_protocol_data \<Rightarrow> gdb_protocol_data \<Rightarrow> bool" where
  "retargeted g g' \<longleftrightarrow> (\<exists>s. g' = g\<lparr>target := s\<rparr> \<and> same_settings (trace (target g)) (trace s))"

lemma retargeted_trans: "retargeted g g' \<Longrightarrow> retargeted g' g'' \<Longrightarrow> retargeted g g''"
proof -
  assume "retargeted g g'" "retargeted g' g''"
  then obtain s s' where "g' = g\<lparr>target := s\<rparr>" "same_settings (trace (target g)) (trace s)"
    "g'' = g'\<lparr>target := s'\<rparr>" "same_settings (trace (target g')) (trace s')" by (auto simp: retargeted_def)
  then have "g'' = g\<lparr>target := s'\<rparr>" "same_settings (trace (target g)) (trace s')"
    by (auto intro: same_settings_trans)
  then show ?thesis unfolding retargeted_def by blast
qed

lemma room_retargeted: "retargeted g g' \<Longrightarrow> room n (trace (target g')) = room n (trace (target g))"
  by (auto simp: retargeted_def room_same)

definition set_registers :: "(nat \<Rightarrow> u32) \<Rightarrow> nat set \<Rightarrow> arm_core_data \<Rightarrow> arm_core_data" where
  "set_registers f I c = c\<lparr>reg := \<lparr>r_data = override_on (r_data (reg c)) f I\<rparr>\<rparr>"

lemma take_registers_sets:
  assumes "room 1 (trace (target g))" "\<forall>i\<in>set is. i < 16" "distinct is" "NUL \<in> set rest"
  shows "\<exists>g'. take_registers be k is (concat (map (\<lambda>i. write_uint32 be (f i)) is) @ rest) g = Some g' \<and>
    retargeted g g' \<and> arm (target g') = set_registers f (set is) (arm (target g))"
  using assms
proof (induction "is" arbitrary: g)
  case Nil
  then show ?case by (auto simp: retargeted_def set_registers_def intro!: exI [of _ "target g"])
next
  case (Cons i "is")
  let ?rest = "concat (map (\<lambda>i. write_uint32 be (f i)) is) @ rest"
  have i: "(of_nat i :: u8) < 16" "unat (of_nat i :: u8) = i"
    using Cons.prems(2) by (simp_all add: word_less_nat_alt unsigned_of_nat take_bit_nat_eq_self)
  have "c_string ?rest = Some (takeWhile (\<lambda>c. c \<noteq> NUL) ?rest)" using Cons.prems(4) by (simp add: c_string_def)
  then have v: "read_uint32 be (uninit_word k) (write_uint32 be (f i) @ ?rest) = Some (f i)" by (rule read_write_uint32)
  obtain s where s: "on_target (located (GP 297) (arm_write_register (of_nat i) (f i))) g = Some ((), g\<lparr>target := s\<rparr>)"
    "arm s = put_reg (of_nat i) (f i) (arm (target g))" "same_settings (trace (target g)) (trace s)"
    using on_target_write [OF Cons.prems(1) i(1)] by blast
  let ?g = "g\<lparr>target := s\<rparr>"
  have r: "retargeted g ?g" using s(3) by (auto simp: retargeted_def)
  obtain g' where g': "take_registers be k is ?rest ?g = Some g'" "retargeted ?g g'"
    "arm (target g') = set_registers f (set is) (arm (target ?g))"
    using Cons.IH [of ?g] Cons.prems room_retargeted [OF r] by auto
  have "drop 8 (write_uint32 be (f i) @ ?rest) = ?rest" by simp
  moreover have "arm (target g') = set_registers f (set (i # is)) (arm (target g))"
    using g'(3) s(2) Cons.prems(3) i(2) by (auto simp: set_registers_def put_reg_def override_on_def fun_eq_iff)
  ultimately show ?case using v s(1) g'(1) retargeted_trans [OF r g'(2)] by simp
qed

lemma scan_bytes_total: "NUL \<in> set (drop (2 * length is) d) \<Longrightarrow> \<exists>bs'. scan_bytes is v bs d = Some bs'"
proof (induction "is" arbitrary: v bs d)
  case (Cons i "is")
  from Cons.prems have n: "NUL \<in> set (drop (2 * length is) (drop 2 d))" "NUL \<in> set d"
    by (simp_all add: in_set_dropD)
  then show ?case using Cons.IH [OF n(1)] by (simp add: c_string_def Let_def)
qed simp

lemma read_uint32_total: "NUL \<in> set (drop 8 d) \<Longrightarrow> \<exists>v. read_uint32 be x d = Some v"
proof -
  assume "NUL \<in> set (drop 8 d)"
  moreover have "length (visit_order be) = 4" by (simp add: visit_order_eq)
  ultimately obtain bs where "scan_bytes (visit_order be) x [0, 0, 0, 0] d = Some bs"
    using scan_bytes_total [of "visit_order be" d x "[0, 0, 0, 0]"] by auto
  then show ?thesis by (simp add: read_uint32_def)
qed

lemma skip_values_total: "NUL \<in> set (drop (8 * n) d) \<Longrightarrow> skip_values be k n d = Some ()"
proof (induction n arbitrary: d)
  case (Suc n)
  from Suc.prems have n: "NUL \<in> set (drop (8 * n) (drop 8 d))" by (simp add: add.commute)
  then have "NUL \<in> set (drop 8 d)" by (rule in_set_dropD)
  then obtain v where "read_uint32 be (uninit_word k) d = Some v" using read_uint32_total by blast
  then show ?case using Suc.IH [OF n] by simp
qed simp

text \<open>The text of the registers with the contents \<open>f\<close>, and its writing.\<close>

definition contents_text :: "bool \<Rightarrow> (nat \<Rightarrow> u32) \<Rightarrow> string" where
  "contents_text be f = concat (map (\<lambda>i. write_uint32 be (f i)) [0..<16]) @ replicate 200 (CHR ''x'') @ write_uint32 be (f 16)"

lemma registers_text_aligned:
  assumes "aligned_pc c"
  shows "registers_text be c = contents_text be (r_data (reg c))"
proof -
  have a: "map (\<lambda>i. write_uint32 be (rval c (of_nat i))) [0..<15] = map (\<lambda>i. write_uint32 be (r_data (reg c) i)) [0..<15]"
    by (auto simp: rval_def unsigned_of_nat take_bit_nat_eq_self word_unat_eq_iff)
  have b: "rval c 15 - 4 = r_data (reg c) 15" using aligned_fetch(1) [OF assms] by simp
  have u: "[0..<16] = [0..<15] @ [15]" using upt_Suc_append [of 0 15] by simp
  show ?thesis unfolding registers_text_def contents_text_def a b u by (simp add: read_cpsr_def del: upt_rec_numeral)
qed

lemma write_contents_text:
  assumes "room 1 (trace (target h))" "write_open h"
  shows "\<exists>h'. write_general_registers be k (contents_text be f @ [NUL]) h = Some h' \<and> sent h' = sent h @ [frame ''OK''] \<and>
    arm (target h') = set_registers f {..16} (arm (target h))"
proof -
  define m where "m = replicate 200 (CHR ''x'')"
  define d where "d = write_uint32 be (f 16)"
  define h0 where "h0 = on_trace trace_disable h"
  let ?p = "concat (map (\<lambda>i. write_uint32 be (f i)) [0..<16])" and ?t = "contents_text be f"
  have t: "?t = ?p @ m @ d" by (simp add: contents_text_def m_def d_def)
  have lp: "length ?p = 128" by (simp add: length_concat_8 del: upt_rec_numeral)
  have r0: "room 1 (trace (target h0))" using assms(1) by (simp add: h0_def)
  obtain h1 where h1: "take_registers be k [0..<16] (?t @ [NUL]) h0 = Some h1" "retargeted h0 h1"
    "arm (target h1) = set_registers f {0..<16} (arm (target h0))"
    using take_registers_sets [of h0 "[0..<16]" "m @ d @ [NUL]" be k f] r0 unfolding t by auto
  have d1: "drop 128 ?t = m @ d" "drop 328 ?t = d" unfolding t using lp by (simp_all add: m_def)
  have lm: "length m = 200" "length d = 8" by (simp_all add: m_def d_def)
  then have lt: "length ?t = 336" unfolding t using lp by (simp only: length_append)
  have skip: "skip_values be k 25 (m @ d @ [NUL]) = Some ()" by (rule skip_values_total) (simp add: m_def)
  have cpsr: "read_uint32 be (uninit_word k) (d @ [NUL]) = Some (f 16)"
    unfolding d_def by (rule read_write_uint32) (simp add: c_string_def)
  obtain s2 where s2: "on_target (located (GP 322) (arm_write_cpsr (f 16))) h1 = Some ((), h1\<lparr>target := s2\<rparr>)"
    "arm s2 = (arm (target h1))\<lparr>reg := write_cpsr (regs (target h1)) (f 16)\<rparr>" "same_settings (trace (target h1)) (trace s2)"
    using on_target_runs [OF cpsr_write.located_agrees [of "GP 322" "f 16"] _ _ refl, of 1 h1] room_retargeted [OF h1(2)] r0
    by auto
  let ?h2 = "on_trace trace_enable (h1\<lparr>target := s2\<rparr>)"
  have "write_open ?h2" "sent ?h2 = sent h" using h1(2) assms(2) by (auto simp: retargeted_def h0_def)
  then obtain h3 where h3: "gdb_send_data ''OK'' ?h2 = Some h3" "answered ''OK'' ?h2 h3"
    using gdb_send_data_answers [of "''OK''" ?h2] by auto
  have "write_general_registers be k (?t @ [NUL]) h = Some h3"
    unfolding write_general_registers_def Let_def h0_def [symmetric]
    by (simp add: h1(1) d1 lt lm skip cpsr s2(1) h3(1) del: upt_rec_numeral)
  moreover have "sent h3 = sent h @ [frame ''OK'']" using h3(2) \<open>sent ?h2 = sent h\<close> by (simp add: answered_def)
  moreover have "arm (target h3) = set_registers f {..16} (arm (target h))"
    using h3(2) s2(2) h1(3) by (auto simp: answered_def set_registers_def write_cpsr_def override_on_def h0_def fun_eq_iff)
  ultimately show ?thesis by blast
qed

text \<open>C18: a debugger that saves the registers with \<open>g\<close> and writes the answer back with \<open>G\<close>, possibly after it has
  changed the processor, restores \<open>r0\<close> to \<open>r15\<close> and CPSR and nothing else; the reading itself does not change
  the processor.\<close>

theorem gdb_registers_restored:
  assumes "room 1 (trace (target g))" "write_open g" "aligned_pc (arm (target g))"
    and "room 1 (trace (target h))" "write_open h"
  shows "\<exists>g' h' t. read_general_registers be g = Some g' \<and> arm (target g') = arm (target g) \<and> sent g' = sent g @ [frame t] \<and>
    write_general_registers be k (t @ [NUL]) h = Some h' \<and> sent h' = sent h @ [frame ''OK''] \<and>
    arm (target h') = set_registers (r_data (regs (target g))) {..16} (arm (target h))"
  using read_general_registers_answers [OF assms(1,2), of be] write_contents_text [OF assms(4,5), of be k "r_data (regs (target g))"]
  unfolding registers_text_aligned [OF assms(3)] by blast

theorem gdb_registers_restored_witness:
  "\<exists>g' h' t. read_general_registers False (server blank) = Some g' \<and> sent g' = [frame t] \<and>
    write_general_registers False host (t @ [NUL]) (server (demo 0)) = Some h' \<and> sent h' = [''$OK#9a''] \<and>
    read_cpsr (regs (target h')) = 0"
proof -
  have "frame ''OK'' = ''$OK#9a''" by code_simp
  moreover have a: "aligned_pc (arm blank)" by (simp add: blank_def aligned_pc_def registers_create_def)
  have g: "target (server x) = x" "write_open (server x)" "sent (server x) = []" for x
    by (simp_all add: server_def gdb_init_data_def)
  have "r_data (regs blank) 16 = 0" by (simp add: blank_def registers_create_def)
  then have "read_cpsr (reg (set_registers (r_data (regs blank)) {..16} c)) = 0" for c
    by (simp add: set_registers_def read_cpsr_def)
  moreover obtain g' h' t where "read_general_registers False (server blank) = Some g'" "sent g' = [frame t]"
    "write_general_registers False host (t @ [NUL]) (server (demo 0)) = Some h'" "sent h' = [frame ''OK'']"
    "arm (target h') = set_registers (r_data (regs blank)) {..16} (arm (demo 0))"
    using gdb_registers_restored [of "server blank" "server (demo 0)" False host] a by (auto simp: g)
  ultimately show ?thesis by metis
qed

end
