(* ===== verification/Scanner.thy ===== *)
theory Scanner
  imports Gdb_Properties
begin

text \<open>
  The scanner of the connection to gdb, \<open>scanner.l\<close>: the tokens of its rules and the actions they trigger.
  The input is the sequence of characters up to the end of the connection.
\<close>

subsection \<open>Tokens\<close>

text \<open>The longest match wins: a complete packet is longer than its first character.  A newline outside a
  packet is matched by no rule and copied to the standard output.\<close>

datatype token = Ack | Retransmission | Packet string | Invalid char | Newline

definition scan_packet :: "string \<Rightarrow> (string \<times> string) option" where
  "scan_packet cs =
     (let body = takeWhile (\<lambda>c. c \<noteq> CHR ''$'' \<and> c \<noteq> CHR ''#'') cs; rest = drop (length body) cs in
      case rest of
        hash # x # y # rest' \<Rightarrow>
          if hash = CHR ''#'' \<and> digit_value x < 16 \<and> digit_value y < 16
          then Some (''$'' @ body @ [hash, x, y], rest') else None
      | _ \<Rightarrow> None)"

definition next_token :: "char \<Rightarrow> string \<Rightarrow> token \<times> string" where
  "next_token c cs =
     (if c = CHR ''+'' then (Ack, cs)
      else if c = CHR ''-'' then (Retransmission, cs)
      else if c = CHR ''$'' then (case scan_packet cs of Some (p, rest) \<Rightarrow> (Packet p, rest) | None \<Rightarrow> (Invalid c, cs))
      else if c = CHR 0x0A then (Newline, cs)
      else (Invalid c, cs))"

lemma scan_packet_shorter: "scan_packet cs = Some (p, rest) \<Longrightarrow> length rest < length cs"
proof -
  assume a: "scan_packet cs = Some (p, rest)"
  define d where "d = drop (length (takeWhile (\<lambda>c. c \<noteq> CHR ''$'' \<and> c \<noteq> CHR ''#'') cs)) cs"
  have "length rest < length d" using a
    by (auto simp: scan_packet_def Let_def d_def [symmetric] split: list.splits if_splits)
  moreover have "length d \<le> length cs" by (simp add: d_def)
  ultimately show ?thesis by simp
qed

lemma next_token_shorter: "next_token c cs = (t, rest) \<Longrightarrow> length rest \<le> length cs"
  by (auto simp: next_token_def split: if_splits option.splits dest!: scan_packet_shorter)

function tokens :: "string \<Rightarrow> token list" where
  "tokens [] = []"
| "tokens (c # cs) = (let (t, rest) = next_token c cs in t # tokens rest)"
  by pat_completeness auto
termination
  by (relation "measure length") (auto dest!: next_token_shorter [OF sym])

subsection \<open>Actions\<close>

abbreviation (input) "MAX_ERROR_SIZE \<equiv> (1024 :: nat)"

text \<open>The invalid characters since the last valid token are kept in \<open>buffer\<close>.\<close>

record parser_data =
  gdb :: gdb_protocol_data
  error_buffer :: string

definition handle_error :: "parser_data \<Rightarrow> parser_data" where
  "handle_error d =
     (if length (error_buffer d) \<noteq> 0
      then d\<lparr>gdb := gdb_require_retransmission (gdb d), error_buffer := []\<rparr> else d)"

definition add_character_to_error :: "char \<Rightarrow> parser_data \<Rightarrow> parser_data" where
  "add_character_to_error c d =
     (let d = (if MAX_ERROR_SIZE - 2 < length (error_buffer d) then handle_error d else d) in
      d\<lparr>error_buffer := error_buffer d @ [c]\<rparr>)"

text \<open>The action of one token.  The scanner goes on, or the process has ended, or \<open>cont\<close> is still running.\<close>

datatype scanning = Scanning parser_data | Terminated parser_data | Executing parser_data

definition proceed :: "parser_data \<Rightarrow> scanning" where
  "proceed d = (if terminated (gdb d) then Terminated d else Scanning d)"

definition resume :: "parser_data \<Rightarrow> progress \<Rightarrow> scanning" where
  "resume d r = (case r of
      Done g \<Rightarrow> proceed (d\<lparr>gdb := g\<rparr>)
    | Running g \<Rightarrow> if terminated g then Terminated (d\<lparr>gdb := g\<rparr>) else Executing (d\<lparr>gdb := g\<rparr>))"

definition token_action :: "indet list \<Rightarrow> indet \<Rightarrow> bool \<Rightarrow> token \<Rightarrow> parser_data \<Rightarrow> scanning option" where
  "token_action ks k be t d = (case t of
      Ack \<Rightarrow> Some (proceed (handle_error d))
    | Retransmission \<Rightarrow> let d = handle_error d in Some (proceed (d\<lparr>gdb := gdb_transmit_packet (gdb d)\<rparr>))
    | Packet p \<Rightarrow> let d = handle_error d in map_option (resume d) (gdb_packet_analysis ks k be p (gdb d))
    | Invalid c \<Rightarrow> Some (proceed (add_character_to_error c d))
    | Newline \<Rightarrow> Some (proceed d))"

text \<open>\<open>yylex\<close> on the tokens up to the end of the input, where pending invalid characters are an error.  The first
  argument holds the indeterminate values of each token: those of the steps of \<open>cont\<close> and those of the handler.\<close>

fun yylex :: "(nat \<Rightarrow> indet list \<times> indet) \<Rightarrow> bool \<Rightarrow> token list \<Rightarrow> parser_data \<Rightarrow> scanning option" where
  "yylex env be [] d = Some (proceed (handle_error d))"
| "yylex env be (t # ts) d = do {
     r \<leftarrow> token_action (fst (env 0)) (snd (env 0)) be t d;
     (case r of Scanning d \<Rightarrow> yylex (\<lambda>n. env (Suc n)) be ts d | _ \<Rightarrow> Some r)
   }"

definition scanner_init :: "machine \<Rightarrow> (nat \<Rightarrow> char) \<Rightarrow> parser_data" where
  "scanner_init s block = \<lparr>gdb = gdb_init_data s block, error_buffer = []\<rparr>"

definition gdb_scanner :: "(nat \<Rightarrow> indet list \<times> indet) \<Rightarrow> bool \<Rightarrow> machine \<Rightarrow> (nat \<Rightarrow> char) \<Rightarrow> string \<Rightarrow> scanning option" where
  "gdb_scanner env be s block input = yylex env be (tokens input) (scanner_init s block)"

subsection \<open>Shape of the tokens\<close>

definition plain_text :: "string \<Rightarrow> bool" where
  "plain_text s \<longleftrightarrow> CHR ''$'' \<notin> set s \<and> CHR ''#'' \<notin> set s"

text \<open>The characters of a token, and what the rules of the scanner promise of it: a packet is \<open>$\<close>, characters other than
  \<open>$\<close> and \<open>#\<close>, \<open>#\<close> and two hexadecimal digits.\<close>

fun token_text :: "token \<Rightarrow> string" where
  "token_text Ack = ''+''"
| "token_text Retransmission = ''-''"
| "token_text (Packet p) = p"
| "token_text (Invalid c) = [c]"
| "token_text Newline = [CHR 0x0A]"

fun token_ok :: "token \<Rightarrow> bool" where
  "token_ok (Packet p) = (case p of
       d # cs \<Rightarrow> d = CHR ''$'' \<and> (case drop (length cs - 3) cs of
           [h, x, y] \<Rightarrow> h = CHR ''#'' \<and> digit_value x < 16 \<and> digit_value y < 16 \<and> plain_text (take (length cs - 3) cs)
         | _ \<Rightarrow> False)
     | [] \<Rightarrow> False)"
| "token_ok (Invalid c) = (c \<notin> {CHR ''+'', CHR ''-'', CHR 0x0A})"
| "token_ok _ = True"

lemma token_ok_Packet:
  "token_ok (Packet p) \<longleftrightarrow> (\<exists>s x y. p = ''$'' @ s @ [CHR ''#'', x, y] \<and> plain_text s \<and> digit_value x < 16 \<and> digit_value y < 16)"
  (is "_ \<longleftrightarrow> (\<exists>s x y. ?p s x y)")
proof
  assume "token_ok (Packet p)"
  then obtain cs x y where c: "p = CHR ''$'' # cs" "drop (length cs - 3) cs = [CHR ''#'', x, y]" "digit_value x < 16"
    "digit_value y < 16" "plain_text (take (length cs - 3) cs)"
    by (auto split: list.splits)
  then have "?p (take (length cs - 3) cs) x y" using append_take_drop_id [of "length cs - 3" cs] by simp
  then show "\<exists>s x y. ?p s x y" by blast
qed auto

lemma scan_packet_text:
  assumes "plain_text s" "digit_value x < 16" "digit_value y < 16"
  shows "scan_packet (s @ CHR ''#'' # x # y # rest) = Some (''$'' @ s @ [CHR ''#'', x, y], rest)"
proof -
  have "takeWhile (\<lambda>c. c \<noteq> CHR ''$'' \<and> c \<noteq> CHR ''#'') (s @ CHR ''#'' # x # y # rest) = s"
    using assms(1) by (auto simp: takeWhile_append plain_text_def)
  with assms(2,3) show ?thesis by (simp add: scan_packet_def)
qed

lemma scan_packet_Some:
  assumes "scan_packet cs = Some (p, rest)"
  shows "token_ok (Packet p) \<and> CHR ''$'' # cs = p @ rest"
proof -
  define b where "b = takeWhile (\<lambda>c. c \<noteq> CHR ''$'' \<and> c \<noteq> CHR ''#'') cs"
  have "plain_text b" unfolding b_def plain_text_def by (auto dest: set_takeWhileD)
  moreover obtain x y where "drop (length b) cs = CHR ''#'' # x # y # rest" "digit_value x < 16" "digit_value y < 16"
    "p = ''$'' @ b @ [CHR ''#'', x, y]"
    using assms by (auto simp: scan_packet_def b_def [symmetric] split: list.splits if_splits)
  moreover have "b @ drop (length b) cs = cs" unfolding b_def using takeWhile_dropWhile_id by (metis dropWhile_eq_drop)
  ultimately show ?thesis unfolding token_ok_Packet by (metis append.assoc append_Cons append_Nil)
qed

lemma next_token_ok: "next_token c cs = (t, rest) \<Longrightarrow> token_ok t \<and> c # cs = token_text t @ rest"
  using scan_packet_Some [of cs] by (auto simp: next_token_def split: if_splits option.splits simp del: token_ok.simps(1))

lemma tokens_text:
  assumes "token_ok t" "t \<noteq> Invalid (CHR ''$'')"
  shows "tokens (token_text t @ rest) = t # tokens rest"
proof (cases t)
  case (Packet p)
  then obtain s x y where "p = ''$'' @ s @ [CHR ''#'', x, y]" "plain_text s" "digit_value x < 16" "digit_value y < 16"
    using assms(1) by (auto simp: token_ok_Packet simp del: token_ok.simps(1))
  then show ?thesis using scan_packet_text [of s x y rest] by (simp add: Packet next_token_def)
qed (use assms in \<open>auto simp: next_token_def\<close>)

lemma token_ok_frame: "plain_text s \<Longrightarrow> token_ok (Packet (frame s))"
proof -
  assume "plain_text s"
  moreover obtain x y where xy: "fmt_02x (checksum s) = [x, y]" by (simp add: fmt_02x_def)
  moreover have "digit_value x < 16" "digit_value y < 16"
    using digit_value_fmt [of _ "checksum s"] xy by auto
  ultimately show ?thesis unfolding token_ok_Packet frame_def by auto
qed

lemma tokens_frame: "plain_text s \<Longrightarrow> tokens (frame s @ rest) = Packet (frame s) # tokens rest"
  using tokens_text [OF token_ok_frame, of s rest] by simp

text \<open>A stream of packets, each followed by the acknowledgement of the peer.\<close>

definition stream :: "string list \<Rightarrow> string" where
  "stream ss = concat (map (\<lambda>s. frame s @ ''+'') ss)"

lemma tokens_stream:
  "\<forall>s\<in>set ss. plain_text s \<Longrightarrow> tokens (stream ss) = concat (map (\<lambda>s. [Packet (frame s), Ack]) ss)"
proof (induction ss)
  case (Cons s ss)
  then have "tokens (frame s @ ''+'' @ r) = Packet (frame s) # Ack # tokens r" for r
    using tokens_frame [of s] by (simp add: next_token_def)
  then show ?case using Cons by (simp add: stream_def)
qed (simp add: stream_def)

subsection \<open>Sessions\<close>

text \<open>What a session is: the commands are executed one after the other, each acknowledged first; an unknown
  command gets an empty answer.\<close>

definition command :: "indet list \<Rightarrow> indet \<Rightarrow> bool \<Rightarrow> string \<Rightarrow> gdb_protocol_data \<Rightarrow> progress option" where
  "command ks k be s g = (case map_of handler_table (hd s) of
      Some h \<Rightarrow> run_handler h ks k be (tl s @ NUL # fmt_02x (checksum s) @ [NUL]) (gdb_send_ack g)
    | None \<Rightarrow> map_option Done (gdb_send_data '''' (gdb_send_ack g)))"

fun session :: "(nat \<Rightarrow> indet list \<times> indet) \<Rightarrow> bool \<Rightarrow> string list \<Rightarrow> gdb_protocol_data \<Rightarrow> progress option" where
  "session env be [] g = Some (Done g)"
| "session env be (s # ss) g = do {
     r \<leftarrow> command (fst (env 0)) (snd (env 0)) be s g;
     (case r of
       Done g \<Rightarrow> if terminated g then Some (Done g) else session (\<lambda>n. env (Suc n)) be ss g
     | Running g \<Rightarrow> Some (Running g))
   }"

lemma analysis_command:
  assumes "s \<noteq> []"
  shows "gdb_packet_analysis ks k be (frame s) g = command ks k be s g"
proof -
  obtain x y where xy: "fmt_02x (checksum s) = [x, y]" by (simp add: fmt_02x_def)
  have d: "digit_value x < 16" "digit_value y < 16"
    using digit_value_fmt [of _ "checksum s"] xy by auto
  obtain c data where s: "s = c # data" using assms by (cases s) auto
  have n: "16 * digit_value x + digit_value y = unat (checksum s)"
    using number_fmt_02x [of "checksum s"] xy by (simp add: number_def)
  have "command ks k be s g = (case map_of handler_table c of
      Some h \<Rightarrow> run_handler h ks k be (data @ NUL # x # y # [NUL]) (gdb_send_ack g)
    | None \<Rightarrow> map_option Done (gdb_send_data '''' (gdb_send_ack g)))"
    by (simp only: command_def s list.sel xy [unfolded s] append.simps)
  also have "\<dots> = gdb_packet_analysis ks k be (''$'' @ (c # data) @ ''#'' @ [x, y]) g"
    using n by (simp only: analysis_digits [OF d] s) simp
  also have "''$'' @ (c # data) @ ''#'' @ [x, y] = frame s" by (simp only: frame_def xy) (simp add: s)
  finally show ?thesis by (rule sym)
qed

lemma yylex_stream:
  assumes "\<not> terminated g" "\<forall>s\<in>set ss. plain_text s \<and> s \<noteq> []"
  shows "yylex env be (tokens (stream ss)) \<lparr>gdb = g, error_buffer = []\<rparr> =
    map_option (resume \<lparr>gdb = g', error_buffer = []\<rparr>) (session (\<lambda>n. env (2 * n)) be ss g)"
proof -
  have "yylex env be (concat (map (\<lambda>s. [Packet (frame s), Ack]) ss)) \<lparr>gdb = g, error_buffer = []\<rparr> =
      map_option (resume \<lparr>gdb = g', error_buffer = []\<rparr>) (session (\<lambda>n. env (2 * n)) be ss g)"
    using assms
  proof (induction ss arbitrary: env g)
    case (Cons s ss)
    show ?case
      using Cons.prems Cons.IH [of _ "\<lambda>n. env (Suc (Suc n))"]
      by (cases "command (fst (env 0)) (snd (env 0)) be s g")
       (auto simp: token_action_def handle_error_def analysis_command resume_def proceed_def split: progress.splits)
  qed (simp add: handle_error_def resume_def)
  then show ?thesis using assms(2) by (simp add: tokens_stream)
qed

subsection \<open>Noise\<close>

definition noise :: "string \<Rightarrow> bool" where
  "noise cs \<longleftrightarrow> (\<forall>c\<in>set cs. c \<notin> {CHR ''+'', CHR ''-'', CHR ''$'', CHR 0x0A})"

lemma tokens_noise: "noise cs \<Longrightarrow> tokens (cs @ rest) = map Invalid cs @ tokens rest"
  by (induction cs) (auto simp: noise_def next_token_def)

lemma yylex_noise:
  assumes "length (error_buffer d) + length cs < MAX_ERROR_SIZE" "\<not> terminated (gdb d)"
  shows "yylex env be (map Invalid cs @ ts) d =
    yylex (\<lambda>n. env (n + length cs)) be ts (d\<lparr>error_buffer := error_buffer d @ cs\<rparr>)"
  using assms
proof (induction cs arbitrary: env d)
  case (Cons c cs)
  have "token_action ks k be (Invalid c) d = Some (Scanning (d\<lparr>error_buffer := error_buffer d @ [c]\<rparr>))" for ks k
    using Cons.prems by (simp add: token_action_def add_character_to_error_def proceed_def)
  moreover have "length (error_buffer (d\<lparr>error_buffer := error_buffer d @ [c]\<rparr>)) + length cs < MAX_ERROR_SIZE"
    using Cons.prems(1) by simp
  ultimately show ?case using Cons.IH [of "d\<lparr>error_buffer := error_buffer d @ [c]\<rparr>" "\<lambda>n. env (Suc n)"] Cons.prems(2)
    by simp
qed simp

text \<open>Pending invalid characters are reported before a packet and at the end of the input.\<close>

lemma yylex_pending:
  "ts = [] \<or> (\<exists>p ts'. ts = Packet p # ts') \<Longrightarrow> yylex env be ts d = yylex env be ts (handle_error d)"
  by (auto simp: token_action_def handle_error_def)

subsection \<open>Properties\<close>

text \<open>C13: a stream of packets, each followed by the acknowledgement of the peer, is cut into exactly those packets
  and acknowledgements, whatever the packets hold besides \<open>$\<close> and \<open>#\<close>, and the connection executes them as a
  session: one command after the other, up to one that ends the process or is still running.\<close>

theorem scanner_session:
  assumes "\<forall>s\<in>set ss. plain_text s \<and> s \<noteq> []"
  shows "tokens (stream ss) = concat (map (\<lambda>s. [Packet (frame s), Ack]) ss) \<and>
    gdb_scanner env be s block (stream ss) =
      map_option (resume (scanner_init s block)) (session (\<lambda>n. env (2 * n)) be ss (gdb_init_data s block))"
  using yylex_stream [of "gdb_init_data s block" ss env be] assms
  by (simp add: gdb_scanner_def tokens_stream scanner_init_def) (simp add: gdb_init_data_def)

text \<open>The reason of the stop, then the end of the session, on a blank machine.\<close>

theorem scanner_session_witness:
  "\<exists>d. gdb_scanner (\<lambda>_. ([], host)) False blank (\<lambda>_. NUL) ''$?#3f+$k#6b+'' = Some (Scanning d) \<and>
     sent (gdb d) = [''+'', ''$S05#b8'', ''+''] \<and> \<not> write_open (gdb d)"
proof -
  have f: "stream [''?'', ''k''] = ''$?#3f+$k#6b+''" "frame ''S05'' = ''$S05#b8''" by code_simp+
  let ?g = "gdb_send_ack (gdb_init_data blank (\<lambda>_. NUL))"
  have g: "write_open ?g" "sent ?g = [''+'']" "target_exception ?g = 0" "\<not> terminated ?g"
    by (simp_all add: gdb_send_ack_def rio_write_def gdb_init_data_def)
  obtain g' where g': "gdb_send_data ''S05'' ?g = Some g'" "answered ''S05'' ?g g'"
    using gdb_send_data_answers [of "''S05''" ?g] g by auto
  have c: "command [] host False ''?'' (gdb_init_data blank (\<lambda>_. NUL)) = Some (Done g')"
    using g g' by (simp add: command_def handler_table_def run_handler_def reason_def gdb_send_stop_reason_def)
  have w: "write_open g'" "sent g' = [''+'', ''$S05#b8'']" "\<not> terminated g'"
    using g'(2) g f by (simp_all add: answered_def)
  then have "command [] host False ''k'' g' = Some (Done (kill_request (gdb_send_ack g')))"
    by (simp add: command_def handler_table_def run_handler_def)
  then have "session (\<lambda>_. ([], host)) False [''?'', ''k''] (gdb_init_data blank (\<lambda>_. NUL)) =
      Some (Done (kill_request (gdb_send_ack g')))"
    using c w by (simp add: kill_request_def gdb_send_ack_def rio_write_def)
  with scanner_session [of "[''?'', ''k'']" "\<lambda>_. ([], host)" False blank "\<lambda>_. NUL"] w show ?thesis
    by (auto simp: f plain_text_def resume_def proceed_def kill_request_def gdb_send_ack_def rio_write_def)
qed

text \<open>C21: the connection recovers from noise: up to 1023 characters that belong to no packet and no acknowledgement
  are answered by a single request for retransmission, and the packets after them are executed as usual.\<close>

theorem scanner_recovers:
  assumes "noise cs" "cs \<noteq> []" "length cs < MAX_ERROR_SIZE" "\<forall>s\<in>set ss. plain_text s \<and> s \<noteq> []"
  shows "gdb_scanner env be s block (cs @ stream ss) = map_option (resume (scanner_init s block))
      (session (\<lambda>n. env (length cs + 2 * n)) be ss (gdb_require_retransmission (gdb_init_data s block)))"
proof -
  let ?d = "(scanner_init s block)\<lparr>error_buffer := cs\<rparr>" and ?env = "\<lambda>n. env (n + length cs)"
  let ?g = "gdb_require_retransmission (gdb_init_data s block)"
  have t: "\<not> terminated ?g" "\<not> terminated (gdb_init_data s block)"
    by (simp_all add: gdb_require_retransmission_def rio_write_def gdb_init_data_def)
  have "gdb_scanner env be s block (cs @ stream ss) = yylex ?env be (tokens (stream ss)) ?d"
    using yylex_noise [of "scanner_init s block" cs env be "tokens (stream ss)"] assms t
    by (simp add: gdb_scanner_def tokens_noise scanner_init_def)
  also have "\<dots> = yylex ?env be (tokens (stream ss)) (handle_error ?d)"
    by (rule yylex_pending) (use assms(4) in \<open>cases ss; simp add: tokens_stream\<close>)
  also have "handle_error ?d = \<lparr>gdb = ?g, error_buffer = []\<rparr>"
    using assms(2) by (simp add: handle_error_def scanner_init_def)
  finally show ?thesis
    using yylex_stream [OF t(1) assms(4), of ?env be "gdb_init_data s block"] by (simp add: scanner_init_def add.commute)
qed

theorem scanner_recovers_witness:
  "\<exists>d. gdb_scanner (\<lambda>_. ([], host)) False blank (\<lambda>_. NUL) ''xyz$k#6b+'' = Some (Scanning d) \<and>
     sent (gdb d) = [''-'', ''+''] \<and> \<not> write_open (gdb d)"
proof -
  have f: "stream [''k''] = ''$k#6b+''" by code_simp
  let ?g = "gdb_require_retransmission (gdb_init_data blank (\<lambda>_. NUL))"
  have "command [] host False ''k'' ?g = Some (Done (kill_request (gdb_send_ack ?g)))"
    by (simp add: command_def handler_table_def run_handler_def)
  then show ?thesis
    using scanner_recovers [of "''xyz''" "[''k'']" "\<lambda>_. ([], host)" False blank "\<lambda>_. NUL"]
    by (simp add: f noise_def plain_text_def resume_def proceed_def kill_request_def gdb_send_ack_def rio_write_def
        gdb_require_retransmission_def gdb_init_data_def)
qed

text \<open>C14: the scanner loses nothing and cuts well: whatever gdb sends, the texts of the tokens are the input, each packet
  has the shape \<open>gdb_packet_analysis\<close> relies on, and the cut is the only one into such tokens in which no \<open>$\<close> is
  left alone.\<close>

theorem tokens_lossless:
  "concat (map token_text (tokens input)) = input \<and> list_all token_ok (tokens input) \<and>
   (\<forall>ts. concat (map token_text ts) = input \<and> list_all token_ok ts \<and> Invalid (CHR ''$'') \<notin> set ts \<longrightarrow> tokens input = ts)"
proof (intro conjI allI impI)
  show "concat (map token_text (tokens input)) = input"
    by (induction input rule: tokens.induct) (auto simp: Let_def split: prod.splits dest!: next_token_ok)
  show "list_all token_ok (tokens input)"
    by (induction input rule: tokens.induct) (auto simp: Let_def split: prod.splits dest!: next_token_ok)
  fix ts assume "concat (map token_text ts) = input \<and> list_all token_ok ts \<and> Invalid (CHR ''$'') \<notin> set ts"
  then show "tokens input = ts"
  proof (induction ts arbitrary: input)
    case (Cons t ts)
    then have "tokens (token_text t @ concat (map token_text ts)) = t # tokens (concat (map token_text ts))"
      by (intro tokens_text) auto
    then show ?case using Cons by auto
  qed simp
qed

theorem tokens_lossless_witness:
  "tokens ''+$k#6b-x'' = [Ack, Packet ''$k#6b'', Retransmission, Invalid (CHR ''x'')]"
proof -
  have "list_all token_ok [Ack, Packet ''$k#6b'', Retransmission, Invalid (CHR ''x'')]" by code_simp
  then show ?thesis using tokens_lossless [of "''+$k#6b-x''"] by simp
qed
end
