(* ===== verification/Gdb_Run_Properties.thy ===== *)
theory Gdb_Run_Properties
  imports Gdb_Properties
begin

text \<open>
  The commands of the gdb server that run the processor, and the reading of one register.
\<close>

subsection \<open>Steps\<close>

lemma on_target_cases:
  assumes "traced_action need f core" "room n (trace (target g))" "need \<le> n"
  shows "case core (arm (target g)) of
      None \<Rightarrow> on_target f g = None
    | Some (x, c) \<Rightarrow> \<exists>s. on_target f g = Some (x, g\<lparr>target := s\<rparr>) \<and> arm s = c \<and> same_settings (trace (target g)) (trace s)"
proof (cases "core (arm (target g))")
  case None
  have "room need (trace (target g))" using assms(2,3) room_mono by blast
  from traced_action.agrees [OF assms(1) this] None show ?thesis by (simp add: on_target_def)
next
  case (Some p)
  then show ?thesis using on_target_runs [OF assms] by (cases p) simp
qed

text \<open>The server after a step: its processor is \<open>c\<close> and the result of the step has been recorded.\<close>

definition stepped :: "gdb_protocol_data \<Rightarrow> arm_core_data \<Rightarrow> gdb_protocol_data \<Rightarrow> bool" where
  "stepped g c g' \<longleftrightarrow> (\<exists>s. g' = g\<lparr>target_exception := 0, target := s\<rparr> \<and> arm s = c \<and>
     location_stack_top (trace s) = location_stack_top (trace (target g)))"

lemma room_stepped: "stepped g c g' \<Longrightarrow> room n (trace (target g')) = room n (trace (target g))"
  by (auto simp: stepped_def room_def)

lemma stepped_trans: "stepped g c g' \<Longrightarrow> stepped g' d g'' \<Longrightarrow> stepped g d g''"
  by (auto simp: stepped_def)

lemma run_step_cases:
  assumes "room 2 (trace (target g))"
  shows "case core_step k (arm (target g)) of
      None \<Rightarrow> gdb_run_step k g = None
    | Some (r, c) \<Rightarrow> r = 0 \<and> (\<exists>g'. gdb_run_step k g = Some g' \<and> stepped g c g')"
proof (cases "core_step k (arm (target g))")
  case None
  then show ?thesis using on_target_cases [OF step.traced_action_axioms [of k] assms] by (simp add: gdb_run_step_def)
next
  case (Some p)
  obtain r c where p: "p = (r, c)" by (cases p)
  obtain s where s: "on_target (arm_step k) g = Some (r, g\<lparr>target := s\<rparr>)" "arm s = c" "same_settings (trace (target g)) (trace s)"
    using on_target_runs [OF step.traced_action_axioms [of k] assms] Some p by auto
  have r: "r = 0" using core_step_keeps Some p by blast
  let ?g = "g\<lparr>target := s, target_exception := r\<rparr>"
  have "room 0 (trace (target ?g))" using s(3) assms by (simp add: same_settings_def room_def)
  then obtain u where u: "on_target trace_arm_state ?g = Some ((), ?g\<lparr>target := u\<rparr>)" "arm u = arm s" "same_settings (trace s) (trace u)"
    using on_target_runs [OF state_print.traced_action_axioms _ _ refl, of 0 ?g] by auto
  have "stepped g c (?g\<lparr>target := u\<rparr>)"
    using u(2,3) s(2,3) r by (auto simp: stepped_def same_settings_def)
  then show ?thesis using s(1) u(1) r by (simp add: Some p gdb_run_step_def)
qed

lemma gdb_step_effect:
  assumes "room 2 (trace (target g))" "write_open g" "core_step k (arm (target g)) = Some (r, c)"
  shows "\<exists>g1 g'. gdb_step k g = Some g' \<and> stepped g c g1 \<and> answered ''S05'' g1 g'"
proof -
  obtain g1 where g1: "gdb_run_step k g = Some g1" "stepped g c g1" using run_step_cases [OF assms(1), of k] assms(3) by auto
  moreover obtain g' where "gdb_send_stop_reason g1 = Some g'" "answered ''S05'' g1 g'"
    using gdb_send_data_answers [of "''S05''" g1] g1(2) assms(2) by (auto simp: gdb_send_stop_reason_def stepped_def)
  ultimately show ?thesis by (auto simp: gdb_step_def)
qed

text \<open>The command \<open>s\<close> executes exactly one instruction of the processor and answers \<open>S05\<close>, whatever the
  instruction: the reasons \<open>S04\<close> and \<open>S10\<close> are never reported.\<close>

theorem gdb_step_answers:
  assumes "room 2 (trace (target g))" "write_open g"
  shows "case core_step k (arm (target g)) of
      None \<Rightarrow> gdb_step k g = None
    | Some (r, c) \<Rightarrow> \<exists>g'. gdb_step k g = Some g' \<and> arm (target g') = c \<and> sent g' = sent g @ [''$S05#b8'']"
proof -
  have f: "frame ''S05'' = ''$S05#b8''" by code_simp
  have "\<exists>g''. gdb_send_stop_reason g' = Some g'' \<and> answered ''S05'' g' g''" if "stepped g c g'" for c g'
    using gdb_send_data_answers [of "''S05''" g'] that assms(2) by (auto simp: gdb_send_stop_reason_def stepped_def)
  with run_step_cases [OF assms(1), of k] show ?thesis
    by (fastforce simp: gdb_step_def answered_def f stepped_def split: option.splits)
qed

theorem gdb_step_answers_witness:
  "\<exists>g'. gdb_step host (server (demo 0xEF000000)) = Some g' \<and> sent g' = [''$S05#b8'']"
proof -
  have "core_step host (arm (demo 0xEF000000)) = Some (0, fetched (arm (demo 0xEF000000)))"
    using core_step_executes [of "arm (demo 0xEF000000)" "0xEF000000" host] by (simp add: core_execute_def)
  then show ?thesis using gdb_step_answers [of "server (demo 0xEF000000)" host]
    by (auto simp: server_def gdb_init_data_def)
qed


subsection \<open>Continue\<close>

fun core_run :: "indet list \<Rightarrow> arm_core_data \<Rightarrow> arm_core_data option" where
  "core_run [] c = Some c"
| "core_run (k # ks) c = do { (_, c) \<leftarrow> core_step k c; core_run ks c }"

text \<open>The instruction about to be executed lies inside the memory and is, or is not, a breakpoint.\<close>

definition next_instruction :: "arm_core_data \<Rightarrow> bool \<Rightarrow> bool" where
  "next_instruction c breakpoint \<longleftrightarrow> inside (mem c) (fetch_address c) 4 \<and>
     (word_at (mem c) (fetch_address c) AND 0xFFF000F0 = 0xE7F000F0) = breakpoint"

lemma cont_look_eq:
  assumes "room 2 (trace (target g))" "inside (mem (arm (target g))) (fetch_address (arm (target g))) 4"
  shows "\<exists>s. cont_look i g = Some (word_at (mem (arm (target g))) (fetch_address (arm (target g))), g\<lparr>target := s\<rparr>) \<and>
    arm s = arm (target g) \<and> location_stack_top (trace s) = location_stack_top (trace (target g))"
proof -
  let ?c = "arm (target g)" and ?g = "on_trace trace_disable g"
  have r: "room 1 (trace (target ?g))" using assms(1) by (simp add: room_def trace_disable_def)
  obtain s where s: "on_target (located (GP 169) (arm_read_register 15)) ?g = Some (rval ?c 15, ?g\<lparr>target := s\<rparr>)"
    "arm s = ?c" "same_settings (trace (target ?g)) (trace s)"
    using on_target_read [OF r, of 15] by auto
  let ?g1 = "?g\<lparr>target := s\<rparr>" and ?w = "word_at (mem ?c) (fetch_address ?c)"
  have "room 1 (trace (target ?g1))" using s(3) r room_same by auto
  moreover have "core_read_word (rval ?c 15 - 4) i (arm (target ?g1)) = Some ((?w, ?w), ?c)"
    using assms(2) s(2) by (simp add: core_read_word_def memory_read_word_inside fetch_address_def [symmetric])
  ultimately obtain u where u:
    "on_target (located (GP 170) (arm_read_word (rval ?c 15 - 4) i)) ?g1 = Some ((?w, ?w), ?g1\<lparr>target := u\<rparr>)"
    "arm u = ?c" "same_settings (trace s) (trace u)"
    using on_target_runs [OF word_read.located_agrees [of "GP 170" "rval ?c 15 - 4" i], of 1 ?g1] by auto
  have "location_stack_top (trace u) = location_stack_top (trace (target g))"
    using u(3) s(3) by (simp add: same_settings_def trace_disable_def)
  moreover have "on_trace trace_enable (?g1\<lparr>target := u\<rparr>) = g\<lparr>target := u\<lparr>trace := trace_enable (trace u)\<rparr>\<rparr>"
    by (simp add: on_trace_def)
  ultimately show ?thesis using u(2)
    by (auto simp: cont_look_def Let_def s(1) u(1) trace_enable_def)
qed

text \<open>As long as there is no breakpoint, each turn of the loop is one step.\<close>

lemma stepped_refl: "target_exception g = 0 \<Longrightarrow> arm (target g) = c \<Longrightarrow> stepped g c g"
  by (cases g) (auto simp: stepped_def)

lemma cont_loop_prefix:
  assumes "room 2 (trace (target g))" "core_run ks (arm (target g)) = Some c" "target_exception g = 0"
    and "\<And>j d. j < length ks \<Longrightarrow> core_run (take j ks) (arm (target g)) = Some d \<Longrightarrow> next_instruction d False"
  shows "\<exists>g' i'. (\<forall>ks'. cont_loop (ks @ ks') i g = cont_loop ks' i' g') \<and> stepped g c g'"
  using assms
proof (induction ks arbitrary: g i)
  case Nil
  then show ?case using stepped_refl [of g c] by auto
next
  case (Cons k1 ks)
  let ?w = "word_at (mem (arm (target g))) (fetch_address (arm (target g)))"
  have n: "next_instruction (arm (target g)) False" using Cons.prems(4) [of 0] by simp
  obtain s where s: "cont_look i g = Some (?w, g\<lparr>target := s\<rparr>)"
    "arm s = arm (target g)" "location_stack_top (trace s) = location_stack_top (trace (target g))"
    using cont_look_eq [OF Cons.prems(1), of i] n by (auto simp: next_instruction_def)
  obtain r d where d: "core_step k1 (arm (target g)) = Some (r, d)" "core_run ks d = Some c"
    using Cons.prems(2) by (auto simp: bind_eq_Some_conv)
  have room: "room 2 (trace (target (g\<lparr>target := s\<rparr>)))" using s(3) Cons.prems(1) by (simp add: room_def)
  then obtain g1 where g1: "gdb_run_step k1 (g\<lparr>target := s\<rparr>) = Some g1" "stepped (g\<lparr>target := s\<rparr>) d g1"
    using run_step_cases [of "g\<lparr>target := s\<rparr>" k1] s(2) d(1) by auto
  have r1: "room 2 (trace (target g1))" "arm (target g1) = d" "target_exception g1 = 0"
    using g1(2) room room_stepped [OF g1(2)] by (auto simp: stepped_def)
  have "next_instruction e False" if "j < length ks" "core_run (take j ks) d = Some e" for j e
    using Cons.prems(4) [of "Suc j" e] that d(1) by simp
  then obtain g2 i2 where g2: "\<forall>ks'. cont_loop (ks @ ks') ?w g1 = cont_loop ks' i2 g2" "stepped g1 c g2"
    using Cons.IH [of g1 ?w] r1 d(2) by auto
  have "cont_loop ((k1 # ks) @ ks') i g = cont_loop ks' i2 g2" for ks'
    using s(1) g1(1) g2(1) n by (simp add: next_instruction_def)
  moreover have "stepped g c g2" using g2(2) g1(2) s(3) by (auto simp: stepped_def)
  ultimately show ?case by blast
qed

lemma cont_loop_reaches:
  assumes "room 2 (trace (target g))" "core_run ks (arm (target g)) = Some c" "next_instruction c True"
    and "\<And>j d. j < length ks \<Longrightarrow> core_run (take j ks) (arm (target g)) = Some d \<Longrightarrow> next_instruction d False"
    and "target_exception g = 0"
  shows "\<exists>g'. cont_loop (ks @ k # ks') i g = Some (Done g') \<and> stepped g c g'"
proof -
  obtain g1 i1 where g1: "\<forall>ks'. cont_loop (ks @ ks') i g = cont_loop ks' i1 g1" "stepped g c g1"
    using cont_loop_prefix [OF assms(1,2,5), where i = i] assms(4) by blast
  have "arm (target g1) = c" "room 2 (trace (target g1))"
    using g1(2) room_stepped [OF g1(2)] assms(1) by (auto simp: stepped_def)
  then obtain s where s: "cont_look i1 g1 = Some (word_at (mem c) (fetch_address c), g1\<lparr>target := s\<rparr>)" "arm s = c"
    "location_stack_top (trace s) = location_stack_top (trace (target g1))"
    using cont_look_eq [of g1 i1] assms(3) by (auto simp: next_instruction_def)
  have "cont_loop (ks @ k # ks') i g = Some (Done (g1\<lparr>target := s\<rparr>))"
    using g1(1) s(1) assms(3) by (simp add: next_instruction_def)
  moreover have "stepped g c (g1\<lparr>target := s\<rparr>)" using g1(2) s(2,3) by (auto simp: stepped_def)
  ultimately show ?thesis by blast
qed

text \<open>C16: the command \<open>c\<close> returns when the program reaches a breakpoint: if the instructions executed from the
  current one lead, without another breakpoint before, to the undefined instruction gdb places at a breakpoint,
  \<open>cont\<close> executes exactly those instructions, leaves the breakpoint to be executed, and answers \<open>S05\<close>.\<close>

theorem gdb_cont_reaches:
  assumes "room 2 (trace (target g))" "write_open g" "target_exception g = 0"
    and "core_run ks (arm (target g)) = Some c" "next_instruction c True"
    and "\<And>j d. j < length ks \<Longrightarrow> core_run (take j ks) (arm (target g)) = Some d \<Longrightarrow> next_instruction d False"
  shows "\<exists>g'. cont (ks @ k # ks') k' g = Some (Done g') \<and> arm (target g') = c \<and> sent g' = sent g @ [''$S05#b8'']"
proof -
  have f: "frame ''S05'' = ''$S05#b8''" by code_simp
  obtain g1 where g1: "cont_loop (ks @ k # ks') (uninit_word k') g = Some (Done g1)" "stepped g c g1"
    using cont_loop_reaches [OF assms(1,4,5) _ assms(3)] assms(6) by blast
  obtain g2 where "gdb_send_stop_reason g1 = Some g2" "answered ''S05'' g1 g2"
    using gdb_send_data_answers [of "''S05''" g1] g1(2) assms(2) by (auto simp: gdb_send_stop_reason_def stepped_def)
  with g1 show ?thesis by (auto simp: cont_def answered_def stepped_def f)
qed


text \<open>\<open>swi\<close> at address 0, then a breakpoint.\<close>

theorem gdb_cont_reaches_witness:
  "\<exists>s g'. arm_get_cycle_count s = 0 \<and> cont [host, host] host (server s) = Some (Done g') \<and>
     arm_get_cycle_count (target g') = 1 \<and> sent g' = [''$S05#b8'']"
proof -
  define s where "s = (demo 0)\<lparr>arm := (arm (demo 0))\<lparr>mem := put_bytes (memo (demo 0xEF000000)) 4 (word_bytes 1 0xE7F000F0)\<rparr>\<rparr>"
  have s: "aligned_pc (arm s)" "r_data (regs s) 15 = 0" "room 2 (trace s)" "cycles s = 0" by (simp_all add: s_def aligned_pc_def)
  have w: "inside (memo s) 0 4" "inside (memo s) 4 4" "word_at (memo s) 0 = 0xEF000000" "word_at (memo s) 4 = 0xE7F000F0"
    by (simp_all add: s_def inside_def word_at_def put_bytes_def word_bytes_def le_word_def Let_def)
  let ?c = "fetched (arm s)"
  have "executes (arm s) 0xEF000000" using w s(2) by (simp add: executes_def aligned_fetch [OF s(1)])
  then have step: "core_step host (arm s) = Some (0, ?c)" by (simp add: core_step_executes core_execute_def)
  have c: "aligned_pc ?c" "r_data (reg ?c) 15 = 4" using aligned_fetch(1) [OF s(1)] s(2) by (simp_all add: aligned_pc_def)
  have n: "next_instruction (arm s) False" "next_instruction ?c True"
    using w s(2) c(2) by (simp_all add: next_instruction_def aligned_fetch [OF s(1)] aligned_fetch [OF c(1)])
  have g: "target (server s) = s" "write_open (server s)" "sent (server s) = []" "target_exception (server s) = 0"
    by (simp_all add: server_def gdb_init_data_def)
  have "\<exists>g'. cont ([host] @ host # []) host (server s) = Some (Done g') \<and> arm (target g') = ?c \<and> sent g' = sent (server s) @ [''$S05#b8'']"
    by (rule gdb_cont_reaches) (use s(3) g step n in auto)
  then show ?thesis using s(4) g(3) by (fastforce simp: arm_get_cycle_count_def)
qed

text \<open>C17: the command \<open>c\<close> returns only at a breakpoint: as long as the program has not reached one, the loop is still
  running after any number of instructions, which it has executed exactly, and gdb has got no answer.\<close>

theorem gdb_cont_runs:
  assumes "room 2 (trace (target g))" "target_exception g = 0" "core_run ks (arm (target g)) = Some c"
    and "\<And>j d. j < length ks \<Longrightarrow> core_run (take j ks) (arm (target g)) = Some d \<Longrightarrow> next_instruction d False"
  shows "\<exists>g'. cont ks k' g = Some (Running g') \<and> arm (target g') = c \<and> sent g' = sent g"
proof -
  obtain g1 i1 where g1: "\<forall>ks'. cont_loop (ks @ ks') (uninit_word k') g = cont_loop ks' i1 g1" "stepped g c g1"
    using cont_loop_prefix [OF assms(1,3,2), where i = "uninit_word k'"] assms(4) by blast
  from spec [OF g1(1), of "[]"] have "cont_loop ks (uninit_word k') g = Some (Running g1)" by simp
  with g1(2) show ?thesis by (auto simp: cont_def stepped_def)
qed

text \<open>A branch to itself, for any number of turns.\<close>

definition self_loop :: "arm_core_data \<Rightarrow> bool" where
  "self_loop c \<longleftrightarrow> aligned_pc c \<and> executes c 0xEAFFFFFE"

lemma self_loop_step:
  assumes "self_loop c"
  shows "\<exists>d. core_step host c = Some (0, d) \<and> self_loop d"
proof -
  have a: "aligned_pc c" "executes c 0xEAFFFFFE" using assms by (simp_all add: self_loop_def)
  let ?d = "core_branch 0xEAFFFFFE (fetched c)"
  have offset: "branch_offset 0xEAFFFFFE = -8" by (simp add: branch_offset_def signed_take_bit_def mask_eq_exp_minus_1)
  have "core_condition host 0xEAFFFFFE x" for x by (simp add: core_condition_def condition_switch_def)
  then have "core_step host c = Some (0, ?d)" by (simp add: core_step_executes [OF a(2)] core_execute_def)
  moreover have pc: "r_data (reg ?d) 15 = r_data (reg c) 15" "mem ?d = mem c"
    using aligned_fetch(3) [OF a(1)] by (simp_all add: core_branch_def offset)
  then have d: "aligned_pc ?d" using a(1) by (simp add: aligned_pc_def)
  have "self_loop ?d" using a d by (simp add: self_loop_def executes_def aligned_fetch(2) [OF a(1)] aligned_fetch(2) [OF d] pc)
  ultimately show ?thesis by blast
qed

lemma self_loop_run: "self_loop c \<Longrightarrow> \<exists>d. core_run (replicate n host) c = Some d \<and> self_loop d"
  by (induction n arbitrary: c) (fastforce dest: self_loop_step)+

theorem gdb_cont_runs_witness:
  "\<forall>n. \<exists>g'. cont (replicate n host) host (server (demo 0xEAFFFFFE)) = Some (Running g') \<and> sent g' = []"
proof
  fix n
  let ?g = "server (demo 0xEAFFFFFE)"
  have g: "target ?g = demo 0xEAFFFFFE" "sent ?g = []" "target_exception ?g = 0"
    by (simp_all add: server_def gdb_init_data_def)
  have l: "self_loop (arm (target ?g))" by (simp add: g self_loop_def)
  obtain d where d: "core_run (replicate n host) (arm (target ?g)) = Some d" using self_loop_run [OF l] by blast
  have "next_instruction e False" if "core_run (replicate j host) (arm (target ?g)) = Some e" for j e
    using self_loop_run [OF l, of j] that by (auto simp: self_loop_def next_instruction_def executes_def)
  moreover have "room 2 (trace (target ?g))" by (simp add: g)
  ultimately have "\<exists>g'. cont (replicate n host) host ?g = Some (Running g') \<and> arm (target g') = d \<and> sent g' = sent ?g"
    using g(3) d by (intro gdb_cont_runs) auto
  with g(2) show "\<exists>g'. cont (replicate n host) host ?g = Some (Running g') \<and> sent g' = []" by auto
qed

subsection \<open>One register\<close>

text \<open>The number after the command \<open>p\<close>, which gdb sends in hexadecimal, is read in decimal: one decimal digit
  selects that register, and a digit from \<open>a\<close> to \<open>f\<close> selects \<open>r0\<close>.\<close>

theorem gdb_read_register_digit:
  assumes "digit_value d < 16" "room 1 (trace (target g))" "write_open g"
  shows "\<exists>g'. gdb_read_register be [d, NUL] g = Some g' \<and> arm (target g') = arm (target g) \<and>
    sent g' = sent g @ [frame (write_uint32 be (rval (arm (target g)) (if digit_value d < 10 then of_nat (digit_value d) else 0)))]"
proof -
  define n where "n = (if digit_value d < 10 then digit_value d else 0)"
  have n: "n < 10" by (simp add: n_def)
  have str: "c_string [d, NUL] = Some [d]" using hex_digit_plain(6) [OF assms(1)] by (simp add: c_string_def)
  have "atoi [d] = int n"
    using hex_digit_plain(1-3) [OF assms(1)] by (simp add: atoi_def split_sign_def number_def n_def)
  then have reg: "word_of_int (atoi [d]) = (of_nat n :: u32)" by simp
  have un: "unat (of_nat n :: u32) = n" "unat (of_nat n :: u8) = n" using n by (simp_all add: unsigned_of_nat take_bit_nat_eq_self)
  have r: "(of_nat n :: u32) < 16" "(of_nat n :: u32) \<noteq> 15" "(of_nat n :: u8) < 16"
    using un n by (auto simp: word_less_nat_alt word_unat_eq_iff)
  have u8: "(ucast (of_nat n :: u32) :: u8) = of_nat n" using n un by (simp add: word_unat_eq_iff unsigned_ucast_eq take_bit_nat_eq_self)
  let ?g = "on_trace trace_disable g" and ?v = "rval (arm (target g)) (of_nat n)"
  obtain s where s: "on_target (located (GP 260) (arm_read_register (of_nat n))) ?g = Some (?v, ?g\<lparr>target := s\<rparr>)"
    "arm s = arm (target g)" "same_settings (trace (target ?g)) (trace s)"
    using on_target_read [of ?g "of_nat n"] assms(2) r(3) by auto
  let ?t = "write_uint32 be ?v"
  obtain g1 where g1: "put_text 1 ?t (?g\<lparr>target := s\<rparr>) = Some g1" "wrote 1 ?t (?g\<lparr>target := s\<rparr>) g1" "packet g1 9 = NUL"
    using put_text_wrote [of 1 ?t "?g\<lparr>target := s\<rparr>"] by auto
  have "holds (packet g1) 1 ?t" using g1(2,3) by (simp add: wrote_def holds_def)
  moreover have "NUL \<notin> set ?t" using digit_write_uint32 hex_digit_plain(6) by blast
  ultimately obtain g2 where g2: "gdb_send_buffer (on_trace trace_enable g1) = Some g2" "answered ?t (on_trace trace_enable g1) g2"
    using gdb_send_buffer_holds [of "on_trace trace_enable g1" ?t] g1(2) assms(3) by (auto simp: wrote_def)
  have "gdb_read_register be [d, NUL] g = Some g2"
    unfolding gdb_read_register_def str Option.bind.simps Let_def reg using r
    by (simp add: u8 s(1) g1(1) [simplified] g2(1))
  moreover have "arm (target g2) = arm (target g)" "sent g2 = sent g @ [frame ?t]"
    using g2(2) g1(2) s(2) by (simp_all add: answered_def wrote_def)
  ultimately show ?thesis by (auto simp: n_def)
qed

text \<open>\<open>p a\<close> on a machine whose \<open>r10\<close> holds 10: the answer is \<open>r0\<close>, 0.\<close>

theorem gdb_read_register_digit_witness:
  "\<exists>g'. gdb_read_register False [CHR ''a'', NUL] (server (demo 0)) = Some g' \<and> r_data (regs (demo 0)) 10 = 10 \<and>
     sent g' = [''$00000000#80'']"
proof -
  have "digit_value (CHR ''a'') = 10" by (simp add: digit_value_def)
  moreover have "frame (write_uint32 False 0) = ''$00000000#80''" by code_simp
  moreover have "target (server (demo 0)) = demo 0" "write_open (server (demo 0))" "sent (server (demo 0)) = []"
    by (simp_all add: server_def gdb_init_data_def)
  ultimately show ?thesis using gdb_read_register_digit [of "CHR ''a''" "server (demo 0)" False] by (auto simp: rval_def)
qed

text \<open>The register number and the value of a \<open>P\<close> packet.\<close>

lemma write_register_parsed:
  assumes "digit_value d < 16" "room 1 (trace (target g))" "write_open g"
  shows "\<exists>h. gdb_write_register be k ([d] @ ''='' @ write_uint32 be v @ [NUL]) g = Some h \<and>
    sent h = sent g @ [frame ''OK''] \<and> write_open h \<and> room 1 (trace (target h)) \<and>
    arm (target h) = put_reg (of_nat (digit_value d)) v (arm (target g))"
proof -
  let ?n = "digit_value d" and ?raw = "[d] @ ''='' @ write_uint32 be v @ [NUL]"
  have plain: "d \<noteq> NUL" "d \<noteq> CHR ''=''" using hex_digit_plain [OF assms(1)] by auto
  have digits: "c \<noteq> NUL" if "c \<in> set (write_uint32 be v)" for c using digit_write_uint32 [OF that] hex_digit_plain(6) by blast
  then have str: "c_string ?raw = Some ([d] @ ''='' @ write_uint32 be v)"
    using plain by (auto simp: c_string_def takeWhile_append)
  have "16 \<le> digit_value (CHR ''='')" by (simp add: digit_value_def)
  then have scan: "scan_hex (length ([d] @ ''='' @ write_uint32 be v)) ([d] @ ''='' @ write_uint32 be v) =
      Some (of_nat ?n, ''='' @ write_uint32 be v)"
    using scan_hex_digits [of "[d]" "length ([d] @ ''='' @ write_uint32 be v)" "''='' @ write_uint32 be v"] assms(1)
    by (simp add: number_def)
  have after: "after_char (CHR ''='') ?raw = Some (write_uint32 be v @ [NUL])"
    using str plain by (simp add: after_char_def)
  have parsed: "read_uint32 be (uninit_word k) (write_uint32 be v @ [NUL]) = Some v"
    by (rule read_write_uint32) (simp add: c_string_def)
  have un: "unat (of_nat ?n :: u32) = ?n" "unat (of_nat ?n :: u8) = ?n"
    using assms(1) by (simp_all add: unsigned_of_nat take_bit_nat_eq_self)
  have n: "(of_nat ?n :: u32) < 16" "(of_nat ?n :: u8) < 16" using un assms(1) by (simp_all add: word_less_nat_alt)
  have u8: "(ucast (of_nat ?n :: u32) :: u8) = of_nat ?n"
    using un assms(1) by (simp add: word_unat_eq_iff unsigned_ucast_eq take_bit_nat_eq_self)
  let ?g = "on_trace trace_disable g"
  obtain s where s: "on_target (located (GP 365) (arm_write_register (of_nat ?n) v)) ?g = Some ((), ?g\<lparr>target := s\<rparr>)"
    "arm s = put_reg (of_nat ?n) v (arm (target ?g))" "same_settings (trace (target ?g)) (trace s)"
    using on_target_write [of ?g "of_nat ?n" "GP 365" v] assms(2) n(2) by auto
  let ?h = "on_trace trace_enable (?g\<lparr>target := s\<rparr>)"
  have h: "write_open ?h" "sent ?h = sent g" "arm (target ?h) = put_reg (of_nat ?n) v (arm (target g))" "room 1 (trace (target ?h))"
    using assms(2,3) s(2,3) room_same [OF s(3), of 1] by simp_all
  obtain h1 where h1: "gdb_send_data ''OK'' ?h = Some h1" "answered ''OK'' ?h h1"
    using gdb_send_data_answers [of "''OK''" ?h] h(1) by auto
  have "gdb_write_register be k ?raw g = Some h1"
    unfolding gdb_write_register_def str Option.bind.simps Let_def scan after parsed using n(1)
    by (simp add: u8 s(1) h1(1) [simplified])
  with h1(2) h show ?thesis by (auto simp: answered_def)
qed

text \<open>\<open>P\<close> writes the register of its hexadecimal digit and nothing else; a following \<open>p\<close> with the same digit answers
  the written value for \<open>r0\<close> to \<open>r9\<close>, but \<open>r0\<close> for the digits \<open>a\<close> to \<open>f\<close>, which \<open>p\<close> reads in decimal.\<close>

theorem gdb_register_roundtrip:
  assumes "digit_value d < 16" "room 1 (trace (target g))" "write_open g"
  shows "\<exists>h h'. gdb_write_register be k ([d] @ ''='' @ write_uint32 be v @ [NUL]) g = Some h \<and>
    sent h = sent g @ [frame ''OK''] \<and> arm (target h) = put_reg (of_nat (digit_value d)) v (arm (target g)) \<and>
    gdb_read_register be [d, NUL] h = Some h' \<and> arm (target h') = arm (target h) \<and>
    sent h' = sent h @ [frame (write_uint32 be (if digit_value d < 10 then v else r_data (regs (target g)) 0))]"
proof -
  obtain h where h: "gdb_write_register be k ([d] @ ''='' @ write_uint32 be v @ [NUL]) g = Some h"
    "sent h = sent g @ [frame ''OK'']" "write_open h" "room 1 (trace (target h))"
    "arm (target h) = put_reg (of_nat (digit_value d)) v (arm (target g))"
    using write_register_parsed [OF assms] by blast
  obtain h' where h': "gdb_read_register be [d, NUL] h = Some h'" "arm (target h') = arm (target h)"
    "sent h' = sent h @ [frame (write_uint32 be (rval (arm (target h)) (if digit_value d < 10 then of_nat (digit_value d) else 0)))]"
    using gdb_read_register_digit [OF assms(1) h(4,3)] by blast
  have un: "unat (of_nat (digit_value d) :: u8) = digit_value d"
    using assms(1) by (simp add: unsigned_of_nat take_bit_nat_eq_self)
  have v: "rval (arm (target h)) (if digit_value d < 10 then of_nat (digit_value d) else 0) =
      (if digit_value d < 10 then v else r_data (regs (target g)) 0)"
    using un by (auto simp: h(5) rval_def put_reg_def word_unat_eq_iff)
  show ?thesis using h(1,2,5) h' unfolding v by blast
qed

text \<open>\<open>P b=00000007\<close>, then \<open>p b\<close>.\<close>

theorem gdb_register_roundtrip_witness:
  "\<exists>h h'. gdb_write_register False host ([CHR ''b''] @ ''='' @ write_uint32 False 7 @ [NUL]) (server (demo 0)) = Some h \<and>
    r_data (regs (target h)) 11 = 7 \<and> gdb_read_register False [CHR ''b'', NUL] h = Some h' \<and> sent h' = [''$OK#9a'', ''$00000000#80'']"
proof -
  have "digit_value (CHR ''b'') = 11" by (simp add: digit_value_def)
  moreover have "frame (write_uint32 False 0) = ''$00000000#80''" "frame ''OK'' = ''$OK#9a''" by code_simp+
  moreover have "target (server (demo 0)) = demo 0" "write_open (server (demo 0))" "sent (server (demo 0)) = []"
    by (simp_all add: server_def gdb_init_data_def)
  ultimately show ?thesis
    using gdb_register_roundtrip [of "CHR ''b''" "server (demo 0)" False host 7] by (auto simp: put_reg_def)
qed

end
