(* ===== verification/Gdb_Invariant.thy ===== *)
theory Gdb_Invariant
  imports Gdb_Run_Properties
begin

text \<open>
  What every command of the gdb server keeps, whatever its argument and whatever the state of the processor: the
  shape of the memory, the options of the trace and its location stack, and the recorded exception.
\<close>

subsection \<open>The invariant\<close>

named_theorems kept_intro \<open>operations that keep the frame of the server\<close>

definition shape :: "arm_core_data \<Rightarrow> nat \<times> int" where
  "shape c = (mem_size (mem c), mem_be (mem c))"

definition kept :: "gdb_protocol_data \<Rightarrow> gdb_protocol_data \<Rightarrow> bool" where
  "kept g g' \<longleftrightarrow> shape (arm (target g')) = shape (arm (target g)) \<and> same_settings (trace (target g)) (trace (target g')) \<and>
     target_exception g' = target_exception g"

lemma kept_refl [simp, kept_intro]: "kept g g"
  by (simp add: kept_def)

lemma kept_trans: "kept g g' \<Longrightarrow> kept g' g'' \<Longrightarrow> kept g g''"
  by (auto simp: kept_def intro: same_settings_trans)

lemma room_kept: "kept g g' \<Longrightarrow> room n (trace (target g')) = room n (trace (target g))"
  by (auto simp: kept_def room_same)

lemma enabled_kept: "kept g g' \<Longrightarrow> enabled (trace (target g')) = enabled (trace (target g))"
  by (simp add: kept_def same_settings_def)

text \<open>Between \<open>trace_disable\<close> and \<open>trace_enable\<close>.\<close>

lemma kept_quiet:
  assumes "enabled (trace (target g))" "kept (on_trace trace_disable g) h"
  shows "kept g (on_trace trace_enable h)"
  using assms by (auto simp: kept_def same_settings_def trace_disable_def trace_enable_def)

lemma room_quiet [simp]: "room n (trace (target (on_trace trace_disable g))) = room n (trace (target g))"
  by simp

subsection \<open>Actions of the processor\<close>

lemma kept_on_target:
  assumes "traced_action need f core" "room n (trace (target g))" "need \<le> n"
    and "on_target f g = Some (x, g')" "\<And>x c. core (arm (target g)) = Some (x, c) \<Longrightarrow> shape c = shape (arm (target g))"
  shows "kept g g'"
  using on_target_cases [OF assms(1-3)] assms(4,5) by (auto simp: kept_def split: option.splits)

lemma shape_put_reg [simp]: "shape (put_reg r v c) = shape c"
  by (simp add: shape_def put_reg_def)

lemma kept_read_register:
  "on_target (located loc (arm_read_register r)) g = Some (x, g') \<Longrightarrow> room 1 (trace (target g)) \<Longrightarrow> kept g g'"
  by (erule kept_on_target [OF read_reg.located_agrees, rotated 2]) (auto simp: core_read_register_def bind_eq_Some_conv)

lemma kept_write_register:
  "on_target (located loc (arm_write_register r v)) g = Some (x, g') \<Longrightarrow> room 1 (trace (target g)) \<Longrightarrow> kept g g'"
  by (erule kept_on_target [OF write_reg.located_agrees, rotated 2])
    (auto simp: core_write_register_def bind_eq_Some_conv shape_def)

lemma kept_read_cpsr:
  "on_target (located loc arm_read_cpsr) g = Some (x, g') \<Longrightarrow> room 1 (trace (target g)) \<Longrightarrow> kept g g'"
  by (erule kept_on_target [OF cpsr_read.located_agrees, rotated 2]) auto

lemma kept_write_cpsr:
  "on_target (located loc (arm_write_cpsr v)) g = Some (x, g') \<Longrightarrow> room 1 (trace (target g)) \<Longrightarrow> kept g g'"
  by (erule kept_on_target [OF cpsr_write.located_agrees, rotated 2]) (auto simp: shape_def)

lemma kept_read_word:
  "on_target (located loc (arm_read_word a i)) g = Some (x, g') \<Longrightarrow> room 1 (trace (target g)) \<Longrightarrow> kept g g'"
  by (erule kept_on_target [OF word_read.located_agrees, rotated 2]) (auto simp: core_read_word_def bind_eq_Some_conv)

lemma kept_run_step:
  assumes "gdb_run_step k g = Some g'" "room 2 (trace (target g))" "target_exception g = 0"
  shows "kept g g'"
proof -
  obtain r s where s: "on_target (arm_step k) g = Some (r, g\<lparr>target := s\<rparr>)" "arm_step k (target g) = Some (r, s)"
    "on_target trace_arm_state (g\<lparr>target := s, target_exception := r\<rparr>) = Some ((), g')"
    using assms(1) by (auto simp: gdb_run_step_def on_target_def bind_eq_Some_conv)
  from step_keeps [OF s(2) assms(2)] have r: "r = 0" "shape (arm s) = shape (arm (target g))"
    "same_settings (trace (target g)) (trace s)" by (auto simp: same_status_def shape_def)
  let ?g = "g\<lparr>target := s, target_exception := r\<rparr>"
  have "kept g ?g" using r assms(3) by (simp add: kept_def)
  moreover have "kept ?g g'"
    by (rule kept_on_target [OF state_print.traced_action_axioms _ _ s(3), of 2])
      (use r(3) assms(2) room_same in auto)
  ultimately show ?thesis by (rule kept_trans)
qed

subsection \<open>The buffer\<close>

lemma kept_packet [simp, kept_intro]: "kept g (g\<lparr>packet := p\<rparr>)" "kept g (g\<lparr>packet_len := n\<rparr>)" "kept g (g\<lparr>write_open := b\<rparr>)"
  "kept g (g\<lparr>terminated := b\<rparr>)" "kept g (g\<lparr>packet := p, packet_len := n\<rparr>)"
  by (simp_all add: kept_def)

lemma kept_rio_write [simp, kept_intro]: "kept g (rio_write s g)"
  by (simp add: kept_def rio_write_def)

lemma kept_transmit [simp, kept_intro]: "kept g (gdb_transmit_packet g)" "kept g (gdb_send_ack g)"
  "kept g (gdb_require_retransmission g)" "kept g (kill_request g)"
  by (simp_all add: gdb_transmit_packet_def gdb_send_ack_def gdb_require_retransmission_def kill_request_def)

lemma kept_send_buffer: "gdb_send_buffer g = Some g' \<Longrightarrow> kept g g'"
  by (auto simp: gdb_send_buffer_def bind_eq_Some_conv Let_def intro: kept_trans [OF kept_packet(5) kept_transmit(1)])

lemma kept_send_data: "gdb_send_data s g = Some g' \<Longrightarrow> kept g g'"
  by (auto simp: gdb_send_data_def bind_eq_Some_conv intro: kept_trans [OF kept_packet(1) kept_send_buffer])

lemma kept_put_text: "put_text i s g = Some g' \<Longrightarrow> kept g g'"
  by (auto simp: put_text_def bind_eq_Some_conv)

lemma kept_put_blanks: "put_blanks n i g = Some g' \<Longrightarrow> kept g g'"
  by (induction n i g rule: put_blanks.induct) (auto simp: bind_eq_Some_conv dest: kept_put_text intro: kept_trans)

subsection \<open>Handlers\<close>

lemma kept_put_registers:
  "put_registers be is i g = Some g' \<Longrightarrow> room 1 (trace (target g)) \<Longrightarrow> kept g g'"
proof (induction be "is" i g rule: put_registers.induct)
  case (2 be i "is" position g)
  then obtain v g1 g2 where g1: "on_target (located (GP 217) (arm_read_register (of_nat i))) g = Some (v, g1)"
    "put_text position (write_uint32 be v) g1 = Some g2" "put_registers be is (position + 8) g2 = Some g'"
    by (auto simp: bind_eq_Some_conv)
  have k: "kept g g2" using kept_read_register [OF g1(1) "2.prems"(2)] kept_put_text [OF g1(2)] by (rule kept_trans)
  with "2.prems"(2) have "room 1 (trace (target g2))" using room_kept by blast
  from kept_trans [OF k "2.IH" [OF g1(1) refl g1(2,3) this]] show ?case .
qed simp

lemma kept_take_registers:
  "take_registers be k is raw g = Some g' \<Longrightarrow> room 1 (trace (target g)) \<Longrightarrow> kept g g'"
proof (induction be k "is" raw g rule: take_registers.induct)
  case (2 be k i "is" position g)
  then obtain v g1 where g1: "read_uint32 be (uninit_word k) position = Some v"
    "on_target (located (GP 297) (arm_write_register (of_nat i) v)) g = Some ((), g1)"
    "take_registers be k is (drop 8 position) g1 = Some g'"
    by (auto simp: bind_eq_Some_conv)
  have k: "kept g g1" using kept_write_register [OF g1(2) "2.prems"(2)] .
  with "2.prems"(2) have "room 1 (trace (target g1))" using room_kept by blast
  from kept_trans [OF k "2.IH" [OF g1(1,2) refl g1(3) this]] show ?case .
qed simp

lemma kept_stop_reason: "gdb_send_stop_reason g = Some g' \<Longrightarrow> kept g g'"
  by (auto simp: gdb_send_stop_reason_def split: if_splits intro: kept_send_data)

lemma kept_cont_look:
  assumes "cont_look i g = Some (j, g')" "room 1 (trace (target g))" "enabled (trace (target g))"
  shows "kept g g'"
proof -
  obtain pc g1 r g2 where g1: "on_target (located (GP 169) (arm_read_register 15)) (on_trace trace_disable g) = Some (pc, g1)"
    "on_target (located (GP 170) (arm_read_word (pc - 4) i)) g1 = Some (r, g2)" "g' = on_trace trace_enable g2"
    using assms(1) by (auto simp: cont_look_def bind_eq_Some_conv Let_def)
  have k: "kept (on_trace trace_disable g) g1" by (rule kept_read_register [OF g1(1)]) (use assms(2) in simp)
  then have "room 1 (trace (target g1))" using room_kept [OF k, of 1] assms(2) by simp
  from kept_read_word [OF g1(2) this] k have "kept (on_trace trace_disable g) g2" using kept_trans by blast
  then show ?thesis unfolding g1(3) using assms(3) kept_quiet by blast
qed

text \<open>What the handlers rely on, kept by every operation that is \<^const>\<open>kept\<close>.\<close>

definition ready :: "gdb_protocol_data \<Rightarrow> bool" where
  "ready g \<longleftrightarrow> room 2 (trace (target g)) \<and> enabled (trace (target g)) \<and> target_exception g = 0"

lemma ready_kept: "kept g g' \<Longrightarrow> ready g \<Longrightarrow> ready g'"
  using room_kept [of g g' 2] enabled_kept [of g g'] by (auto simp: ready_def kept_def)

lemma ready_room [simp, dest]: "ready g \<Longrightarrow> room 2 (trace (target g))" "ready g \<Longrightarrow> room 1 (trace (target g))"
  "ready g \<Longrightarrow> enabled (trace (target g))" "ready g \<Longrightarrow> target_exception g = 0"
  using room_mono [of 2 _ 1] by (auto simp: ready_def)

fun server_of :: "progress \<Rightarrow> gdb_protocol_data" where
  "server_of (Done g) = g"
| "server_of (Running g) = g"

lemma kept_cont_loop: "cont_loop ks i g = Some r \<Longrightarrow> ready g \<Longrightarrow> kept g (server_of r)"
proof (induction ks arbitrary: i g)
  case (Cons k ks)
  then obtain j g1 where g1: "cont_look i g = Some (j, g1)" by (auto simp: bind_eq_Some_conv)
  from kept_cont_look [OF g1] Cons.prems(2) have k1: "kept g g1" by auto
  show ?case
  proof (cases "j AND 0xFFF000F0 = 0xE7F000F0")
    case True
    with Cons.prems(1) g1 k1 show ?thesis by auto
  next
    case False
    with Cons.prems(1) g1 obtain g2 where g2: "gdb_run_step k g1 = Some g2" "cont_loop ks j g2 = Some r"
      by (auto simp: bind_eq_Some_conv)
    have r1: "ready g1" using ready_kept [OF k1 Cons.prems(2)] .
    then have k2: "kept g1 g2" using kept_run_step [OF g2(1)] by auto
    from Cons.IH [OF g2(2) ready_kept [OF k2 r1]] k1 k2 show ?thesis using kept_trans by blast
  qed
qed auto

lemma kept_cont:
  assumes "cont ks k g = Some r" "ready g"
  shows "kept g (server_of r)"
proof -
  obtain r1 where r1: "cont_loop ks (uninit_word k) g = Some r1" using assms(1) by (auto simp: cont_def bind_eq_Some_conv)
  note k = kept_cont_loop [OF r1 assms(2)]
  show ?thesis
  proof (cases r1)
    case (Done g1)
    with assms(1) r1 obtain g2 where "gdb_send_stop_reason g1 = Some g2" "r = Done g2" by (auto simp: cont_def)
    with k Done show ?thesis using kept_stop_reason by (auto intro: kept_trans)
  qed (use assms(1) r1 k in \<open>simp add: cont_def\<close>)
qed

lemma kept_step:
  assumes "gdb_step k g = Some g'" "ready g"
  shows "kept g g'"
proof -
  obtain g1 where g1: "gdb_run_step k g = Some g1" "gdb_send_stop_reason g1 = Some g'"
    using assms(1) by (auto simp: gdb_step_def bind_eq_Some_conv)
  have "kept g g1" by (rule kept_run_step [OF g1(1)]) (use assms(2) in auto)
  with kept_stop_reason [OF g1(2)] show ?thesis by (rule kept_trans [rotated])
qed

lemma kept_query: "query raw g = Some g' \<Longrightarrow> kept g g'"
  by (auto simp: query_def bind_eq_Some_conv split: if_splits intro: kept_send_data)

lemma kept_set_thread: "set_thread raw g = Some g' \<Longrightarrow> kept g g'"
  by (auto simp: set_thread_def bind_eq_Some_conv Let_def split: if_splits intro: kept_send_data)

lemma kept_read_general_registers:
  assumes "read_general_registers be g = Some g'" "ready g"
  shows "kept g g'"
proof -
  let ?g = "on_trace trace_disable g"
  obtain g1 pc g2 g3 g4 g5 v g6 g7 where g:
    "put_registers be [0..<15] 1 ?g = Some g1" "on_target (located (GP 221) (arm_read_register 15)) g1 = Some (pc, g2)"
    "put_text 121 (write_uint32 be (pc - 4)) g2 = Some g3" "put_blanks 24 129 g3 = Some g4"
    "put_text 321 ''xxxxxxxx'' g4 = Some g5" "on_target (located (GP 235) arm_read_cpsr) g5 = Some (v, g6)"
    "put_text 329 (write_uint32 be v) g6 = Some g7" "gdb_send_buffer (on_trace trace_enable g7) = Some g'"
    using assms(1) by (auto simp: read_general_registers_def bind_eq_Some_conv Let_def simp del: upt_rec_numeral)
  have room: "kept ?g h \<Longrightarrow> room 1 (trace (target h))" for h using room_kept [of ?g h 1] assms(2) by auto
  have k1: "kept ?g g1" by (rule kept_put_registers [OF g(1) room]) simp
  have "kept ?g g5" using k1 kept_read_register [OF g(2) room [OF k1]] kept_put_text [OF g(3)] kept_put_blanks [OF g(4)]
      kept_put_text [OF g(5)] by (meson kept_trans)
  then have "kept ?g g7" using kept_read_cpsr [OF g(6) room] kept_put_text [OF g(7)] by (meson kept_trans)
  with assms(2) kept_send_buffer [OF g(8)] show ?thesis by (meson kept_quiet kept_trans ready_room(3))
qed

lemma kept_read_register_command:
  assumes "gdb_read_register be raw g = Some g'" "ready g"
  shows "kept g g'"
proof -
  let ?g = "on_trace trace_disable g"
  have room: "room 1 (trace (target ?g))" using assms(2) by auto
  obtain data where "c_string raw = Some data" using assms(1) by (auto simp: gdb_read_register_def bind_eq_Some_conv)
  with assms(1) have "g' = g\<lparr>terminated := True\<rparr> \<or> (\<exists>r v g1 t g2.
      on_target (located (GP 260) (arm_read_register r)) ?g = Some (v, g1) \<and> put_text 1 t g1 = Some g2 \<and>
      gdb_send_buffer (on_trace trace_enable g2) = Some g')"
    by (fastforce simp: gdb_read_register_def bind_eq_Some_conv Let_def split: if_splits)
  then show ?thesis
  proof
    assume "\<exists>r v g1 t g2. on_target (located (GP 260) (arm_read_register r)) ?g = Some (v, g1) \<and> put_text 1 t g1 = Some g2 \<and>
      gdb_send_buffer (on_trace trace_enable g2) = Some g'"
    then obtain r v g1 t g2 where g: "on_target (located (GP 260) (arm_read_register r)) ?g = Some (v, g1)"
      "put_text 1 t g1 = Some g2" "gdb_send_buffer (on_trace trace_enable g2) = Some g'" by blast
    have "kept ?g g2" using kept_read_register [OF g(1) room] kept_put_text [OF g(2)] by (rule kept_trans)
    with assms(2) kept_send_buffer [OF g(3)] show ?thesis by (meson kept_quiet kept_trans ready_room(3))
  qed simp
qed

lemma kept_write_general_registers:
  assumes "write_general_registers be k raw g = Some g'" "ready g"
  shows "kept g g'"
proof -
  let ?g = "on_trace trace_disable g"
  obtain g1 v g2 where g: "take_registers be k [0..<16] raw ?g = Some g1"
    "on_target (located (GP 322) (arm_write_cpsr v)) g1 = Some ((), g2)"
    "gdb_send_data ''OK'' (on_trace trace_enable g2) = Some g'"
    using assms(1) by (auto simp: write_general_registers_def bind_eq_Some_conv Let_def simp del: upt_rec_numeral)
  have k1: "kept ?g g1" by (rule kept_take_registers [OF g(1)]) (use assms(2) in auto)
  then have "room 1 (trace (target g1))" using room_kept [OF k1, of 1] assms(2) by auto
  from kept_trans [OF k1 kept_write_cpsr [OF g(2) this]] assms(2) kept_send_data [OF g(3)] show ?thesis
    by (meson kept_quiet kept_trans ready_room(3))
qed

lemma kept_write_register_command:
  assumes "gdb_write_register be k raw g = Some g'" "ready g"
  shows "kept g g'"
proof -
  let ?g = "on_trace trace_disable g"
  have room: "room 1 (trace (target ?g))" using assms(2) by auto
  have "g' = g\<lparr>terminated := True\<rparr> \<or> (\<exists>r v g1.
      on_target (located (GP 365) (arm_write_register r v)) ?g = Some ((), g1) \<and>
      gdb_send_data ''OK'' (on_trace trace_enable g1) = Some g')"
    using assms(1) by (fastforce simp: gdb_write_register_def bind_eq_Some_conv Let_def split: if_splits)
  then show ?thesis
  proof
    assume "\<exists>r v g1. on_target (located (GP 365) (arm_write_register r v)) ?g = Some ((), g1) \<and>
      gdb_send_data ''OK'' (on_trace trace_enable g1) = Some g'"
    then obtain r v g1 where g: "on_target (located (GP 365) (arm_write_register r v)) ?g = Some ((), g1)"
      "gdb_send_data ''OK'' (on_trace trace_enable g1) = Some g'" by blast
    from kept_write_register [OF g(1) room] assms(2) kept_send_data [OF g(2)] show ?thesis
      by (meson kept_quiet kept_trans ready_room(3))
  qed simp
qed

lemma kept_read_memory_loop: "read_memory_loop m n a v i g = Some g' \<Longrightarrow> kept g g'"
  by (induction m n a v i g rule: read_memory_loop.induct)
    (fastforce simp: bind_eq_Some_conv split: if_splits dest: kept_put_text intro: kept_trans)+

lemma kept_read_memory: "read_memory k raw g = Some g' \<Longrightarrow> kept g g'"
proof -
  assume a: "read_memory k raw g = Some g'"
  then obtain data where data: "c_string raw = Some data" by (auto simp: read_memory_def bind_eq_Some_conv)
  obtain a n where "scan_pair data (uninit_word k) (uninit_word k) = (a, n)" by fastforce
  with a data obtain p g1 where "read_memory_loop (memo (target g)) (unat n) a (uninit_byte k) 1 (g\<lparr>packet := p\<rparr>) = Some g1"
    "gdb_send_buffer g1 = Some g'"
    by (auto simp: read_memory_def bind_eq_Some_conv)
  then show "kept g g'" using kept_read_memory_loop kept_send_buffer kept_packet(1) by (meson kept_trans)
qed

lemma write_memory_loop_shape:
  "write_memory_loop n a content m = Some (ok, m') \<Longrightarrow> mem_size m' = mem_size m \<and> mem_be m' = mem_be m"
proof (induction n arbitrary: a content m)
  case (Suc n)
  then obtain v rest m1 where m1: "store_byte m (unat a) v = Some m1"
    "write_memory_loop n (a + 1) rest m1 = Some (ok, m') \<or> m' = m1"
    by (auto simp: bind_eq_Some_conv memory_write_byte_def split: if_splits prod.splits)
  with Suc.IH [of "a + 1" rest m1] store_byte_shape [OF m1(1)] show ?case by auto
qed simp

lemma kept_write_memory: "write_memory_binary k raw g = Some g' \<Longrightarrow> kept g g'"
proof -
  assume a: "write_memory_binary k raw g = Some g'"
  then obtain data where data: "c_string raw = Some data" by (auto simp: write_memory_binary_def bind_eq_Some_conv)
  obtain a n where "scan_pair data (uninit_word k) (uninit_word k) = (a, n)" by fastforce
  with a data obtain content ok m s where w:
    "write_memory_loop (unat n) a content (memo (target g)) = Some (ok, m) \<or> m = memo (target g)"
    "gdb_send_data s (g\<lparr>target := set_mem m (target g)\<rparr>) = Some g'"
    by (auto simp: write_memory_binary_def bind_eq_Some_conv Let_def split: if_splits)
  from w(1) have "kept g (g\<lparr>target := set_mem m (target g)\<rparr>)"
    by (auto simp: kept_def shape_def set_mem_def dest: write_memory_loop_shape)
  with kept_send_data [OF w(2)] show "kept g g'" by (meson kept_trans)
qed

subsection \<open>Packets\<close>

lemma kept_run_handler: "run_handler h ks k be raw g = Some r \<Longrightarrow> ready g \<Longrightarrow> kept g (server_of r)"
  by (cases h) (auto simp: run_handler_def reason_def kept_cont kept_step kept_stop_reason kept_query kept_set_thread
      kept_read_general_registers kept_read_register_command kept_write_general_registers kept_write_register_command
      kept_read_memory kept_write_memory)

lemma kept_packet_analysis:
  assumes "gdb_packet_analysis ks k be p g = Some r" "ready g"
  shows "kept g (server_of r)"
proof -
  have ack: "kept g (gdb_send_ack g)" "ready (gdb_send_ack g)"
    using ready_kept [OF _ assms(2)] by simp_all
  have "r = Done (gdb_require_retransmission g) \<or>
      (\<exists>h raw. run_handler h ks k be raw (gdb_send_ack g) = Some r) \<or>
      (\<exists>g'. r = Done g' \<and> gdb_send_data '''' (gdb_send_ack g) = Some g')"
    using assms(1) by (auto simp: gdb_packet_analysis_def bind_eq_Some_conv Let_def split: if_splits option.splits)
  then show ?thesis
  proof (elim disjE exE conjE)
    fix h raw assume "run_handler h ks k be raw (gdb_send_ack g) = Some r"
    from kept_trans [OF ack(1) kept_run_handler [OF this ack(2)]] show ?thesis .
  next
    fix g' assume "r = Done g'" "gdb_send_data '''' (gdb_send_ack g) = Some g'"
    with kept_trans [OF ack(1) kept_send_data] show ?thesis by simp
  qed simp
qed

end
