(* ===== verification/Debug.thy ===== *)
theory Debug
  imports Prelude "HOL-Library.Char_ord" "HOL-Library.List_Lexorder"
begin

text \<open>
  The table of debugged files of \<open>debug.c\<close>: an array of 64 strings kept in order, insertion and binary
  search.  The array is a function of the index; an index outside 0 to 63 is outside the array.
\<close>

subsection \<open>Operations\<close>

text \<open>\<open>strcmp\<close> of the C library: only the sign of its result is specified.\<close>

fun strcmp :: "string \<Rightarrow> string \<Rightarrow> int" where
  "strcmp [] [] = 0"
| "strcmp [] (_ # _) = -1"
| "strcmp (_ # _) [] = 1"
| "strcmp (x # xs) (y # ys) =
     (if (of_char x :: nat) < of_char y then -1 else if (of_char y :: nat) < of_char x then 1 else strcmp xs ys)"

abbreviation (input) "MAX_FILES_NUMBER \<equiv> (64 :: nat)"

record debug_state =
  debugged_files :: "nat \<Rightarrow> string"
  nb_debugged_files :: nat

definition debug_initial :: debug_state where
  "debug_initial = \<lparr>debugged_files = (\<lambda>_. []), nb_debugged_files = 0\<rparr>"

text \<open>The \<open>while\<close> loop of \<open>add_debug_to\<close>, from index \<open>i\<close>.\<close>

function insertion_index :: "debug_state \<Rightarrow> string \<Rightarrow> nat \<Rightarrow> nat" where
  "insertion_index d name i =
     (if i < nb_debugged_files d \<and> i < MAX_FILES_NUMBER \<and> strcmp (debugged_files d i) name < 0
      then insertion_index d name (i + 1) else i)"
  by auto
termination by (relation "measure (\<lambda>(d, name, i). MAX_FILES_NUMBER - i)") auto

declare insertion_index.simps [simp del]

text \<open>The \<open>for\<close> loop: entries move up by one, from index \<open>j\<close> down to \<open>i + 1\<close>.\<close>

fun move_up :: "nat \<Rightarrow> nat \<Rightarrow> (nat \<Rightarrow> string) \<Rightarrow> (nat \<Rightarrow> string) option" where
  "move_up i 0 files = Some files"
| "move_up i (Suc j) files =
     (if i < Suc j then
        if Suc j < MAX_FILES_NUMBER then move_up i j (files(Suc j := files j)) else None
      else Some files)"

definition add_debug_to :: "string \<Rightarrow> debug_state \<Rightarrow> debug_state option" where
  "add_debug_to name d =
     (let i = insertion_index d name 0 in
      if MAX_FILES_NUMBER \<le> i then Some d
      else do {
        files \<leftarrow> move_up i (nb_debugged_files d) (debugged_files d);
        Some \<lparr>debugged_files = files(i := name), nb_debugged_files = nb_debugged_files d + 1\<rparr>
      })"

text \<open>The search between \<open>from\<close> and \<open>to\<close>, both \<open>int\<close>.\<close>

definition file_at :: "debug_state \<Rightarrow> int \<Rightarrow> string option" where
  "file_at d i = (if 0 \<le> i \<and> i < int MAX_FILES_NUMBER then Some (debugged_files d (nat i)) else None)"

function debug_search :: "debug_state \<Rightarrow> string \<Rightarrow> int \<Rightarrow> int \<Rightarrow> bool option" where
  "debug_search d name from to =
     (if from < to then do {
        let middle = (from + to) div 2;
        f \<leftarrow> file_at d middle;
        let result = strcmp f name;
        (if result < 0 then debug_search d name (middle + 1) to
         else if 0 < result then debug_search d name from (middle - 1)
         else Some True)
      } else if from = to then do {
        f \<leftarrow> file_at d from;
        Some (strcmp f name = 0)
      } else Some False)"
  by auto
termination
  by (relation "measure (\<lambda>(d, name, from, to). nat (to - from))") auto

declare debug_search.simps [simp del]

definition is_debugged :: "debug_state \<Rightarrow> string \<Rightarrow> bool option" where
  "is_debugged d name = debug_search d name 0 (int (nb_debugged_files d) - 1)"

text \<open>\<open>isprint\<close> in the C locale; the characters printed by \<open>__debug_raw_binary\<close>.\<close>

definition isprint :: "char \<Rightarrow> bool" where
  "isprint c \<longleftrightarrow> 32 \<le> (of_char c :: nat) \<and> (of_char c :: nat) < 127"

fun debug_raw_binary :: "string \<Rightarrow> nat \<Rightarrow> string option" where
  "debug_raw_binary data 0 = Some []"
| "debug_raw_binary [] (Suc len) = None"
| "debug_raw_binary (c # data) (Suc len) = do {
     rest \<leftarrow> debug_raw_binary data len;
     Some ((if isprint c then c else CHR ''.'') # rest)
   }"

subsection \<open>strcmp is the lexicographic order\<close>

lemma strcmp_order: "strcmp a b < 0 \<longleftrightarrow> a < b" "0 < strcmp a b \<longleftrightarrow> b < a"
  by (induction a b rule: strcmp.induct) (auto simp: less_char_def)

lemma strcmp_eq: "strcmp a b = 0 \<longleftrightarrow> a = b"
  by (metis less_irrefl linorder_neqE strcmp_order)


subsection \<open>The table as a sorted list\<close>

definition entries :: "debug_state \<Rightarrow> string list" where
  "entries d = map (debugged_files d) [0..<nb_debugged_files d]"

definition wf_debug :: "debug_state \<Rightarrow> bool" where
  "wf_debug d \<longleftrightarrow> nb_debugged_files d \<le> 64 \<and> sorted (entries d)"

lemma length_entries [simp]: "length (entries d) = nb_debugged_files d"
  by (simp add: entries_def)

lemma entries_nth [simp]: "i < nb_debugged_files d \<Longrightarrow> entries d ! i = debugged_files d i"
  by (simp add: entries_def)

lemma insort_takeWhile: "insort x xs = takeWhile (\<lambda>y. y < x) xs @ x # dropWhile (\<lambda>y. y < x) (xs :: string list)"
  by (induction xs) auto

lemma insertion_index_eq:
  "nb_debugged_files d \<le> 64 \<Longrightarrow> i \<le> nb_debugged_files d \<Longrightarrow>
   insertion_index d name i = i + length (takeWhile (\<lambda>f. f < name) (drop i (entries d)))"
proof (induction d name i rule: insertion_index.induct)
  case (1 d name i)
  show ?case
  proof (cases "i < nb_debugged_files d")
    case True
    then have "drop i (entries d) = debugged_files d i # drop (Suc i) (entries d)"
      by (simp add: Cons_nth_drop_Suc flip: entries_nth)
    with True 1 show ?thesis by (subst insertion_index.simps) (simp add: strcmp_order)
  next
    case False
    with 1 show ?thesis by (subst insertion_index.simps) simp
  qed
qed

lemma move_up_eq:
  "j < 64 \<Longrightarrow> move_up i j files = Some (\<lambda>n. if i < n \<and> n \<le> j then files (n - 1) else files n)"
proof (induction j arbitrary: files)
  case (Suc j)
  then show ?case by (auto simp: fun_eq_iff le_Suc_eq)
qed (simp add: fun_eq_iff)

lemma add_debug_to_eq:
  assumes "wf_debug d" "nb_debugged_files d < 64"
  shows "\<exists>d'. add_debug_to name d = Some d' \<and> entries d' = insort name (entries d) \<and>
    nb_debugged_files d' = nb_debugged_files d + 1"
proof -
  define n where "n = nb_debugged_files d"
  define i where "i = length (takeWhile (\<lambda>f. f < name) (entries d))"
  have i: "i \<le> n" using length_takeWhile_le [of _ "entries d"] by (simp add: i_def n_def)
  have idx: "insertion_index d name 0 = i"
    using insertion_index_eq [of d 0 name] assms(2) by (simp add: i_def)
  define files where "files = (\<lambda>m. if i < m \<and> m \<le> n then debugged_files d (m - 1) else debugged_files d m)"
  have add: "add_debug_to name d = Some \<lparr>debugged_files = files(i := name), nb_debugged_files = n + 1\<rparr>"
    using assms(2) i by (simp add: add_debug_to_def idx move_up_eq files_def n_def)
  have "map (files(i := name)) [0..<n + 1] = take i (entries d) @ name # drop i (entries d)"
    using i by (auto simp: list_eq_iff_nth_eq nth_append nth_Cons' files_def n_def min_def less_Suc_eq)
  also have "\<dots> = insort name (entries d)"
    by (simp add: insort_takeWhile i_def takeWhile_eq_take [symmetric] dropWhile_eq_drop [symmetric])
  finally show ?thesis using add by (simp add: entries_def n_def)
qed


lemma entries_sorted:
  assumes "wf_debug d" "i \<le> j" "j < nb_debugged_files d"
  shows "debugged_files d i \<le> debugged_files d j"
  using sorted_nth_mono [of "entries d" i j] assms by (simp add: wf_debug_def)

definition found :: "debug_state \<Rightarrow> string \<Rightarrow> int \<Rightarrow> int \<Rightarrow> bool" where
  "found d name lo hi \<longleftrightarrow> (\<exists>i. lo \<le> int i \<and> int i \<le> hi \<and> debugged_files d i = name)"

text \<open>The half of the table the search drops does not hold the name.\<close>

lemma found_right:
  assumes "wf_debug d" "lo \<le> m" "0 \<le> m" "m < int (nb_debugged_files d)" "debugged_files d (nat m) < name"
  shows "found d name (m + 1) hi = found d name lo hi"
proof -
  have "debugged_files d i < name" if "int i \<le> m" for i
  proof -
    have "i \<le> nat m" "nat m < nb_debugged_files d" using that assms(3,4) by linarith+
    from entries_sorted [OF assms(1) this] assms(5) show ?thesis by (rule le_less_trans)
  qed
  then show ?thesis using assms(2) unfolding found_def by (intro ex_cong1) force
qed

lemma found_left:
  assumes "wf_debug d" "m \<le> hi" "hi < int (nb_debugged_files d)" "name < debugged_files d (nat m)"
  shows "found d name lo (m - 1) = found d name lo hi"
proof -
  have "name < debugged_files d i" if "m \<le> int i" "int i \<le> hi" for i
  proof -
    have "nat m \<le> i" "i < nb_debugged_files d" using that assms(3) by linarith+
    from assms(4) entries_sorted [OF assms(1) this] show ?thesis by (rule less_le_trans)
  qed
  then show ?thesis using assms(2) unfolding found_def by (intro ex_cong1) force
qed

lemma found_one: "0 \<le> hi \<Longrightarrow> found d name hi hi \<longleftrightarrow> debugged_files d (nat hi) = name"
  by (auto simp: found_def intro!: exI [of _ "nat hi"])

lemma debug_search_eq:
  assumes "wf_debug d" "0 \<le> lo" "hi < int (nb_debugged_files d)"
  shows "debug_search d name lo hi = Some (found d name lo hi)"
  using assms
proof (induction d name lo hi rule: debug_search.induct)
  case (1 d name lo hi)
  define m where "m = (lo + hi) div 2"
  have nb: "nb_debugged_files d \<le> 64" using 1 by (simp add: wf_debug_def)
  consider "lo < hi" | "lo = hi" | "hi < lo" by linarith
  then show ?case
  proof cases
    case lt: 1
    then have m: "0 \<le> m" "lo \<le> m" "m \<le> hi" "m < int 64" "m < int (nb_debugged_files d)" using 1 nb by (auto simp: m_def)
    have at: "file_at d m = Some (debugged_files d (nat m))" using m by (simp add: file_at_def)
    have unfold: "debug_search d name lo hi =
        (if debugged_files d (nat m) < name then debug_search d name (m + 1) hi
         else if name < debugged_files d (nat m) then debug_search d name lo (m - 1) else Some True)"
      using lt at by (subst debug_search.simps) (simp add: Let_def m_def strcmp_order)
    consider "debugged_files d (nat m) < name" | "name < debugged_files d (nat m)" | "debugged_files d (nat m) = name"
      by (meson linorder_neqE)
    then show ?thesis
    proof cases
      case c: 1
      have "debug_search d name (m + 1) hi = Some (found d name (m + 1) hi)"
        by (rule "1.IH"(1) [OF lt m_def at refl]) (use "1.prems" m c in \<open>simp_all add: strcmp_order\<close>)
      then show ?thesis using c found_right [OF 1(3) m(2,1,5) c] by (simp add: unfold)
    next
      case c: 2
      have "debug_search d name lo (m - 1) = Some (found d name lo (m - 1))"
        by (rule "1.IH"(2) [OF lt m_def at refl]) (use "1.prems" m c less_not_sym [OF c] in \<open>simp_all add: strcmp_order\<close>)
      then show ?thesis using c less_not_sym [OF c] found_left [OF 1(3) m(3) 1(5) c] by (simp add: unfold)
    next
      case 3
      then show ?thesis using m by (auto simp: unfold found_def intro!: exI [of _ "nat m"])
    qed
  next
    case 2
    then have "file_at d lo = Some (debugged_files d (nat lo))" using 1 nb by (simp add: file_at_def)
    then show ?thesis using 2 1 by (subst debug_search.simps) (simp add: strcmp_eq found_one)
  next
    case 3
    then show ?thesis by (subst debug_search.simps) (auto simp: found_def)
  qed
qed

lemma is_debugged_eq: "wf_debug d \<Longrightarrow> is_debugged d name = Some (name \<in> set (entries d))"
  by (auto simp: is_debugged_def debug_search_eq found_def entries_def)

lemma wf_debug_add: "wf_debug d \<Longrightarrow> nb_debugged_files d < 64 \<Longrightarrow> add_debug_to name d = Some d' \<Longrightarrow> wf_debug d'"
  using add_debug_to_eq [of d name] by (auto simp: wf_debug_def sorted_insort)

fun add_all :: "string list \<Rightarrow> debug_state \<Rightarrow> debug_state option" where
  "add_all [] d = Some d"
| "add_all (n # ns) d = do { d \<leftarrow> add_debug_to n d; add_all ns d }"

lemma add_all_eq:
  "wf_debug d \<Longrightarrow> nb_debugged_files d + length names \<le> 64 \<Longrightarrow>
   \<exists>d'. add_all names d = Some d' \<and> wf_debug d' \<and> set (entries d') = set names \<union> set (entries d) \<and>
     nb_debugged_files d' = nb_debugged_files d + length names"
proof (induction names arbitrary: d)
  case (Cons n names)
  then have nb: "nb_debugged_files d < 64" by simp
  obtain d1 where d1: "add_debug_to n d = Some d1" "entries d1 = insort n (entries d)"
    "nb_debugged_files d1 = nb_debugged_files d + 1"
    using add_debug_to_eq [OF Cons.prems(1) nb, of n] by blast
  with wf_debug_add [OF Cons.prems(1) nb] Cons.IH [of d1] Cons.prems show ?case by (auto simp: set_insort_key)
qed simp

lemma wf_debug_initial: "wf_debug debug_initial" "entries debug_initial = []" "nb_debugged_files debug_initial = 0"
  by (simp_all add: wf_debug_def debug_initial_def entries_def)

subsection \<open>Properties\<close>

text \<open>Adding a file to a table with a free entry keeps the table sorted and adds exactly that name.\<close>

theorem add_debug_sorted:
  assumes "wf_debug d" "nb_debugged_files d < 64"
  shows "\<exists>d'. add_debug_to name d = Some d' \<and> entries d' = insort name (entries d) \<and> wf_debug d'"
  using add_debug_to_eq [OF assms] wf_debug_add [OF assms] by blast

theorem add_debug_sorted_witness:
  "\<exists>d'. add_debug_to ''util.c'' debug_initial = Some d' \<and> entries d' = [''util.c''] \<and> wf_debug d'"
  using add_debug_sorted [of debug_initial "''util.c''"] by (simp add: wf_debug_initial)

text \<open>C29: the binary search finds a name exactly when the table holds it: after at most 64 additions to the
  empty table, in any order and with repetitions, the debugged files are the added names.\<close>

theorem is_debugged_iff_added:
  assumes "length names \<le> 64"
  shows "\<exists>d. add_all names debug_initial = Some d \<and> (\<forall>name. is_debugged d name = Some (name \<in> set names))"
  using add_all_eq [OF wf_debug_initial(1), of names] assms by (auto simp: wf_debug_initial is_debugged_eq)

theorem is_debugged_iff_added_witness:
  "\<exists>d. add_all [''memory.c'', ''arm_core.c'', ''util.c''] debug_initial = Some d \<and>
     is_debugged d ''arm_core.c'' = Some True \<and> is_debugged d ''gdb.c'' = Some False"
  using is_debugged_iff_added [of "[''memory.c'', ''arm_core.c'', ''util.c'']"] by auto

text \<open>On a full table the insertion is refused only when the name follows every entry; otherwise the loop that
  makes room writes one entry past the end of the array.\<close>

theorem add_debug_full:
  assumes "wf_debug d" "nb_debugged_files d = 64"
  shows "add_debug_to name d = (if \<forall>f. f \<in> set (entries d) \<longrightarrow> f < name then Some d else None)"
proof -
  define i where "i = length (takeWhile (\<lambda>f. f < name) (entries d))"
  have idx: "insertion_index d name 0 = i" using insertion_index_eq [of d 0 name] assms(2) by (simp add: i_def)
  show ?thesis
  proof (cases "\<forall>f. f \<in> set (entries d) \<longrightarrow> f < name")
    case True
    then have "i = 64" using assms(2) by (simp add: i_def takeWhile_eq_all_conv [THEN iffD2])
    with True show ?thesis by (simp add: add_debug_to_def idx)
  next
    case False
    then have "takeWhile (\<lambda>f. f < name) (entries d) \<noteq> entries d" by (auto simp: takeWhile_eq_all_conv)
    then have "i \<noteq> 64" using assms(2) by (metis i_def length_entries takeWhile_eq_take take_all order_refl)
    moreover have "i \<le> 64" using length_takeWhile_le [of _ "entries d"] assms(2) by (simp add: i_def)
    ultimately have "i < 64" by simp
    moreover from this have "move_up i 64 f = None" for f
      using move_up.simps(2) [of i 63] by simp
    ultimately show ?thesis using False assms(2) by (auto simp: add_debug_to_def idx)
  qed
qed

text \<open>A table filled with 64 times the same name.\<close>

theorem add_debug_full_witness:
  "wf_debug \<lparr>debugged_files = (\<lambda>_. ''b''), nb_debugged_files = 64\<rparr> \<and>
   add_debug_to ''c'' \<lparr>debugged_files = (\<lambda>_. ''b''), nb_debugged_files = 64\<rparr> =
     Some \<lparr>debugged_files = (\<lambda>_. ''b''), nb_debugged_files = 64\<rparr> \<and>
   add_debug_to ''a'' \<lparr>debugged_files = (\<lambda>_. ''b''), nb_debugged_files = 64\<rparr> = None"
proof -
  let ?d = "\<lparr>debugged_files = (\<lambda>_. ''b''), nb_debugged_files = 64\<rparr>"
  have e: "entries ?d = replicate 64 ''b''" by (simp add: entries_def map_replicate_const)
  then have w: "wf_debug ?d" by (simp add: wf_debug_def)
  have o: "''b'' < ''c''" "\<not> ''b'' < ''a''" by (simp_all add: less_char_def)
  show ?thesis using add_debug_full [OF w] w e o by (simp add: wf_debug_def)
qed

end
