(* ===== verification/Csapp.thy ===== *)
theory Csapp
  imports Prelude
begin

text \<open>
  The wrappers of \<open>csapp.c\<close> the program calls and the transfers of its Rio package.  The results of the system
  calls are arguments: a call that does not return yet is \<^const>\<open>None\<close>, a failed one carries its \<open>errno\<close>.
\<close>

subsection \<open>Errors and wrappers\<close>

text \<open>A function has returned, or it has ended the process with an exit status and the texts it printed on the
  standard error.\<close>

datatype 'a outcome = Value 'a | Exits nat "string list"

fun and_then :: "'a outcome \<Rightarrow> ('a \<Rightarrow> 'b outcome) \<Rightarrow> 'b outcome" where
  "and_then (Value x) f = f x"
| "and_then (Exits status texts) f = Exits status texts"

lemma case_outcome_Value:
  "(case r of Value x \<Rightarrow> f x | Exits status texts \<Rightarrow> Some (Exits status texts)) = Some (Value y) \<longleftrightarrow>
   (\<exists>x. r = Value x \<and> f x = Some (Value y))"
  by (cases r) auto

text \<open>The result of a system call, with the text \<open>strerror\<close> gives for its \<open>errno\<close>.\<close>

type_synonym call = "int \<times> string"

definition unix_error :: "string \<Rightarrow> string \<Rightarrow> 'a outcome" where
  "unix_error msg strerror = Exits 0 [msg @ '': '' @ strerror @ [CHR 0x0A]]"

definition dns_error :: "string \<Rightarrow> string \<Rightarrow> 'a outcome" where
  "dns_error msg h_errno = Exits 0 [msg @ '': DNS error '' @ h_errno @ [CHR 0x0A]]"

definition csapp_Read :: "call \<Rightarrow> int outcome" where
  "csapp_Read r = (if fst r < 0 then unix_error ''Read error'' (snd r) else Value (fst r))"

definition csapp_Write :: "call \<Rightarrow> int outcome" where
  "csapp_Write r = (if fst r < 0 then unix_error ''Write error'' (snd r) else Value (fst r))"

definition csapp_Socket :: "call \<Rightarrow> int outcome" where
  "csapp_Socket r = (if fst r < 0 then unix_error ''Socket error'' (snd r) else Value (fst r))"

definition csapp_Setsockopt :: "call \<Rightarrow> unit outcome" where
  "csapp_Setsockopt r = (if fst r < 0 then unix_error ''Setsockopt error'' (snd r) else Value ())"

definition csapp_Bind :: "call \<Rightarrow> unit outcome" where
  "csapp_Bind r = (if fst r < 0 then unix_error ''Bind error'' (snd r) else Value ())"

definition csapp_Listen :: "call \<Rightarrow> unit outcome" where
  "csapp_Listen r = (if fst r < 0 then unix_error ''Listen error'' (snd r) else Value ())"

definition csapp_Accept :: "call \<Rightarrow> int outcome" where
  "csapp_Accept r = (if fst r < 0 then unix_error ''Accept error'' (snd r) else Value (fst r))"

definition csapp_Connect :: "call \<Rightarrow> unit outcome" where
  "csapp_Connect r = (if fst r < 0 then unix_error ''Connect error'' (snd r) else Value ())"

definition csapp_Gethostbyname :: "'h option \<times> string \<Rightarrow> 'h outcome" where
  "csapp_Gethostbyname r = (case fst r of None \<Rightarrow> dns_error ''Gethostbyname error'' (snd r) | Some h \<Rightarrow> Value h)"

subsection \<open>Transfers of the kernel\<close>

text \<open>
  A write of \<open>n > 0\<close> characters returns how many of them were taken, at most what the kernel has room for; a read
  returns some of the characters that have arrived, in order, 0 at the end of the stream, or fails.  The record
  holds what is still to come, the texts already written, and the unread part of the buffer of \<open>rio_t\<close>, the
  \<open>rio_cnt\<close> characters at \<open>rio_bufptr\<close> (empty when \<open>rio_cnt\<close> is not positive).
\<close>

abbreviation (input) "EINTR \<equiv> (4 :: int)"
abbreviation (input) "RIO_BUFSIZE \<equiv> (8192 :: nat)"

datatype write_result = Accepted nat | Write_error int
datatype read_result = Data string | End_of_file | Read_error int

record stream_io =
  errno :: int
  writes :: "write_result list"
  written :: string
  incoming :: "read_result list"
  unread :: string

definition sys_write :: "string \<Rightarrow> stream_io \<Rightarrow> (int \<times> stream_io) option" where
  "sys_write s io = (case writes io of
      [] \<Rightarrow> None
    | Accepted n # ws \<Rightarrow> Some (int (min n (length s)), io\<lparr>writes := ws, written := written io @ take n s\<rparr>)
    | Write_error e # ws \<Rightarrow> Some (-1, io\<lparr>writes := ws, errno := e\<rparr>))"

definition sys_read :: "nat \<Rightarrow> stream_io \<Rightarrow> ((int \<times> string) \<times> stream_io) option" where
  "sys_read n io = (case incoming io of
      [] \<Rightarrow> None
    | Data s # rs \<Rightarrow> Some ((int (min n (length s)), take n s),
        io\<lparr>incoming := (if n < length s then Data (drop n s) # rs else rs)\<rparr>)
    | End_of_file # rs \<Rightarrow> Some ((0, []), io\<lparr>incoming := rs\<rparr>)
    | Read_error e # rs \<Rightarrow> Some ((-1, []), io\<lparr>incoming := rs, errno := e\<rparr>))"

lemma sys_write_shorter: "sys_write s io = Some (n, io') \<Longrightarrow> length (writes io') < length (writes io)"
  by (auto simp: sys_write_def split: list.splits write_result.splits)

lemma sys_read_shorter:
  "sys_read n io = Some ((rc, s), io') \<Longrightarrow> rc = int (length s) \<or> rc < 0 \<and> length (incoming io') < length (incoming io)"
  "sys_read n io = Some ((rc, s), io') \<Longrightarrow> length (incoming io') \<le> length (incoming io)"
  by (auto simp: sys_read_def split: list.splits read_result.splits if_splits)

subsection \<open>The Rio package\<close>

text \<open>The loop of \<open>rio_writen\<close>, with the characters from \<open>bufp\<close> on; \<open>n\<close> is the number to write in all.\<close>

function rio_writen_loop :: "nat \<Rightarrow> string \<Rightarrow> stream_io \<Rightarrow> (int \<times> stream_io) option" where
  "rio_writen_loop n bufp io =
     (if 0 < length bufp then
        (case sys_write bufp io of
          None \<Rightarrow> None
        | Some (nwritten, io) \<Rightarrow>
            if nwritten \<le> 0 then
              if errno io = EINTR then rio_writen_loop n bufp io else Some (-1, io)
            else rio_writen_loop n (drop (nat nwritten) bufp) io)
      else Some (int n, io))"
  by auto
termination
  by (relation "measure (\<lambda>(n, bufp, io). length (writes io))") (auto dest: sys_write_shorter)

declare rio_writen_loop.simps [simp del]

definition rio_writen :: "string \<Rightarrow> stream_io \<Rightarrow> (int \<times> stream_io) option" where
  "rio_writen usrbuf io = rio_writen_loop (length usrbuf) usrbuf io"

definition csapp_Rio_writen :: "string \<Rightarrow> string \<Rightarrow> stream_io \<Rightarrow> (unit outcome \<times> stream_io) option" where
  "csapp_Rio_writen strerror usrbuf io = do {
     (rc, io) \<leftarrow> rio_writen usrbuf io;
     Some (if rc \<noteq> int (length usrbuf) then unix_error ''Rio_writen error'' strerror else Value (), io)
   }"

text \<open>The unbuffered read; the result is the return value and the characters stored in \<open>usrbuf\<close>.\<close>

function rio_readn_loop :: "nat \<Rightarrow> string \<Rightarrow> stream_io \<Rightarrow> ((int \<times> string) \<times> stream_io) option" where
  "rio_readn_loop nleft got io =
     (if 0 < nleft then
        (case sys_read nleft io of
          None \<Rightarrow> None
        | Some ((nread, s), io) \<Rightarrow>
            if nread < 0 then
              if errno io = EINTR then rio_readn_loop nleft got io else Some ((-1, got), io)
            else if nread = 0 then Some ((int (length got), got), io)
            else rio_readn_loop (nleft - nat nread) (got @ s) io)
      else Some ((int (length got), got), io))"
  by auto
termination
  by (relation "measure (\<lambda>(nleft, got, io). nleft + length (incoming io))") (auto dest: sys_read_shorter)

declare rio_readn_loop.simps [simp del]

definition rio_readn :: "nat \<Rightarrow> stream_io \<Rightarrow> ((int \<times> string) \<times> stream_io) option" where
  "rio_readn n io = rio_readn_loop n [] io"

text \<open>The buffered read: \<open>rio_refill\<close> is the loop of \<open>rio_read\<close>, \<^term>\<open>Some True\<close> when the buffer is not empty.\<close>

function rio_refill :: "stream_io \<Rightarrow> (int \<times> stream_io) option" where
  "rio_refill io =
     (if unread io = [] then
        (case sys_read RIO_BUFSIZE io of
          None \<Rightarrow> None
        | Some ((cnt, s), io) \<Rightarrow>
            if cnt < 0 then if errno io \<noteq> EINTR then Some (-1, io) else rio_refill io
            else if cnt = 0 then Some (0, io)
            else Some (1, io\<lparr>unread := s\<rparr>))
      else Some (1, io))"
  by auto
termination
  by (relation "measure (\<lambda>io. length (incoming io))") (auto dest: sys_read_shorter)

declare rio_refill.simps [simp del]

definition rio_read :: "nat \<Rightarrow> stream_io \<Rightarrow> ((int \<times> string) \<times> stream_io) option" where
  "rio_read n io = do {
     (state, io) \<leftarrow> rio_refill io;
     (if state \<le> 0 then Some ((state, []), io)
      else let cnt = min n (length (unread io)) in
        Some ((int cnt, take cnt (unread io)), io\<lparr>unread := drop cnt (unread io)\<rparr>))
   }"

definition rio_readinitb :: "stream_io \<Rightarrow> stream_io" where
  "rio_readinitb io = io\<lparr>unread := []\<rparr>"

text \<open>What a refill leaves to come, used for the termination of the loops below.\<close>

lemma rio_refill_shorter:
  "rio_refill io = Some (state, io') \<Longrightarrow>
   length (incoming io') \<le> length (incoming io) \<and> (state \<le> 0 \<longrightarrow> length (incoming io') < length (incoming io)) \<and>
   (0 < state \<longrightarrow> unread io' \<noteq> []) \<and> (state < 0 \<longrightarrow> errno io' \<noteq> EINTR)"
proof (induction io rule: rio_refill.induct)
  case (1 io)
  show ?case
  proof (cases "sys_read RIO_BUFSIZE io")
    case None
    with 1(2) show ?thesis by (subst (asm) rio_refill.simps) (auto split: if_splits)
  next
    case (Some p)
    obtain cnt s io1 where p: "p = ((cnt, s), io1)" by (metis surj_pair)
    with 1 Some sys_read_shorter [of RIO_BUFSIZE io cnt s io1] show ?thesis
      by (subst (asm) (2) rio_refill.simps)
        (auto simp: sys_read_def split: if_splits list.splits read_result.splits intro: le_SucI less_SucI)
  qed
qed

lemma rio_read_shorter:
  assumes "rio_read n io = Some ((rc, s), io')" "0 < n"
  shows "0 < rc \<and> rc \<le> int n \<or> rc \<le> 0 \<and> length (incoming io') < length (incoming io)" "rc < 0 \<Longrightarrow> errno io' \<noteq> EINTR"
proof -
  obtain state io1 where io1: "rio_refill io = Some (state, io1)" using assms(1) by (auto simp: rio_read_def bind_eq_Some_conv)
  from rio_refill_shorter [OF io1] assms io1 show "0 < rc \<and> rc \<le> int n \<or> rc \<le> 0 \<and> length (incoming io') < length (incoming io)"
    "rc < 0 \<Longrightarrow> errno io' \<noteq> EINTR"
    by (auto simp: rio_read_def Let_def split: if_splits)
qed

function rio_readnb_loop :: "nat \<Rightarrow> string \<Rightarrow> stream_io \<Rightarrow> ((int \<times> string) \<times> stream_io) option" where
  "rio_readnb_loop nleft got io =
     (if 0 < nleft then
        (case rio_read nleft io of
          None \<Rightarrow> None
        | Some ((nread, s), io) \<Rightarrow>
            if nread < 0 then
              if errno io = EINTR then rio_readnb_loop nleft got io else Some ((-1, got), io)
            else if nread = 0 then Some ((int (length got), got), io)
            else rio_readnb_loop (nleft - nat nread) (got @ s) io)
      else Some ((int (length got), got), io))"
  by auto
termination
  by (relation "measure (\<lambda>(nleft, got, io). nleft)") (auto dest: rio_read_shorter)

declare rio_readnb_loop.simps [simp del]

definition rio_readnb :: "nat \<Rightarrow> stream_io \<Rightarrow> ((int \<times> string) \<times> stream_io) option" where
  "rio_readnb n io = rio_readnb_loop n [] io"

text \<open>The loop of \<open>rio_readlineb\<close>: the characters stored before \<open>bufp\<close>, where a null character ends the text
  unless the result is 0 or -1.\<close>

function rio_readlineb_loop :: "nat \<Rightarrow> nat \<Rightarrow> string \<Rightarrow> stream_io \<Rightarrow> ((int \<times> string) \<times> stream_io) option" where
  "rio_readlineb_loop maxlen n got io =
     (if n < maxlen then
        (case rio_read 1 io of
          None \<Rightarrow> None
        | Some ((rc, s), io) \<Rightarrow>
            if rc = 1 then
              if s = [CHR 0x0A] then Some ((int n, got @ s), io) else rio_readlineb_loop maxlen (n + 1) (got @ s) io
            else if rc = 0 then if n = 1 then Some ((0, got), io) else Some ((int n, got), io)
            else Some ((-1, got), io))
      else Some ((int n, got), io))"
  by auto
termination
  by (relation "measure (\<lambda>(maxlen, n, got, io). maxlen - n)") auto

declare rio_readlineb_loop.simps [simp del]

definition rio_readlineb :: "nat \<Rightarrow> stream_io \<Rightarrow> ((int \<times> string) \<times> stream_io) option" where
  "rio_readlineb maxlen io = rio_readlineb_loop maxlen 1 [] io"

definition csapp_Rio_readn :: "string \<Rightarrow> nat \<Rightarrow> stream_io \<Rightarrow> ((int \<times> string) outcome \<times> stream_io) option" where
  "csapp_Rio_readn strerror n io = do {
     (r, io) \<leftarrow> rio_readn n io;
     Some (if fst r < 0 then unix_error ''Rio_readn error'' strerror else Value r, io)
   }"

definition csapp_Rio_readnb :: "string \<Rightarrow> nat \<Rightarrow> stream_io \<Rightarrow> ((int \<times> string) outcome \<times> stream_io) option" where
  "csapp_Rio_readnb strerror n io = do {
     (r, io) \<leftarrow> rio_readnb n io;
     Some (if fst r < 0 then unix_error ''Rio_readnb error'' strerror else Value r, io)
   }"

definition csapp_Rio_readlineb :: "string \<Rightarrow> nat \<Rightarrow> stream_io \<Rightarrow> ((int \<times> string) outcome \<times> stream_io) option" where
  "csapp_Rio_readlineb strerror maxlen io = do {
     (r, io) \<leftarrow> rio_readlineb maxlen io;
     Some (if fst r < 0 then unix_error ''Rio_readlineb error'' strerror else Value r, io)
   }"

definition csapp_Rio_readinitb :: "stream_io \<Rightarrow> stream_io" where
  "csapp_Rio_readinitb io = rio_readinitb io"

subsection \<open>Writing\<close>

definition kept_writing :: "write_result \<Rightarrow> bool" where
  "kept_writing r \<longleftrightarrow> (case r of Accepted n \<Rightarrow> 0 < n | Write_error e \<Rightarrow> e = EINTR)"

fun room_for :: "write_result list \<Rightarrow> nat" where
  "room_for [] = 0"
| "room_for (Accepted n # ws) = n + room_for ws"
| "room_for (Write_error e # ws) = room_for ws"

lemma rio_writen_loop_delivers:
  assumes "list_all kept_writing (writes io)" "length bufp \<le> room_for (writes io)"
  shows "\<exists>io'. rio_writen_loop n bufp io = Some (int n, io') \<and> written io' = written io @ bufp"
  using assms
proof (induction n bufp io rule: rio_writen_loop.induct)
  case (1 n bufp io)
  show ?case
  proof (cases "bufp = []")
    case True
    then show ?thesis by (subst rio_writen_loop.simps) simp
  next
    case False
    with 1(4) obtain w ws where w: "writes io = w # ws" by (cases "writes io") auto
    show ?thesis
    proof (cases w)
      case (Accepted m)
      let ?io = "io\<lparr>writes := ws, written := written io @ take m bufp\<rparr>"
      have m: "0 < m" "0 < min m (length bufp)" using 1(3) w Accepted False by (auto simp: kept_writing_def)
      have sys: "sys_write bufp io = Some (int (min m (length bufp)), ?io)" using w Accepted by (simp add: sys_write_def)
      have "\<exists>io'. rio_writen_loop n (drop (nat (int (min m (length bufp)))) bufp) ?io = Some (int n, io') \<and>
          written io' = written ?io @ drop (nat (int (min m (length bufp)))) bufp"
        by (rule "1.IH"(2) [OF _ sys refl])
          (use False m 1(3,4) w Accepted in auto)
      then show ?thesis using sys m False
        by (subst rio_writen_loop.simps) (auto simp: min_def not_le)
    next
      case (Write_error e)
      let ?io = "io\<lparr>writes := ws, errno := e\<rparr>"
      have sys: "sys_write bufp io = Some (-1, ?io)" using w Write_error by (simp add: sys_write_def)
      have e: "e = EINTR" using 1(3) w Write_error by (simp add: kept_writing_def)
      have "\<exists>io'. rio_writen_loop n bufp ?io = Some (int n, io') \<and> written io' = written ?io @ bufp"
        by (rule "1.IH"(1) [OF _ sys refl]) (use False 1(3,4) w Write_error e in auto)
      then show ?thesis using sys e False by (subst rio_writen_loop.simps) auto
    qed
  qed
qed

subsection \<open>Reading\<close>

text \<open>The characters that arrive before the end of the stream, through any number of interrupted calls, and whether
  the end follows them; a read returns at least one character when there are some.\<close>

fun arrived :: "read_result list \<Rightarrow> string" where
  "arrived [] = []"
| "arrived (Data s # rs) = s @ arrived rs"
| "arrived (End_of_file # rs) = []"
| "arrived (Read_error e # rs) = (if e = EINTR then arrived rs else [])"

fun at_end :: "read_result list \<Rightarrow> bool" where
  "at_end [] = False"
| "at_end (Data s # rs) = at_end rs"
| "at_end (End_of_file # rs) = True"
| "at_end (Read_error e # rs) = (e = EINTR \<and> at_end rs)"

definition steady :: "read_result list \<Rightarrow> bool" where
  "steady rs \<longleftrightarrow> Data [] \<notin> set rs"

definition pending :: "stream_io \<Rightarrow> string" where
  "pending io = unread io @ arrived (incoming io)"

lemma steady_Cons [simp]: "steady (r # rs) \<longleftrightarrow> r \<noteq> Data [] \<and> steady rs"
  by (auto simp: steady_def)

lemma rio_refill_some:
  assumes "steady (incoming io)" "pending io \<noteq> []"
  shows "\<exists>io'. rio_refill io = Some (1, io') \<and> unread io' \<noteq> [] \<and> pending io' = pending io \<and> steady (incoming io') \<and>
    at_end (incoming io') = at_end (incoming io)"
proof (cases "unread io = []")
  case True
  then show ?thesis using assms
  proof (induction "incoming io" arbitrary: io)
    case Nil
    then show ?case by (simp add: pending_def flip: Nil(1))
  next
    case (Cons r rs)
    show ?case
    proof (cases r)
      case (Data s)
      then show ?thesis using Cons(2-) Cons(1) Cons(3)
        by (subst rio_refill.simps) (auto simp: sys_read_def pending_def simp flip: Cons(2))
    next
      case (Read_error e)
      let ?io = "io\<lparr>incoming := rs, errno := e\<rparr>"
      have e: "e = EINTR" using Cons(2,3,5) Read_error by (auto simp: pending_def simp flip: Cons(2) split: if_splits)
      have "\<exists>io'. rio_refill ?io = Some (1, io') \<and> unread io' \<noteq> [] \<and> pending io' = pending ?io \<and> steady (incoming io') \<and>
          at_end (incoming io') = at_end (incoming ?io)"
        by (rule Cons(1)) (use Cons(2-) Read_error e in \<open>auto simp: pending_def simp flip: Cons(2)\<close>)
      then show ?thesis using Cons(3) Read_error e
        by (subst rio_refill.simps) (auto simp: sys_read_def pending_def simp flip: Cons(2))
    qed (use Cons in \<open>simp add: pending_def flip: Cons(2)\<close>)
  qed
next
  case False
  then show ?thesis using assms by (subst rio_refill.simps) auto
qed

lemma rio_refill_end:
  "steady (incoming io) \<Longrightarrow> pending io = [] \<Longrightarrow> at_end (incoming io) \<Longrightarrow>
   \<exists>io'. rio_refill io = Some (0, io') \<and> unread io' = []"
proof (induction "incoming io" arbitrary: io)
  case (Cons r rs)
  have u: "unread io = []" using Cons(4) by (simp add: pending_def)
  show ?case
  proof (cases r)
    case (Data s)
    then show ?thesis using Cons(2-) by (auto simp: pending_def simp flip: Cons(2))
  next
    case End_of_file
    then show ?thesis using u by (subst rio_refill.simps) (simp add: sys_read_def flip: Cons(2))
  next
    case (Read_error e)
    let ?io = "io\<lparr>incoming := rs, errno := e\<rparr>"
    have e: "e = EINTR" using Cons(5) Read_error by (simp flip: Cons(2))
    have "\<exists>io'. rio_refill ?io = Some (0, io') \<and> unread io' = []"
      by (rule Cons(1)) (use Cons(2-) Read_error e in \<open>auto simp: pending_def simp flip: Cons(2)\<close>)
    then show ?thesis using u Read_error e by (subst rio_refill.simps) (simp add: sys_read_def flip: Cons(2))
  qed
qed (simp flip: Cons(1))

lemma rio_read_some:
  assumes "steady (incoming io)" "pending io \<noteq> []" "0 < n"
  shows "\<exists>m io'. rio_read n io = Some ((int m, take m (pending io)), io') \<and> 0 < m \<and> m \<le> n \<and> m \<le> length (pending io) \<and>
    pending io' = drop m (pending io) \<and> steady (incoming io') \<and> at_end (incoming io') = at_end (incoming io)"
proof -
  obtain io1 where io1: "rio_refill io = Some (1, io1)" "unread io1 \<noteq> []" "pending io1 = pending io" "steady (incoming io1)"
    "at_end (incoming io1) = at_end (incoming io)"
    using rio_refill_some [OF assms(1,2)] by blast
  let ?m = "min n (length (unread io1))"
  have t: "take ?m (unread io1) = take ?m (pending io1)" "drop ?m (unread io1) @ arrived (incoming io1) = drop ?m (pending io1)"
    by (simp_all add: pending_def)
  have "rio_read n io = Some ((int ?m, take ?m (pending io)), io1\<lparr>unread := drop ?m (unread io1)\<rparr>)"
    using io1(1) t(1) by (simp add: rio_read_def Let_def io1(3))
  moreover have "pending (io1\<lparr>unread := drop ?m (unread io1)\<rparr>) = drop ?m (pending io)"
    using t(2) by (simp add: pending_def [of "io1\<lparr>unread := _\<rparr>"] io1(3))
  moreover have "?m \<le> length (pending io)" using io1(3) by (metis pending_def length_append min.coboundedI2 trans_le_add1 order_refl)
  moreover have "0 < ?m" using assms(3) io1(2) by simp
  ultimately show ?thesis using io1(4,5)
    by (intro exI [of _ ?m] exI [of _ "io1\<lparr>unread := drop ?m (unread io1)\<rparr>"]) simp
qed

lemma rio_read_end:
  assumes "steady (incoming io)" "pending io = []" "at_end (incoming io)"
  shows "\<exists>io'. rio_read n io = Some ((0, []), io')"
  using rio_refill_end [OF assms] by (auto simp: rio_read_def)

subsection \<open>Robust reads\<close>

text \<open>
  The two robust reads have the same loop over different reads: the system call, which may be interrupted, and the
  buffered read.  Their common contract: characters to come are delivered from the front, at least one at a time,
  unless the call is interrupted; at the end of the stream the result is 0.
\<close>

definition interrupted :: "((int \<times> string) \<times> stream_io) option \<Rightarrow> stream_io \<Rightarrow> bool" where
  "interrupted r io' \<longleftrightarrow> r = Some ((-1, []), io') \<and> errno io' = EINTR"

locale robust_read =
  fixes rd :: "nat \<Rightarrow> stream_io \<Rightarrow> ((int \<times> string) \<times> stream_io) option"
    and to_come :: "stream_io \<Rightarrow> string"
    and ready :: "stream_io \<Rightarrow> bool"
    and ended :: "stream_io \<Rightarrow> bool"
    and loop :: "nat \<Rightarrow> string \<Rightarrow> stream_io \<Rightarrow> ((int \<times> string) \<times> stream_io) option"
  assumes loop_eq: "loop n got io =
     (if 0 < n then
        (case rd n io of
          None \<Rightarrow> None
        | Some ((nread, s), io) \<Rightarrow>
            if nread < 0 then if errno io = EINTR then loop n got io else Some ((-1, got), io)
            else if nread = 0 then Some ((int (length got), got), io)
            else loop (n - nat nread) (got @ s) io)
      else Some ((int (length got), got), io))"
    and rd_some: "ready io \<Longrightarrow> to_come io \<noteq> [] \<Longrightarrow> 0 < n \<Longrightarrow>
      \<exists>io'. ready io' \<and> ended io' = ended io \<and>
        ((\<exists>m. rd n io = Some ((int m, take m (to_come io)), io') \<and> 0 < m \<and> m \<le> n \<and> to_come io' = drop m (to_come io)) \<or>
         interrupted (rd n io) io' \<and> to_come io' = to_come io \<and> length (incoming io') < length (incoming io))"
    and rd_end: "ready io \<Longrightarrow> to_come io = [] \<Longrightarrow> ended io \<Longrightarrow> 0 < n \<Longrightarrow>
      \<exists>io'. rd n io = Some ((0, []), io') \<or>
        interrupted (rd n io) io' \<and> ready io' \<and> ended io' \<and> to_come io' = [] \<and> length (incoming io') < length (incoming io)"
begin

lemma loop_end:
  assumes "ready io" "to_come io = []" "ended io"
  shows "\<exists>io'. loop n got io = Some ((int (length got), got), io')"
  using assms
proof (induction "length (incoming io)" arbitrary: io rule: less_induct)
  case less
  show ?case
  proof (cases "n = 0")
    case True
    then show ?thesis by (subst loop_eq) simp
  next
    case False
    then obtain io1 where "rd n io = Some ((0, []), io1) \<or>
        interrupted (rd n io) io1 \<and> ready io1 \<and> ended io1 \<and> to_come io1 = [] \<and> length (incoming io1) < length (incoming io)"
      using rd_end [OF less.prems] by blast
    then show ?thesis
    proof
      assume "rd n io = Some ((0, []), io1)"
      with False show ?thesis by (subst loop_eq) simp
    next
      assume i: "interrupted (rd n io) io1 \<and> ready io1 \<and> ended io1 \<and> to_come io1 = [] \<and> length (incoming io1) < length (incoming io)"
      then have "loop n got io = loop n got io1" using False by (subst loop_eq) (simp add: interrupted_def)
      with less.hyps [of io1] i show ?thesis by simp
    qed
  qed
qed

lemma loop_part: "0 < n \<Longrightarrow> 0 < m \<Longrightarrow> rd n io = Some ((int m, part), io1) \<Longrightarrow> loop n got io = loop (n - m) (got @ part) io1"
  by (subst loop_eq) simp

lemma loop_interrupted: "0 < n \<Longrightarrow> interrupted (rd n io) io1 \<Longrightarrow> loop n got io = loop n got io1"
  by (subst loop_eq) (simp add: interrupted_def)

lemma loop_result:
  assumes "ready io" "n \<le> length (to_come io) \<or> ended io"
  shows "\<exists>io'. loop n got io = Some ((int (length (got @ take n (to_come io))), got @ take n (to_come io)), io') \<and>
    (n \<le> length (to_come io) \<longrightarrow> to_come io' = drop n (to_come io) \<and> ready io')"
  using assms
proof (induction n arbitrary: got io rule: less_induct)
  case (less n)
  note shorter = less.IH
  from less.prems show ?case
  proof (induction "length (incoming io)" arbitrary: io rule: less_induct)
    case less
    consider "n = 0" | "0 < n" "to_come io = []" | "0 < n" "to_come io \<noteq> []" by blast
    then show ?case
    proof cases
      case 1
      with less.prems show ?thesis by (subst loop_eq) auto
    next
      case 2
      with less.prems loop_end [of io n got] show ?thesis by auto
    next
      case 3
      then obtain io1 where io1: "ready io1" "ended io1 = ended io"
        "(\<exists>m. rd n io = Some ((int m, take m (to_come io)), io1) \<and> 0 < m \<and> m \<le> n \<and> to_come io1 = drop m (to_come io)) \<or>
         interrupted (rd n io) io1 \<and> to_come io1 = to_come io \<and> length (incoming io1) < length (incoming io)"
        using rd_some [OF less.prems(1)] by blast
      from io1(3) show ?thesis
      proof (elim disjE exE)
        fix m assume m: "rd n io = Some ((int m, take m (to_come io)), io1) \<and> 0 < m \<and> m \<le> n \<and> to_come io1 = drop m (to_come io)"
        then have lt: "n - m < n" using 3(1) by linarith
        have t: "take m (to_come io) @ take (n - m) (drop m (to_come io)) = take n (to_come io)"
          using take_add [of m "n - m" "to_come io"] m by simp
        have "n - m \<le> length (to_come io1) \<or> ended io1" using less.prems(2) m io1(2) by auto
        from shorter [OF lt io1(1) this, of "got @ take m (to_come io)"] obtain io' where
          "loop (n - m) (got @ take m (to_come io)) io1 =
            Some ((int (length (got @ take n (to_come io))), got @ take n (to_come io)), io')"
          "n - m \<le> length (to_come io1) \<longrightarrow> to_come io' = drop (n - m) (to_come io1) \<and> ready io'"
          using m by (auto simp: t)
        moreover have "loop n got io = loop (n - m) (got @ take m (to_come io)) io1" using 3(1) m by (blast intro: loop_part)
        ultimately show ?thesis using m by auto
      next
        assume i: "interrupted (rd n io) io1 \<and> to_come io1 = to_come io \<and> length (incoming io1) < length (incoming io)"
        then have "loop n got io = loop n got io1" using 3(1) by (blast intro: loop_interrupted)
        with less.hyps [of io1] less.prems io1(1,2) i show ?thesis by simp
      qed
    qed
  qed
qed

end

interpretation unbuffered: robust_read sys_read "\<lambda>io. arrived (incoming io)" "\<lambda>io. steady (incoming io)"
    "\<lambda>io. at_end (incoming io)" rio_readn_loop
proof (unfold_locales, goal_cases)
  case (2 io n)
  then show ?case
    by (cases "incoming io" rule: arrived.cases)
      (auto simp: sys_read_def interrupted_def split: if_splits intro!: exI [of _ "min n _"])
next
  case (3 io n)
  then show ?case
    by (cases "incoming io" rule: arrived.cases) (auto simp: sys_read_def interrupted_def)
qed (rule rio_readn_loop.simps)

interpretation buffered: robust_read rio_read pending "\<lambda>io. steady (incoming io)" "\<lambda>io. at_end (incoming io)" rio_readnb_loop
proof (unfold_locales, goal_cases)
  case (2 io n)
  from rio_read_some [OF this] show ?case by blast
next
  case (3 io n)
  from rio_read_end [OF this(1-3)] show ?case by blast
qed (rule rio_readnb_loop.simps)

subsection \<open>Lines\<close>

abbreviation (input) "LF \<equiv> CHR 0x0A"

fun line :: "string \<Rightarrow> string" where
  "line [] = []"
| "line (c # cs) = (if c = LF then [c] else c # line cs)"

definition line_result :: "string \<Rightarrow> int" where
  "line_result s = (if s = [] then 0 else if last s = LF then int (length s) else int (length s) + 1)"

lemma rio_read_1:
  assumes "steady (incoming io)" "pending io = c # cs"
  shows "\<exists>io'. rio_read 1 io = Some ((1, [c]), io') \<and> pending io' = cs \<and> steady (incoming io') \<and>
    at_end (incoming io') = at_end (incoming io)"
proof -
  obtain m io' where m: "rio_read 1 io = Some ((int m, take m (c # cs)), io')" "0 < m" "m \<le> 1" "pending io' = drop m (c # cs)"
    "steady (incoming io')" "at_end (incoming io') = at_end (incoming io)"
    using rio_read_some [OF assms(1), of 1] assms(2) by auto
  then have "m = 1" by simp
  with m show ?thesis by simp
qed

lemma rio_readlineb_loop_end:
  assumes "steady (incoming io)" "pending io = []" "at_end (incoming io)" "n < maxlen"
  shows "\<exists>io'. rio_readlineb_loop maxlen n got io = Some ((if n = 1 then 0 else int n, got), io')"
proof -
  from rio_read_end [OF assms(1-3), of 1] obtain io' where "rio_read 1 io = Some ((0, []), io')" by blast
  then show ?thesis using assms(4) by (subst rio_readlineb_loop.simps) auto
qed

lemma rio_readlineb_loop_char:
  assumes "steady (incoming io)" "pending io = c # cs" "n < maxlen"
  shows "\<exists>io'. rio_readlineb_loop maxlen n got io =
      (if c = LF then Some ((int n, got @ [c]), io') else rio_readlineb_loop maxlen (Suc n) (got @ [c]) io') \<and>
    pending io' = cs \<and> steady (incoming io') \<and> at_end (incoming io') = at_end (incoming io)"
proof -
  from rio_read_1 [OF assms(1,2)] obtain io' where "rio_read 1 io = Some ((1, [c]), io')" "pending io' = cs"
    "steady (incoming io')" "at_end (incoming io') = at_end (incoming io)" by blast
  moreover from this(1) have "rio_readlineb_loop maxlen n got io =
      (if c = LF then Some ((int n, got @ [c]), io') else rio_readlineb_loop maxlen (Suc n) (got @ [c]) io')"
    using assms(3) by (subst rio_readlineb_loop.simps) simp
  ultimately show ?thesis by blast
qed

text \<open>The loop stores what fits of the next line and leaves the rest of the stream behind a line that is complete.\<close>

definition stores_line :: "nat \<Rightarrow> nat \<Rightarrow> string \<Rightarrow> stream_io \<Rightarrow> bool" where
  "stores_line maxlen n got io \<longleftrightarrow> (let part = take (maxlen - n) (line (pending io)) in
     \<exists>io'. rio_readlineb_loop maxlen n got io = Some ((line_result (got @ part), got @ part), io') \<and>
       (pending io \<noteq> [] \<and> last part = LF \<and> n < maxlen \<longrightarrow> pending io' = drop (length part) (pending io)))"

lemma stores_line_step:
  assumes "rio_readlineb_loop maxlen n got io = rio_readlineb_loop maxlen (Suc n) (got @ [c]) io1"
    and "pending io = c # pending io1" "c \<noteq> LF" "n < maxlen" "stores_line maxlen (Suc n) (got @ [c]) io1"
  shows "stores_line maxlen n got io"
proof -
  let ?part = "take (maxlen - Suc n) (line (pending io1))"
  have t: "take (maxlen - n) (line (pending io)) = c # ?part"
    using assms(2-4) by (simp add: take_Cons' Suc_diff_Suc)
  obtain io' where io': "rio_readlineb_loop maxlen n got io = Some ((line_result (got @ c # ?part), got @ c # ?part), io')"
    "pending io1 \<noteq> [] \<and> last ?part = LF \<and> Suc n < maxlen \<longrightarrow> pending io' = drop (length ?part) (pending io1)"
    using assms(5) by (auto simp: stores_line_def Let_def assms(1))
  have "pending io' = drop (length (c # ?part)) (pending io)" if "last (c # ?part) = LF"
  proof -
    have "?part \<noteq> []" "last ?part = LF" using that assms(3) by (auto split: if_splits)
    moreover from this have "pending io1 \<noteq> []" "Suc n < maxlen" by (auto simp: take_eq_Nil)
    ultimately show ?thesis using io'(2) by (simp add: assms(2))
  qed
  with io'(1) show ?thesis unfolding stores_line_def Let_def t by blast
qed

lemma rio_readlineb_loop_result:
  assumes "steady (incoming io)" "LF \<in> set (pending io) \<or> maxlen - n \<le> length (pending io) \<or> at_end (incoming io)"
    and "length got + 1 = n" "LF \<notin> set got" "n < maxlen \<or> got \<noteq> []"
  shows "stores_line maxlen n got io"
  using assms
proof (induction "maxlen - n" arbitrary: n got io)
  case 0
  then have "got \<noteq> []" "last got \<noteq> LF" "\<not> n < maxlen" by (auto dest: last_in_set)
  then show ?case using 0 by (subst stores_line_def, subst rio_readlineb_loop.simps) (simp add: line_result_def)
next
  case (Suc d)
  then have n: "n < maxlen" "d = maxlen - Suc n" by simp_all
  show ?case
  proof (cases "pending io")
    case Nil
    then have "at_end (incoming io)" using Suc.prems(2) n by simp
    moreover have "got \<noteq> [] \<Longrightarrow> last got \<noteq> LF" using Suc.prems(4) by (auto dest: last_in_set)
    ultimately show ?thesis using rio_readlineb_loop_end [OF Suc.prems(1) Nil _ n(1), of got] Nil n Suc.prems(3)
      by (auto simp: stores_line_def line_result_def)
  next
    case (Cons c cs)
    obtain io1 where io1: "rio_readlineb_loop maxlen n got io =
        (if c = LF then Some ((int n, got @ [c]), io1) else rio_readlineb_loop maxlen (Suc n) (got @ [c]) io1)"
      "pending io1 = cs" "steady (incoming io1)" "at_end (incoming io1) = at_end (incoming io)"
      using rio_readlineb_loop_char [OF Suc.prems(1) Cons n(1), of got] by blast
    show ?thesis
    proof (cases "c = LF")
      case True
      have "take (maxlen - n) (line (pending io)) = [LF]" using Cons True n(1) by simp
      moreover have "line_result (got @ [LF]) = int n" using Suc.prems(3) by (simp add: line_result_def)
      ultimately show ?thesis using io1(1,2) True Cons by (simp add: stores_line_def)
    next
      case False
      have "LF \<in> set (pending io1) \<or> maxlen - Suc n \<le> length (pending io1) \<or> at_end (incoming io1)"
        using Suc.prems(2) Cons False io1(2,4) by auto
      from Suc.hyps(1) [OF n(2) io1(3) this, of "got @ [c]"] Suc.prems(3,4) False
      show ?thesis using io1(1,2) Cons n(1) by (intro stores_line_step [of maxlen n got io c io1]) simp_all
    qed
  qed
qed

subsection \<open>Properties\<close>

text \<open>C25: \<open>rio_writen\<close> writes the whole buffer, in order and once, however the kernel splits the writes and however
  often it is interrupted, as soon as the kernel takes enough characters.\<close>

theorem rio_writen_delivers:
  assumes "list_all kept_writing (writes io)" "length s \<le> room_for (writes io)"
  shows "\<exists>io'. csapp_Rio_writen e s io = Some (Value (), io') \<and> written io' = written io @ s"
  using rio_writen_loop_delivers [OF assms, of "length s"] by (auto simp: csapp_Rio_writen_def rio_writen_def)

theorem rio_writen_delivers_witness:
  "\<exists>io'. csapp_Rio_writen [] ''$OK#9a''
      \<lparr>errno = 0, writes = [Accepted 2, Write_error 4, Accepted 1, Accepted 9], written = ''+'', incoming = [], unread = []\<rparr> =
    Some (Value (), io') \<and> written io' = ''+$OK#9a''"
  using rio_writen_delivers [of "\<lparr>errno = 0, writes = [Accepted 2, Write_error 4, Accepted 1, Accepted 9],
    written = ''+'', incoming = [], unread = []\<rparr>" "''$OK#9a''" "[]"] by (simp add: kept_writing_def)

text \<open>C34: the robust reads return the same characters however the stream is cut into pieces and however often the reads
  are interrupted: the first \<open>n\<close> characters to come, or all of them when the stream ends before, and the rest is
  left for the next read.\<close>

theorem rio_reads_result:
  assumes "steady (incoming io)" "n \<le> length (arrived (incoming io)) \<or> at_end (incoming io)"
  shows "(\<exists>io'. rio_readn n io =
      Some ((int (length (take n (arrived (incoming io)))), take n (arrived (incoming io))), io') \<and>
      (n \<le> length (arrived (incoming io)) \<longrightarrow> arrived (incoming io') = drop n (arrived (incoming io)))) \<and>
    (\<exists>io'. rio_readnb n io = Some ((int (length (take n (pending io))), take n (pending io)), io') \<and>
      (n \<le> length (pending io) \<longrightarrow> pending io' = drop n (pending io)))"
proof -
  have "n \<le> length (pending io) \<or> at_end (incoming io)" using assms(2) by (auto simp: pending_def)
  from buffered.loop_result [OF assms(1) this, of "[]"] unbuffered.loop_result [OF assms, of "[]"] show ?thesis
    by (auto simp: rio_readn_def rio_readnb_def)
qed

theorem rio_reads_result_witness:
  "\<exists>io'. rio_readnb 4 \<lparr>errno = 0, writes = [], written = [], incoming = [Data ''bc'', Read_error 4, Data ''defg''], unread = ''a''\<rparr> =
    Some ((4, ''abcd''), io') \<and> pending io' = ''efg''"
  using rio_reads_result [of "\<lparr>errno = 0, writes = [], written = [], incoming = [Data ''bc'', Read_error 4, Data ''defg''],
    unread = ''a''\<rparr>" 4] by (simp add: steady_def pending_def)

text \<open>C35: \<open>rio_readlineb\<close> stores the next line with its newline, cut after \<open>maxlen - 1\<close> characters, or what is left
  before the end of the stream; its result is the number of characters stored when the newline is among them and
  0 at the end of the stream, but one more than stored when the line is cut or the stream ends without a
  newline.  After a whole line the next read starts behind its newline.\<close>

theorem rio_readlineb_result:
  assumes "steady (incoming io)" "1 < maxlen"
    and "LF \<in> set (pending io) \<or> maxlen - 1 \<le> length (pending io) \<or> at_end (incoming io)"
  shows "\<exists>io'. rio_readlineb maxlen io =
      Some ((line_result (take (maxlen - 1) (line (pending io))), take (maxlen - 1) (line (pending io))), io') \<and>
    (pending io \<noteq> [] \<and> last (take (maxlen - 1) (line (pending io))) = LF \<longrightarrow>
      pending io' = drop (length (take (maxlen - 1) (line (pending io)))) (pending io))"
  using rio_readlineb_loop_result [of io maxlen 1 "[]"] assms by (auto simp: rio_readlineb_def stores_line_def Let_def)

theorem rio_readlineb_result_witness:
  "\<exists>io'. rio_readlineb 80 \<lparr>errno = 0, writes = [], written = [], incoming = [Data ''ab'', End_of_file], unread = []\<rparr> =
    Some ((3, ''ab''), io')"
  using rio_readlineb_result [of "\<lparr>errno = 0, writes = [], written = [], incoming = [Data ''ab'', End_of_file], unread = []\<rparr>" 80]
  by (simp add: steady_def pending_def line_result_def)

end
