(* ===== verification/Send_Irq.thy ===== *)
theory Send_Irq
  imports Debug Constants Csapp
begin

text \<open>
  The client of \<open>send_irq.c\<close>: it looks up the name of an interrupt and sends its number as one byte.  The results of
  the system calls are an argument.
\<close>

subsection \<open>Lookup\<close>

text \<open>The \<open>while\<close> loop over the names, up to the first null pointer.\<close>

function irq_lookup :: "string \<Rightarrow> u8 \<Rightarrow> u8 option option" where
  "irq_lookup name irq =
     (case arm_get_exception_name irq of
       None \<Rightarrow> None
     | Some None \<Rightarrow> Some None
     | Some (Some irq_name) \<Rightarrow> if strcmp irq_name name \<noteq> 0 then irq_lookup name (irq + 1) else Some (Some irq))"
  by auto
termination
proof (relation "measure (\<lambda>(name, irq). 8 - unat irq)", goal_cases)
  case (2 name irq x2 y)
  then have "irq < 8" by (auto simp: arm_get_exception_name_def split: if_splits)
  then have "unat irq < 8" by (simp add: word_less_nat_alt)
  moreover from this have "unat (irq + 1) = unat irq + 1" by (simp add: unat_word_ariths)
  ultimately show ?case by simp
qed simp

declare irq_lookup.simps [simp del]

text \<open>The list of the names, printed by the usage message.\<close>

function irq_names :: "u8 \<Rightarrow> string list option" where
  "irq_names irq =
     (case arm_get_exception_name irq of
       None \<Rightarrow> None
     | Some None \<Rightarrow> Some []
     | Some (Some irq_name) \<Rightarrow>
         map_option (\<lambda>rest. irq_name # (if irq = ucast INTERRUPT then [[CHR 0x09, CHR 0x09] @ ''(default)''] else []) @ [CHR 0x0A] # rest)
           (irq_names (irq + 1)))"
  by auto
termination
proof (relation "measure (\<lambda>irq. 8 - unat irq)", goal_cases)
  case (2 irq x2 y)
  then have "irq < 8" by (auto simp: arm_get_exception_name_def split: if_splits)
  then have "unat irq < 8" by (simp add: word_less_nat_alt)
  moreover from this have "unat (irq + 1) = unat irq + 1" by (simp add: unat_word_ariths)
  ultimately show ?case by simp
qed simp

declare irq_names.simps [simp del]

definition send_irq_usage :: "string \<Rightarrow> string" where
  "send_irq_usage name = ''Usage :'' @ name @ '' host port [ IRQ name ]'' @ [CHR 0x0A, CHR 0x0A] @
     ''Sends an IRQ signal to the ARM simulator executing on the given host using the given port.'' @ [CHR 0x0A] @
     ''The IRQ name is one of :'' @ [CHR 0x0A]"

subsection \<open>The program\<close>

record client_calls =
  socket_call :: call
  setsockopt_call :: call
  host_call :: "unit option \<times> string"
  connect_call :: call
  write_call :: call

definition send_irq_connect :: "client_calls \<Rightarrow> u8 \<Rightarrow> u8 list outcome" where
  "send_irq_connect os irq =
     and_then (csapp_Socket (socket_call os)) (\<lambda>sock.
     and_then (csapp_Setsockopt (setsockopt_call os)) (\<lambda>_.
     and_then (csapp_Gethostbyname (host_call os)) (\<lambda>_.
     and_then (csapp_Connect (connect_call os)) (\<lambda>_.
     and_then (csapp_Write (write_call os)) (\<lambda>rc. Value (if 0 < rc then [irq] else []))))))"

text \<open>\<open>main\<close>, with the byte sent as its result.\<close>

definition send_irq :: "client_calls \<Rightarrow> string list \<Rightarrow> u8 list outcome option" where
  "send_irq os argv =
     (if length argv < 3 then do {
        program \<leftarrow> table_at argv 0;
        names \<leftarrow> irq_names (ucast RESET);
        Some (Exits 1 (send_irq_usage program # names))
      } else if length argv < 4 then Some (send_irq_connect os (ucast INTERRUPT))
      else do {
        name \<leftarrow> table_at argv 3;
        irq \<leftarrow> irq_lookup name (ucast RESET);
        (case irq of
          None \<Rightarrow> Some (Exits 2 [''Unknown irq : '' @ name @ [CHR 0x0A]])
        | Some irq \<Rightarrow> Some (send_irq_connect os irq))
      })"

text \<open>The calls of a connection that succeeds.\<close>

definition connected :: "client_calls \<Rightarrow> bool" where
  "connected os \<longleftrightarrow> 0 \<le> fst (socket_call os) \<and> 0 \<le> fst (setsockopt_call os) \<and> fst (host_call os) \<noteq> None \<and>
     0 \<le> fst (connect_call os) \<and> fst (write_call os) = 1"

lemma send_irq_connect_ok: "connected os \<Longrightarrow> send_irq_connect os irq = Value [irq]"
  by (auto simp: connected_def send_irq_connect_def csapp_Socket_def csapp_Setsockopt_def csapp_Gethostbyname_def
      csapp_Connect_def csapp_Write_def)

definition irq_table :: "(string \<times> u8) list" where
  "irq_table = [(''reset'', 1), (''undefined instruction'', 2), (''software interrupt'', 3), (''prefetch abort'', 4),
     (''data abort'', 5), (''interrupt'', 6), (''fast interrupt'', 7)]"

lemma exception_names [simp]:
  "arm_get_exception_name 1 = Some (Some ''reset'')" "arm_get_exception_name 2 = Some (Some ''undefined instruction'')"
  "arm_get_exception_name 3 = Some (Some ''software interrupt'')" "arm_get_exception_name 4 = Some (Some ''prefetch abort'')"
  "arm_get_exception_name 5 = Some (Some ''data abort'')" "arm_get_exception_name 6 = Some (Some ''interrupt'')"
  "arm_get_exception_name 7 = Some (Some ''fast interrupt'')" "arm_get_exception_name 8 = Some None"
  by code_simp+

lemma irq_lookup_table: "irq_lookup name 1 = Some (map_of irq_table name)"
proof -
  have step: "irq_lookup name i = (if s = name then Some (Some i) else irq_lookup name (i + 1))"
    if "arm_get_exception_name i = Some (Some s)" for i s
    using that by (subst irq_lookup.simps) (auto simp: strcmp_eq)
  have "irq_lookup name 8 = Some None" by (subst irq_lookup.simps) simp
  then show ?thesis
    by (simp add: step [OF exception_names(1)] step [OF exception_names(2)] step [OF exception_names(3)]
        step [OF exception_names(4)] step [OF exception_names(5)] step [OF exception_names(6)] step [OF exception_names(7)]
        irq_table_def)
qed

subsection \<open>Properties\<close>

text \<open>\<open>send_irq\<close> sends the number of the named exception, 1 to 7 in the order of \<open>arm_constants.h\<close>, exits with status 2
  for any other name, and sends 6, \<open>INTERRUPT\<close>, when no name is given.\<close>

theorem send_irq_sends:
  assumes "connected os"
  shows "send_irq os [program, machine, port] = Some (Value [6]) \<and>
    send_irq os (program # machine # port # name # args) =
      Some (case map_of irq_table name of Some irq \<Rightarrow> Value [irq] | None \<Rightarrow> Exits 2 [''Unknown irq : '' @ name @ [CHR 0x0A]])"
  using send_irq_connect_ok [OF assms] irq_lookup_table [of name]
  by (simp add: send_irq_def split: option.split)

theorem send_irq_sends_witness:
  "send_irq \<lparr>socket_call = (3, []), setsockopt_call = (0, []), host_call = (Some (), []), connect_call = (0, []), write_call = (1, [])\<rparr>
     [''send_irq'', ''localhost'', ''4000'', ''fast interrupt''] = Some (Value [7])"
  using send_irq_sends [of "\<lparr>socket_call = (3, []), setsockopt_call = (0, []), host_call = (Some (), []), connect_call = (0, []),
      write_call = (1, [])\<rparr>" "''send_irq''" "''localhost''" "''4000''" "''fast interrupt''" "[]"]
  by (simp add: connected_def irq_table_def)

end
