(* ===== verification/Simulator.thy ===== *)
theory Simulator
  imports Scanner Gdb_Invariant Send_Irq
begin

text \<open>
  The program of \<open>arm_simulator.c\<close>: its options, the creation of the machine, the two servers, and the interleaving
  of the commands of gdb with the interrupts.  A handler and the reception of an interrupt hold the lock of the shared
  data, so each is one step.
\<close>

subsection \<open>Options\<close>

text \<open>The trace file is \<^const>\<open>None\<close> for the standard output; \<open>tracing\<close> and \<open>debugging\<close> are the static variables of
  \<open>trace.c\<close> and \<open>debug.c\<close>.\<close>

record options =
  gdb_port :: u16
  irq_port :: u16
  trace_file :: "string option"
  tracing :: trace_state
  debugging :: debug_state

definition options_initial :: options where
  "options_initial = \<lparr>gdb_port = 0, irq_port = 0, trace_file = None, tracing = trace_initial, debugging = debug_initial\<rparr>"

definition usage :: "string \<Rightarrow> string" where
  "usage name = ''Usage:'' @ [LF] @ name @
     '' [ --help ] [ --gdb-port port ] [ --irq-port port ] [ --trace-file file ] [ --trace-registers ] [ --trace-memory ] '' @
     ''[ --trace-state ] [ --trace-position ] [ --debug filename ]'' @ [LF, LF] @
     ''Start an ARMv5 instruction set simulator that acts as a gdb server and can receive interrupts. '' @
     ''It is possible to specify on which ports the simulator listen to gdb client or irq sending program connections. '' @
     ''Trace options have the following behavior:'' @ [LF] @
     ''- trace file: file into which trace information is stored (default is stdout)'' @ [LF] @
     ''- trace registers: outputs informations about each access to registers'' @ [LF] @
     ''- trace memory: outputs informations about each access to memory'' @ [LF] @
     ''- trace state: outputs the processor state after each instruction'' @ [LF] @
     ''- trace position: for each traced access, outputs the file and line at which the access has been performed'' @ [LF] @
     ''The debug switch enable selective reporting of debug messages on a per source file basis'' @ [LF]"

text \<open>One turn of the loop over the options: the character \<open>getopt_long\<close> returned and \<open>optarg\<close>.  \<open>fopen_error\<close> is
  the message of a failed \<open>fopen\<close>.\<close>

definition main_option :: "(string \<Rightarrow> string option) \<Rightarrow> string \<Rightarrow> char \<Rightarrow> string \<Rightarrow> options \<Rightarrow> options outcome option" where
  "main_option fopen_error program opt optarg cfg =
     (if opt = CHR ''g'' then Some (Value (cfg\<lparr>gdb_port := word_of_int (atoi optarg)\<rparr>))
      else if opt = CHR ''i'' then Some (Value (cfg\<lparr>irq_port := word_of_int (atoi optarg)\<rparr>))
      else if opt = CHR ''h'' then Some (Exits 0 [usage program])
      else if opt = CHR ''t'' then
        (case fopen_error optarg of
          None \<Rightarrow> Some (Value (cfg\<lparr>trace_file := Some optarg\<rparr>))
        | Some msg \<Rightarrow> Some (Exits 1 [''Trace file: '' @ msg @ [LF]]))
      else if opt = CHR ''r'' then Some (Value (cfg\<lparr>tracing := trace_add REGISTERS (tracing cfg)\<rparr>))
      else if opt = CHR ''m'' then Some (Value (cfg\<lparr>tracing := trace_add MEMORY (tracing cfg)\<rparr>))
      else if opt = CHR ''s'' then Some (Value (cfg\<lparr>tracing := trace_add STATE (tracing cfg)\<rparr>))
      else if opt = CHR ''p'' then Some (Value (cfg\<lparr>tracing := trace_add POSITION (tracing cfg)\<rparr>))
      else if opt = CHR ''d'' then map_option (\<lambda>d. Value (cfg\<lparr>debugging := d\<rparr>)) (add_debug_to optarg (debugging cfg))
      else Some (Exits 1 [''Unrecognized option '' @ [opt, LF], usage program]))"

fun main_options :: "(string \<Rightarrow> string option) \<Rightarrow> string \<Rightarrow> (char \<times> string) list \<Rightarrow> options \<Rightarrow> options outcome option" where
  "main_options fopen_error program [] cfg = Some (Value cfg)"
| "main_options fopen_error program ((opt, optarg) # opts) cfg = do {
     r \<leftarrow> main_option fopen_error program opt optarg cfg;
     (case r of Value cfg \<Rightarrow> main_options fopen_error program opts cfg | Exits status texts \<Rightarrow> Some (Exits status texts))
   }"

subsection \<open>Creation\<close>

text \<open>What \<open>malloc\<close> returned for the memory, the registers and the processor; \<open>big_endian\<close> is the compile-time
  option \<open>BIG_ENDIAN_SIMULATOR\<close>.\<close>

record allocated =
  memory_block :: "(nat \<Rightarrow> u8) option"
  register_block :: "nat \<Rightarrow> u32"
  cycle_block :: u32

definition main_create :: "bool \<Rightarrow> allocated \<Rightarrow> options \<Rightarrow> machine option" where
  "main_create big_endian heap cfg =
     arm_create (memory_create (memory_block heap) 0x20000 (if big_endian then 1 else 0))
       (register_block heap) (cycle_block heap) (tracing cfg) []"

definition main_start ::
  "(string \<Rightarrow> string option) \<Rightarrow> bool \<Rightarrow> allocated \<Rightarrow> string \<Rightarrow> (char \<times> string) list \<Rightarrow> (options \<times> machine) outcome option" where
  "main_start fopen_error big_endian heap program opts = do {
     r \<leftarrow> main_options fopen_error program opts options_initial;
     (case r of
       Value cfg \<Rightarrow> do { s \<leftarrow> main_create big_endian heap cfg; Some (Value (cfg, s)) }
     | Exits status texts \<Rightarrow> Some (Exits status texts))
   }"

subsection \<open>Servers\<close>

text \<open>The calls of \<open>create_server\<close>; the port \<open>getsockname\<close> gives, or nothing when it fails and leaves the address alone.\<close>

record server_calls =
  srv_socket :: call
  srv_setsockopt :: call
  srv_bind :: call
  srv_getsockname :: "u16 option"
  srv_listen :: call

record server_data =
  server_socket :: int
  server_port :: u16

definition create_server :: "server_calls \<Rightarrow> u16 \<Rightarrow> server_data outcome" where
  "create_server os requested =
     and_then (csapp_Socket (srv_socket os)) (\<lambda>sock.
     and_then (csapp_Setsockopt (srv_setsockopt os)) (\<lambda>_.
     and_then (csapp_Bind (srv_bind os)) (\<lambda>_.
     let bound = (case srv_getsockname os of Some p \<Rightarrow> p | None \<Rightarrow> requested) in
     and_then (csapp_Listen (srv_listen os)) (\<lambda>_. Value \<lparr>server_socket = sock, server_port = bound\<rparr>))))"

text \<open>The thread of gdb: the announcement, and the scanner on the input of the connection.\<close>

definition gdb_listener ::
  "server_calls \<Rightarrow> call \<Rightarrow> (nat \<Rightarrow> indet list \<times> indet) \<Rightarrow> bool \<Rightarrow> options \<Rightarrow> machine \<Rightarrow> (nat \<Rightarrow> char) \<Rightarrow> string \<Rightarrow>
   (string \<times> scanning option) outcome" where
  "gdb_listener os accept env be cfg s block input =
     and_then (create_server os (gdb_port cfg)) (\<lambda>server.
     let announced = ''Listening to gdb connection on port '' @ fmt_d (uint (server_port server)) @ [LF] in
     and_then (csapp_Accept accept) (\<lambda>connection. Value (announced, gdb_scanner env be s block input)))"

text \<open>The thread of the interrupts.  One connection is the list of the results of \<open>Read\<close>; the loop is waiting when
  the list is used up, and the connection is closed by a result of 0.\<close>

datatype irq_read = Irq_byte u8 | Irq_closed | Irq_error string

datatype irq_loop = Waiting machine | Closed machine | Failed "string list"

definition irq_received :: "u8 \<Rightarrow> machine \<Rightarrow> machine option" where
  "irq_received irq s = map_option snd (arm_exception irq s)"

fun irq_connection :: "irq_read list \<Rightarrow> machine \<Rightarrow> irq_loop option" where
  "irq_connection [] s = Some (Waiting s)"
| "irq_connection (Irq_byte irq # rs) s = do { s \<leftarrow> irq_received irq s; irq_connection rs s }"
| "irq_connection (Irq_closed # rs) s = Some (Closed s)"
| "irq_connection (Irq_error msg # rs) s =
     (case csapp_Read (-1, msg) of Value _ \<Rightarrow> None | Exits status texts \<Rightarrow> Some (Failed texts))"

subsection \<open>Interleaving\<close>

text \<open>The two threads share the machine of the gdb server; each token and each interrupt is one step.\<close>

datatype event = Gdb token | Irq u8

inductive system_step :: "bool \<Rightarrow> event \<Rightarrow> parser_data \<Rightarrow> parser_data \<Rightarrow> bool" for be where
  gdb_step: "token_action ks k be t d = Some (Scanning d') \<Longrightarrow> system_step be (Gdb t) d d'"
| irq_step: "irq_received irq (target (gdb d)) = Some s \<Longrightarrow>
    system_step be (Irq irq) d (d\<lparr>gdb := (gdb d)\<lparr>target := s\<rparr>\<rparr>)"

inductive system_run :: "bool \<Rightarrow> event list \<Rightarrow> parser_data \<Rightarrow> parser_data \<Rightarrow> bool" for be where
  idle: "system_run be [] d d"
| run: "system_step be e d d' \<Longrightarrow> system_run be es d' d'' \<Longrightarrow> system_run be (e # es) d d''"

inductive_cases system_stepE: "system_step be e d d'"
inductive_cases gdb_stepE: "system_step be (Gdb t) d d'"
inductive_cases irq_stepE: "system_step be (Irq irq) d d'"
inductive_simps system_run_Nil [simp]: "system_run be [] d d'"
inductive_simps system_run_Cons: "system_run be (e # es) d d'"

subsection \<open>What the options select\<close>

text \<open>The last argument given to an option counts for the ports; the trace options and the debugged files add up.\<close>

definition port_option :: "char \<Rightarrow> (char \<times> string) list \<Rightarrow> u16 \<Rightarrow> u16" where
  "port_option c opts p = (case map_of (rev opts) c of Some a \<Rightarrow> word_of_int (atoi a) | None \<Rightarrow> p)"

definition given :: "char \<Rightarrow> (char \<times> string) list \<Rightarrow> bool" where
  "given c opts \<longleftrightarrow> c \<in> fst ` set opts"

definition debug_names :: "(char \<times> string) list \<Rightarrow> string list" where
  "debug_names opts = map snd (filter (\<lambda>p. fst p = CHR ''d'') opts)"

definition trace_bits :: "char \<Rightarrow> u32" where
  "trace_bits c = (if c = CHR ''r'' then REGISTERS else if c = CHR ''m'' then MEMORY else if c = CHR ''s'' then STATE
     else if c = CHR ''p'' then POSITION else 0)"

definition accepted_option :: "(string \<Rightarrow> string option) \<Rightarrow> char \<times> string \<Rightarrow> bool" where
  "accepted_option fopen_error p \<longleftrightarrow> fst p \<in> set ''girmspd'' \<or> fst p = CHR ''t'' \<and> fopen_error (snd p) = None"

lemma port_option_Cons: "port_option c ((x, a) # opts) p = port_option c opts (if x = c then word_of_int (atoi a) else p)"
  by (auto simp: port_option_def map_add_def split: option.splits)

lemma given_Cons [simp]: "given c (p # opts) \<longleftrightarrow> fst p = c \<or> given c opts" "\<not> given c []"
  by (auto simp: given_def)

lemma debug_names_Cons: "debug_names (p # opts) = (if fst p = CHR ''d'' then [snd p] else []) @ debug_names opts" "debug_names [] = []"
  by (auto simp: debug_names_def)

text \<open>One accepted option.\<close>

lemma main_option_accepted:
  assumes "accepted_option fopen_error (c, a)" "wf_debug (debugging cfg)"
    and "nb_debugged_files (debugging cfg) + length (debug_names [(c, a)]) \<le> 64"
  shows "\<exists>cfg'. main_option fopen_error program c a cfg = Some (Value cfg') \<and>
    gdb_port cfg' = (if c = CHR ''g'' then word_of_int (atoi a) else gdb_port cfg) \<and>
    irq_port cfg' = (if c = CHR ''i'' then word_of_int (atoi a) else irq_port cfg) \<and>
    tracing cfg' = (tracing cfg)\<lparr>trace_flags := trace_flags (tracing cfg) OR trace_bits c\<rparr> \<and>
    wf_debug (debugging cfg') \<and> set (entries (debugging cfg')) = set (debug_names [(c, a)]) \<union> set (entries (debugging cfg)) \<and>
    nb_debugged_files (debugging cfg') = nb_debugged_files (debugging cfg) + length (debug_names [(c, a)])"
proof (cases "c = CHR ''d''")
  case True
  obtain d where "add_debug_to a (debugging cfg) = Some d" "wf_debug d" "set (entries d) = insert a (set (entries (debugging cfg)))"
    "nb_debugged_files d = nb_debugged_files (debugging cfg) + 1"
    using add_all_eq [OF assms(2), of "[a]"] assms(3) True by (auto simp: debug_names_def bind_eq_Some_conv)
  then show ?thesis using True by (simp add: main_option_def trace_bits_def debug_names_def)
next
  case False
  then show ?thesis using assms(1,2)
    by (auto simp: accepted_option_def main_option_def trace_bits_def debug_names_def trace_add_def)
qed

lemma main_options_accepted:
  assumes "list_all (accepted_option fopen_error) opts" "wf_debug (debugging cfg)"
    and "nb_debugged_files (debugging cfg) + length (debug_names opts) \<le> 64"
  shows "\<exists>cfg'. main_options fopen_error program opts cfg = Some (Value cfg') \<and>
    gdb_port cfg' = port_option (CHR ''g'') opts (gdb_port cfg) \<and> irq_port cfg' = port_option (CHR ''i'') opts (irq_port cfg) \<and>
    (\<exists>f. tracing cfg' = (tracing cfg)\<lparr>trace_flags := f\<rparr> \<and>
      (\<forall>n. bit f n \<longleftrightarrow> bit (trace_flags (tracing cfg)) n \<or> (\<exists>c. given c opts \<and> bit (trace_bits c) n))) \<and>
    wf_debug (debugging cfg') \<and> set (entries (debugging cfg')) = set (debug_names opts) \<union> set (entries (debugging cfg))"
  using assms
proof (induction opts arbitrary: cfg)
  case Nil
  then show ?case by (auto simp: port_option_def debug_names_def intro!: exI [of _ "trace_flags (tracing cfg)"])
next
  case (Cons p opts)
  obtain c a where p: "p = (c, a)" by (cases p)
  have n: "length (debug_names (p # opts)) = length (debug_names [(c, a)]) + length (debug_names opts)"
    by (simp add: debug_names_def p)
  obtain cfg1 where cfg1: "main_option fopen_error program c a cfg = Some (Value cfg1)"
    "gdb_port cfg1 = (if c = CHR ''g'' then word_of_int (atoi a) else gdb_port cfg)"
    "irq_port cfg1 = (if c = CHR ''i'' then word_of_int (atoi a) else irq_port cfg)"
    "tracing cfg1 = (tracing cfg)\<lparr>trace_flags := trace_flags (tracing cfg) OR trace_bits c\<rparr>"
    "wf_debug (debugging cfg1)" "set (entries (debugging cfg1)) = set (debug_names [(c, a)]) \<union> set (entries (debugging cfg))"
    "nb_debugged_files (debugging cfg1) = nb_debugged_files (debugging cfg) + length (debug_names [(c, a)])"
    using main_option_accepted [of fopen_error c a cfg program] Cons.prems p n by auto
  have "nb_debugged_files (debugging cfg1) + length (debug_names opts) \<le> 64" using Cons.prems(3) cfg1(7) n by simp
  moreover have "list_all (accepted_option fopen_error) opts" using Cons.prems(1) by simp
  ultimately obtain cfg2 f where cfg2: "main_options fopen_error program opts cfg1 = Some (Value cfg2)"
    "gdb_port cfg2 = port_option (CHR ''g'') opts (gdb_port cfg1)" "irq_port cfg2 = port_option (CHR ''i'') opts (irq_port cfg1)"
    "tracing cfg2 = (tracing cfg1)\<lparr>trace_flags := f\<rparr>"
    "\<forall>n. bit f n \<longleftrightarrow> bit (trace_flags (tracing cfg1)) n \<or> (\<exists>c. given c opts \<and> bit (trace_bits c) n)"
    "wf_debug (debugging cfg2)" "set (entries (debugging cfg2)) = set (debug_names opts) \<union> set (entries (debugging cfg1))"
    using Cons.IH [of cfg1] cfg1(5) by blast
  have "tracing cfg2 = (tracing cfg)\<lparr>trace_flags := f\<rparr>" using cfg2(4) cfg1(4) by simp
  moreover have "\<forall>n. bit f n \<longleftrightarrow> bit (trace_flags (tracing cfg)) n \<or> (\<exists>c. given c (p # opts) \<and> bit (trace_bits c) n)"
    using cfg2(5) cfg1(4) p by (auto simp: bit_or_iff)
  moreover have "set (entries (debugging cfg2)) = set (debug_names (p # opts)) \<union> set (entries (debugging cfg))"
    using cfg2(7) cfg1(6) p by (auto simp: debug_names_def)
  ultimately show ?case using cfg1(1-3) cfg2(1-3,6) p by (auto simp: port_option_Cons)
qed

lemma trace_bits_bit: "bit (trace_bits c) n \<longleftrightarrow> (n = 0 \<and> c = CHR ''m'' \<or> n = 1 \<and> c = CHR ''r'' \<or> n = 2 \<and> c = CHR ''s'' \<or> n = 3 \<and> c = CHR ''p'')"
proof -
  have exp: "bit (2 ^ m :: u32) n \<longleftrightarrow> m < 32 \<and> n = m" for m by (auto simp: bit_exp_iff)
  have "bit (2 :: u32) n \<longleftrightarrow> n = 1" "bit (4 :: u32) n \<longleftrightarrow> n = 2" "bit (8 :: u32) n \<longleftrightarrow> n = 3" "bit (1 :: u32) n \<longleftrightarrow> n = 0"
    using exp [of 1] exp [of 2] exp [of 3] exp [of 0] by simp_all
  then show ?thesis by (auto simp: trace_bits_def)
qed

lemma flag_set: "(f :: u32) AND MEMORY \<noteq> 0 \<longleftrightarrow> bit f 0" "f AND REGISTERS \<noteq> 0 \<longleftrightarrow> bit f 1" "f AND STATE \<noteq> 0 \<longleftrightarrow> bit f 2"
  "f AND POSITION \<noteq> 0 \<longleftrightarrow> bit f 3"
  using and_exp_eq_0_iff_not_bit [of f 0] and_exp_eq_0_iff_not_bit [of f 1] and_exp_eq_0_iff_not_bit [of f 2]
    and_exp_eq_0_iff_not_bit [of f 3] by simp_all

subsection \<open>What the threads keep\<close>

lemma same_target: "d\<lparr>gdb := (gdb d)\<lparr>target := target (gdb d)\<rparr>\<rparr> = d"
proof -
  have "(gdb d)\<lparr>target := target (gdb d)\<rparr> = gdb d" by (cases "gdb d") simp
  then show ?thesis by (cases d) simp
qed

lemma irq_ignored: "irq \<noteq> 1 \<Longrightarrow> irq_received irq s = Some s"
  by (simp add: irq_received_def arm_exception_def)

lemma irq_reset:
  assumes "room 1 (trace s)"
  shows "\<exists>u. irq_received 1 s = Some u \<and> same_settings (trace s) (trace u) \<and>
    arm u = (arm s)\<lparr>reg := \<lparr>r_data = (r_data (regs s))(16 := 0x1d3)\<rparr>\<rparr>"
proof -
  have "core_exception 1 (arm s) = Some ((), (arm s)\<lparr>reg := \<lparr>r_data = (r_data (regs s))(16 := 0x1d3)\<rparr>\<rparr>)"
    by (simp add: core_exception_def core_write_usr_register_def write_usr_register_def in_a_privileged_mode_def
        get_mode_def write_cpsr_def)
  from except.runs [OF this assms] show ?thesis by (auto simp: irq_received_def)
qed

lemma kept_irq:
  assumes "irq_received irq (target g) = Some s" "room 1 (trace (target g))"
  shows "kept g (g\<lparr>target := s\<rparr>)"
proof (cases "irq = 1")
  case True
  with irq_reset [OF assms(2)] assms(1) show ?thesis by (auto simp: kept_def shape_def)
next
  case False
  with assms(1) have "s = target g" by (simp add: irq_ignored)
  then show ?thesis by (simp add: kept_def)
qed

lemma kept_handle_error [simp]: "kept (gdb d) (gdb (handle_error d))"
  by (simp add: handle_error_def)

lemma kept_add_character [simp]: "kept (gdb d) (gdb (add_character_to_error c d))"
  by (simp add: add_character_to_error_def Let_def)

lemma proceed_Scanning [simp]: "proceed d = Scanning d' \<longleftrightarrow> d' = d \<and> \<not> terminated (gdb d)"
  by (auto simp: proceed_def)

lemma resume_Scanning [simp]: "resume d r = Scanning d' \<longleftrightarrow> (\<exists>g. r = Done g \<and> d' = d\<lparr>gdb := g\<rparr> \<and> \<not> terminated g)"
  by (cases r) (auto simp: resume_def)

lemma kept_token_action:
  assumes "token_action ks k be t d = Some (Scanning d')" "ready (gdb d)"
  shows "kept (gdb d) (gdb d')"
proof (cases t)
  case (Packet p)
  obtain r where r: "gdb_packet_analysis ks k be p (gdb (handle_error d)) = Some r" "resume (handle_error d) r = Scanning d'"
    using assms(1) Packet by (auto simp: token_action_def Let_def)
  have "ready (gdb (handle_error d))" by (rule ready_kept [OF kept_handle_error assms(2)])
  from kept_packet_analysis [OF r(1) this] r(2) have "kept (gdb (handle_error d)) (gdb d')"
    by auto
  with kept_handle_error show ?thesis by (rule kept_trans)
next
  case Retransmission
  with assms(1) have "gdb d' = gdb_transmit_packet (gdb (handle_error d))" by (auto simp: token_action_def Let_def)
  then show ?thesis using kept_trans [OF kept_handle_error kept_transmit(1)] by simp
qed (use assms(1) in \<open>auto simp: token_action_def\<close>)

lemma error_buffer_token_action:
  assumes "token_action ks k be t d = Some (Scanning d')" "length (error_buffer d) < MAX_ERROR_SIZE"
  shows "length (error_buffer d') < MAX_ERROR_SIZE"
  using assms by (auto simp: token_action_def handle_error_def add_character_to_error_def Let_def
      split: token.splits if_splits)

text \<open>The invariant of the two threads, relative to the machine they started from.\<close>

definition system_ok :: "machine \<Rightarrow> parser_data \<Rightarrow> bool" where
  "system_ok s d \<longleftrightarrow> shape (arm (target (gdb d))) = shape (arm s) \<and> same_settings (trace s) (trace (target (gdb d))) \<and>
     target_exception (gdb d) = 0 \<and> length (error_buffer d) < MAX_ERROR_SIZE"

lemma system_ok_ready: "system_ok s d \<Longrightarrow> room 2 (trace s) \<Longrightarrow> enabled (trace s) \<Longrightarrow> ready (gdb d)"
  unfolding system_ok_def ready_def by (metis room_same same_settings_def)

lemma system_ok_kept:
  "system_ok s d \<Longrightarrow> kept (gdb d) (gdb d') \<Longrightarrow> length (error_buffer d') < MAX_ERROR_SIZE \<Longrightarrow> system_ok s d'"
  by (auto simp: system_ok_def kept_def intro: same_settings_trans)

lemma system_step_ok:
  assumes "system_step be e d d'" "system_ok s d" "room 2 (trace s)" "enabled (trace s)"
  shows "system_ok s d'"
  using assms(1)
proof cases
  case (gdb_step ks k t)
  have ready: "ready (gdb d)" using system_ok_ready [OF assms(2-4)] .
  have "length (error_buffer d) < MAX_ERROR_SIZE" using assms(2) by (simp add: system_ok_def)
  from system_ok_kept [OF assms(2) kept_token_action [OF gdb_step(2) ready] error_buffer_token_action [OF gdb_step(2) this]]
  show ?thesis .
next
  case (irq_step irq s')
  have "ready (gdb d)" using system_ok_ready [OF assms(2-4)] .
  then have "kept (gdb d) ((gdb d)\<lparr>target := s'\<rparr>)" using kept_irq [OF irq_step(3)] by auto
  then show ?thesis using system_ok_kept [OF assms(2)] assms(2) unfolding irq_step(2)
    by (simp add: system_ok_def [of s d])
qed

lemma system_run_ok:
  "system_run be es d d' \<Longrightarrow> system_ok s d \<Longrightarrow> room 2 (trace s) \<Longrightarrow> enabled (trace s) \<Longrightarrow> system_ok s d'"
  by (induction rule: system_run.induct) (auto dest: system_step_ok)

lemma system_ok_init: "system_ok s (scanner_init s block)"
  by (simp add: system_ok_def scanner_init_def gdb_init_data_def)

lemma main_create_state:
  assumes "memory_block heap = Some block" "tracing cfg = trace_initial\<lparr>trace_flags := f\<rparr>"
  shows "\<exists>s. main_create be heap cfg = Some s \<and> same_settings (tracing cfg) (trace s) \<and>
    arm s = \<lparr>cycle_count = 0, reg = \<lparr>r_data = (register_block heap)(16 := 0x1d3)\<rparr>,
      mem = \<lparr>mem_be = (if be then 1 else 0), mem_bytes = block, mem_size = 0x20000\<rparr>\<rparr>"
proof -
  have "room 1 (tracing cfg)" using assms(2) by (simp add: room_def trace_initial_def)
  from arm_create_state [OF this] show ?thesis using assms(1) by (simp add: main_create_def memory_create_def)
qed

lemma main_option_tracing:
  "main_option fopen_error program c a cfg = Some (Value cfg') \<Longrightarrow>
   \<exists>f. tracing cfg' = (tracing cfg)\<lparr>trace_flags := f\<rparr>"
  by (auto simp: main_option_def trace_add_def split: if_splits option.splits intro: exI [of _ "trace_flags (tracing cfg)"])

lemma main_options_tracing:
  "main_options fopen_error program opts cfg = Some (Value cfg') \<Longrightarrow> \<exists>f. tracing cfg' = (tracing cfg)\<lparr>trace_flags := f\<rparr>"
proof (induction opts arbitrary: cfg)
  case Nil
  then show ?case by (auto intro: exI [of _ "trace_flags (tracing cfg)"])
next
  case (Cons p opts)
  obtain c a where p: "p = (c, a)" by (cases p)
  with Cons.prems obtain cfg1 where cfg1: "main_option fopen_error program c a cfg = Some (Value cfg1)"
    "main_options fopen_error program opts cfg1 = Some (Value cfg')"
    by (auto simp: bind_eq_Some_conv case_outcome_Value)
  from main_option_tracing [OF cfg1(1)] Cons.IH [OF cfg1(2)] show ?case by auto
qed

text \<open>Whatever starts the program, the machine is the one described by \<open>main_create_state\<close>.\<close>

lemma main_start_state:
  assumes "main_start fopen_error be heap program opts = Some (Value (cfg, s))" "memory_block heap = Some block"
  shows "arm s = \<lparr>cycle_count = 0, reg = \<lparr>r_data = (register_block heap)(16 := 0x1d3)\<rparr>,
      mem = \<lparr>mem_be = (if be then 1 else 0), mem_bytes = block, mem_size = 0x20000\<rparr>\<rparr> \<and>
    enabled (trace s) \<and> location_stack_top (trace s) = -1 \<and> trace_flags (trace s) = trace_flags (tracing cfg)"
proof -
  have o: "main_options fopen_error program opts options_initial = Some (Value cfg)" "main_create be heap cfg = Some s"
    using assms(1) by (auto simp: main_start_def bind_eq_Some_conv case_outcome_Value)
  from main_options_tracing [OF o(1)] obtain f where f: "tracing cfg = trace_initial\<lparr>trace_flags := f\<rparr>"
    by (auto simp: options_initial_def)
  from main_create_state [of heap block cfg f be, OF assms(2) f] o(2) show ?thesis
    by (auto simp: f same_settings_def trace_initial_def)
qed

subsection \<open>Properties\<close>

text \<open>C22: the options do what the usage message says: each port is the last one given, the trace options are exactly
  those given, the debugged files exactly those named (up to 64); and the program starts with a memory of 128
  kilobytes in the byte order it was compiled for, in supervisor mode with interrupts disabled.\<close>

theorem main_starts:
  assumes "list_all (accepted_option fopen_error) opts" "length (debug_names opts) \<le> 64" "memory_block heap = Some block"
  shows "\<exists>cfg s. main_start fopen_error be heap program opts = Some (Value (cfg, s)) \<and>
    gdb_port cfg = port_option (CHR ''g'') opts 0 \<and> irq_port cfg = port_option (CHR ''i'') opts 0 \<and>
    (trace_flags (trace s) AND REGISTERS \<noteq> 0) = given (CHR ''r'') opts \<and>
    (trace_flags (trace s) AND MEMORY \<noteq> 0) = given (CHR ''m'') opts \<and>
    (trace_flags (trace s) AND STATE \<noteq> 0) = given (CHR ''s'') opts \<and>
    (trace_flags (trace s) AND POSITION \<noteq> 0) = given (CHR ''p'') opts \<and>
    (\<forall>name. is_debugged (debugging cfg) name = Some (name \<in> set (debug_names opts))) \<and>
    memo s = \<lparr>mem_be = (if be then 1 else 0), mem_bytes = block, mem_size = 0x20000\<rparr> \<and>
    read_cpsr (regs s) = 0x1d3 \<and> arm_get_cycle_count s = 0"
proof -
  have d: "debugging options_initial = debug_initial" by (simp add: options_initial_def)
  have "nb_debugged_files (debugging options_initial) + length (debug_names opts) \<le> 64"
    using assms(2) by (simp add: d wf_debug_initial)
  from main_options_accepted [OF assms(1) _ this, of program] obtain cfg f where cfg:
    "main_options fopen_error program opts options_initial = Some (Value cfg)"
    "gdb_port cfg = port_option (CHR ''g'') opts 0" "irq_port cfg = port_option (CHR ''i'') opts 0"
    "tracing cfg = trace_initial\<lparr>trace_flags := f\<rparr>" "\<forall>n. bit f n \<longleftrightarrow> (\<exists>c. given c opts \<and> bit (trace_bits c) n)"
    "wf_debug (debugging cfg)" "set (entries (debugging cfg)) = set (debug_names opts)"
    by (auto simp: d wf_debug_initial) (auto simp: options_initial_def trace_initial_def)
  obtain s where s: "main_create be heap cfg = Some s" using main_create_state [OF assms(3) cfg(4), of be] by blast
  have start: "main_start fopen_error be heap program opts = Some (Value (cfg, s))"
    using cfg(1) s by (simp add: main_start_def)
  note m = main_start_state [OF start assms(3)]
  have "trace_flags (trace s) = f" using m cfg(4) by simp
  moreover have "bit f 0 = given (CHR ''m'') opts" "bit f 1 = given (CHR ''r'') opts" "bit f 2 = given (CHR ''s'') opts"
    "bit f 3 = given (CHR ''p'') opts"
    using cfg(5) by (auto simp: trace_bits_bit)
  moreover have "\<forall>name. is_debugged (debugging cfg) name = Some (name \<in> set (debug_names opts))"
    using is_debugged_eq [OF cfg(6)] cfg(7) by simp
  moreover have "memo s = \<lparr>mem_be = (if be then 1 else 0), mem_bytes = block, mem_size = 0x20000\<rparr>" "read_cpsr (regs s) = 0x1d3"
    "arm_get_cycle_count s = 0"
    using m by (simp_all add: read_cpsr_def arm_get_cycle_count_def)
  ultimately show ?thesis using start cfg(2,3) by (metis flag_set)
qed

theorem main_starts_witness:
  "\<exists>cfg s. main_start (\<lambda>_. None) True \<lparr>memory_block = Some (\<lambda>_. 0), register_block = (\<lambda>_. 7), cycle_block = 9\<rparr> ''arm_simulator''
      [(CHR ''g'', ''1234''), (CHR ''m'', ''''), (CHR ''g'', ''4321''), (CHR ''d'', ''util.c'')] = Some (Value (cfg, s)) \<and>
    gdb_port cfg = 4321 \<and> irq_port cfg = 0 \<and> trace_flags (trace s) AND MEMORY \<noteq> 0 \<and> trace_flags (trace s) AND STATE = 0 \<and>
    is_debugged (debugging cfg) ''util.c'' = Some True \<and> mem_size (memo s) = 0x20000"
proof -
  have "port_option (CHR ''g'') [(CHR ''g'', ''1234''), (CHR ''m'', ''''), (CHR ''g'', ''4321''), (CHR ''d'', ''util.c'')] 0 = 4321"
    by code_simp
  then show ?thesis
    using main_starts [where fopen_error = "\<lambda>_. None" and be = True and program = "''arm_simulator''" and
        heap = "\<lparr>memory_block = Some (\<lambda>_. 0), register_block = (\<lambda>_. 7), cycle_block = 9\<rparr>" and block = "\<lambda>_. 0" and
        opts = "[(CHR ''g'', ''1234''), (CHR ''m'', ''''), (CHR ''g'', ''4321''), (CHR ''d'', ''util.c'')]"]
    by (auto simp: accepted_option_def debug_names_def port_option_def)
qed

lemma main_options_append:
  "main_options fopen_error program (xs @ ys) cfg = do {
     r \<leftarrow> main_options fopen_error program xs cfg;
     (case r of Value cfg \<Rightarrow> main_options fopen_error program ys cfg | Exits status texts \<Rightarrow> Some (Exits status texts)) }"
proof (induction xs arbitrary: cfg)
  case (Cons p xs)
  obtain c a where p: "p = (c, a)" by (cases p)
  show ?case
  proof (cases "main_option fopen_error program c a cfg")
    case (Some r)
    then show ?thesis using Cons.IH by (cases r) (simp_all add: p)
  qed (simp add: p)
qed simp

text \<open>C24: the program refuses what it does not understand: at the first option that is not accepted it ends without
  creating the machine, with the usage and status 0 for \<open>--help\<close>, with the reason and status 1 for a trace file
  that cannot be opened, and with the usage and status 1 for any other option.\<close>

theorem main_rejects:
  assumes "list_all (accepted_option fopen_error) good" "length (debug_names good) \<le> 64" "\<not> accepted_option fopen_error (c, a)"
  shows "main_start fopen_error be heap program (good @ (c, a) # rest) = Some (
    if c = CHR ''h'' then Exits 0 [usage program]
    else if c = CHR ''t'' then Exits 1 [''Trace file: '' @ the (fopen_error a) @ [LF]]
    else Exits 1 [''Unrecognized option '' @ [c, LF], usage program])"
proof -
  have d: "debugging options_initial = debug_initial" by (simp add: options_initial_def)
  obtain cfg where "main_options fopen_error program good options_initial = Some (Value cfg)"
    using main_options_accepted [OF assms(1), of options_initial program] assms(2) by (auto simp: d wf_debug_initial)
  moreover have "main_option fopen_error program c a cfg = Some (
      if c = CHR ''h'' then Exits 0 [usage program]
      else if c = CHR ''t'' then Exits 1 [''Trace file: '' @ the (fopen_error a) @ [LF]]
      else Exits 1 [''Unrecognized option '' @ [c, LF], usage program])"
    using assms(3) by (auto simp: accepted_option_def main_option_def)
  ultimately show ?thesis by (simp add: main_start_def main_options_append)
qed

theorem main_rejects_witness:
  "main_start (\<lambda>_. Some ''Permission denied'') True \<lparr>memory_block = None, register_block = (\<lambda>_. 0), cycle_block = 0\<rparr> ''sim''
     [(CHR ''m'', ''''), (CHR ''t'', ''/x''), (CHR ''h'', '''')] = Some (Exits 1 [''Trace file: Permission denied'' @ [LF]])"
  using main_rejects [of "\<lambda>_. Some ''Permission denied''" "[(CHR ''m'', '''')]" "CHR ''t''" "''/x''" True _ "''sim''" "[(CHR ''h'', '''')]"]
  by (simp add: accepted_option_def debug_names_def)

text \<open>C6: whatever gdb sends, valid or not, and whatever interrupts arrive in between, the memory keeps its size and
  its byte order, the trace its options and an empty location stack, no exception is recorded and the error
  buffer of the scanner does not overflow.\<close>

theorem system_invariant:
  assumes "main_start fopen_error be heap program opts = Some (Value (cfg, s))" "memory_block heap = Some block"
    and "system_run host_be es (scanner_init s packet_block) d"
  shows "mem_size (memo (target (gdb d))) = 0x20000 \<and> mem_be (memo (target (gdb d))) = (if be then 1 else 0) \<and>
    location_stack_top (trace (target (gdb d))) = -1 \<and> enabled (trace (target (gdb d))) \<and>
    trace_flags (trace (target (gdb d))) = trace_flags (tracing cfg) \<and> target_exception (gdb d) = 0 \<and>
    length (error_buffer d) < MAX_ERROR_SIZE"
proof -
  note m = main_start_state [OF assms(1,2)]
  then have "room 2 (trace s)" "enabled (trace s)" by (simp_all add: room_def)
  from system_run_ok [OF assms(3) system_ok_init this] m show ?thesis
    by (auto simp: system_ok_def shape_def same_settings_def)
qed

text \<open>A reset, an interrupt and an invalid character.\<close>

theorem system_invariant_witness:
  "\<exists>cfg s d. main_start (\<lambda>_. None) False \<lparr>memory_block = Some (\<lambda>_. 0), register_block = (\<lambda>_. 7), cycle_block = 9\<rparr> ''arm_simulator'' [] =
      Some (Value (cfg, s)) \<and>
    system_run True [Irq 1, Irq 6, Gdb (Invalid (CHR ''x''))] (scanner_init s (\<lambda>_. NUL)) d \<and>
    mem_size (memo (target (gdb d))) = 0x20000 \<and> location_stack_top (trace (target (gdb d))) = -1"
proof -
  let ?heap = "\<lparr>memory_block = Some (\<lambda>_. 0), register_block = (\<lambda>_. 7), cycle_block = 9\<rparr>"
  have o: "main_options (\<lambda>_. None) ''arm_simulator'' [] options_initial = Some (Value options_initial)" by simp
  have "tracing options_initial = trace_initial\<lparr>trace_flags := 0\<rparr>" by (simp add: options_initial_def trace_initial_def)
  from main_create_state [of ?heap _ options_initial, OF _ this] obtain s where "main_create False ?heap options_initial = Some s"
    by fastforce
  then have start: "main_start (\<lambda>_. None) False ?heap ''arm_simulator'' [] = Some (Value (options_initial, s))"
    by (simp add: main_start_def)
  have "room 1 (trace s)" using main_start_state [OF start] by (simp add: room_def)
  from irq_reset [OF this] obtain u where u: "irq_received 1 s = Some u" by blast
  let ?d0 = "scanner_init s (\<lambda>_. NUL)"
  let ?d1 = "?d0\<lparr>gdb := (gdb ?d0)\<lparr>target := u\<rparr>\<rparr>"
  have irq1: "system_step True (Irq 1) ?d0 ?d1"
    by (rule system_step.irq_step) (simp add: scanner_init_def gdb_init_data_def u)
  have "system_step True (Irq 6) ?d1 (?d1\<lparr>gdb := (gdb ?d1)\<lparr>target := u\<rparr>\<rparr>)"
    by (rule system_step.irq_step) (simp add: irq_ignored)
  then have irq6: "system_step True (Irq 6) ?d1 ?d1" by simp
  have token: "system_step True (Gdb (Invalid (CHR ''x''))) ?d1 (?d1\<lparr>error_buffer := ''x''\<rparr>)"
    by (rule system_step.gdb_step [of "[]" host])
      (simp add: token_action_def add_character_to_error_def scanner_init_def gdb_init_data_def)
  note run = system_run.run [OF irq1 system_run.run [OF irq6 system_run.run [OF token system_run.idle]]]
  from system_invariant [OF start _ run] have
    "mem_size (memo (target (gdb (?d1\<lparr>error_buffer := ''x''\<rparr>)))) = 0x20000"
    "location_stack_top (trace (target (gdb (?d1\<lparr>error_buffer := ''x''\<rparr>)))) = -1" by (simp_all only: allocated.simps)
  with start run show ?thesis by blast
qed

fun from_gdb :: "event \<Rightarrow> bool" where
  "from_gdb (Gdb t) = True"
| "from_gdb (Irq irq) = False"

text \<open>Interrupts other than a reset do not influence the simulation: a run is possible exactly when the same commands
  of gdb lead to the same state without them, wherever they arrive.\<close>

theorem system_ignores_irqs:
  assumes "Irq (ucast RESET) \<notin> set es"
  shows "system_run be es d d' \<longleftrightarrow> system_run be (filter from_gdb es) d d'"
  using assms
proof (induction es arbitrary: d)
  case (Cons e es)
  show ?case
  proof (cases e)
    case (Irq irq)
    then have "irq \<noteq> 1" using Cons.prems by auto
    then have "system_step be e d d"
      using system_step.irq_step [where irq = irq and d = d and s = "target (gdb d)" and be = be]
      by (simp add: Irq irq_ignored same_target)
    moreover have "d1 = d" if "system_step be e d d1" for d1
      using that \<open>irq \<noteq> 1\<close> by (auto simp: Irq irq_ignored same_target elim!: irq_stepE)
    ultimately have "system_step be e d d1 \<longleftrightarrow> d1 = d" for d1 by blast
    then show ?thesis using Cons Irq by (simp add: system_run_Cons)
  qed (use Cons in \<open>simp add: system_run_Cons\<close>)
qed simp

theorem system_ignores_irqs_witness:
  "system_run False [Irq 6, Gdb Newline, Irq 3] (scanner_init blank (\<lambda>_. NUL)) (scanner_init blank (\<lambda>_. NUL))"
proof -
  have "system_step False (Gdb Newline) (scanner_init blank (\<lambda>_. NUL)) (scanner_init blank (\<lambda>_. NUL))"
    by (rule system_step.gdb_step [of "[]" host]) (simp add: token_action_def scanner_init_def gdb_init_data_def)
  then have "system_run False [Gdb Newline] (scanner_init blank (\<lambda>_. NUL)) (scanner_init blank (\<lambda>_. NUL))"
    by (rule system_run.run) (rule system_run.idle)
  then show ?thesis using system_ignores_irqs [of "[Irq 6, Gdb Newline, Irq 3]"] by simp
qed

text \<open>The connection of gdb alone is one of the runs of the system: the scanner reaches the end of its input in some
  state exactly when a run of the system on the same tokens does, up to the report of pending invalid
  characters.\<close>

theorem scanner_is_run:
  "(\<exists>env. yylex env be ts d = Some (Scanning d')) \<longleftrightarrow>
   (\<exists>d1. system_run be (map Gdb ts) d d1 \<and> d' = handle_error d1 \<and> \<not> terminated (gdb d'))"
proof (induction ts arbitrary: d)
  case (Cons t ts)
  have "(\<exists>env. yylex env be (t # ts) d = Some (Scanning d')) \<longleftrightarrow>
      (\<exists>env d1. token_action (fst (env 0)) (snd (env 0)) be t d = Some (Scanning d1) \<and>
        yylex (\<lambda>n. env (Suc n)) be ts d1 = Some (Scanning d'))"
    by (auto simp: bind_eq_Some_conv split: scanning.splits) (metis scanning.exhaust)
  also have "\<dots> \<longleftrightarrow> (\<exists>d1. (\<exists>ks k. token_action ks k be t d = Some (Scanning d1)) \<and>
      (\<exists>env. yylex env be ts d1 = Some (Scanning d')))"
  proof (intro iffI; elim exE conjE)
    fix ks k d1 env
    assume a: "token_action ks k be t d = Some (Scanning d1)" "yylex env be ts d1 = Some (Scanning d')"
    let ?env = "case_nat (ks, k) env"
    have "token_action (fst (?env 0)) (snd (?env 0)) be t d = Some (Scanning d1)" using a(1) by simp
    moreover have "yylex (\<lambda>n. ?env (Suc n)) be ts d1 = Some (Scanning d')" using a(2) by simp
    ultimately show "\<exists>env d1. token_action (fst (env 0)) (snd (env 0)) be t d = Some (Scanning d1) \<and>
        yylex (\<lambda>n. env (Suc n)) be ts d1 = Some (Scanning d')" by blast
  qed blast
  also have "\<dots> \<longleftrightarrow> (\<exists>d1. system_step be (Gdb t) d d1 \<and>
      (\<exists>d2. system_run be (map Gdb ts) d1 d2 \<and> d' = handle_error d2 \<and> \<not> terminated (gdb d')))"
    unfolding Cons.IH by (blast elim: gdb_stepE intro: system_step.gdb_step)
  also have "\<dots> \<longleftrightarrow> (\<exists>d2. system_run be (map Gdb (t # ts)) d d2 \<and> d' = handle_error d2 \<and> \<not> terminated (gdb d'))"
    by (auto simp: system_run_Cons)
  finally show ?case .
qed auto

text \<open>C38: of the interrupts \<open>send_irq\<close> can send, only \<open>reset\<close> reaches the processor, where it sets CPSR and leaves PC and
  every other register alone; the other names, and the default, have no effect on the simulator.\<close>

theorem send_irq_effect:
  assumes "send_irq os [program, machine, port, name] = Some (Value bytes)" "room 1 (trace s)"
  shows "\<exists>u. irq_connection (map Irq_byte bytes @ [Irq_closed]) s = Some (Closed u) \<and>
    arm u = (if name = ''reset'' \<and> bytes \<noteq> [] then (arm s)\<lparr>reg := \<lparr>r_data = (r_data (regs s))(16 := 0x1d3)\<rparr>\<rparr> else arm s)"
proof -
  have "bytes = [] \<or> (\<exists>irq. map_of irq_table name = Some irq \<and> bytes = [irq])"
    using assms(1) irq_lookup_table [of name]
    by (auto simp: send_irq_def send_irq_connect_def csapp_Socket_def csapp_Setsockopt_def csapp_Gethostbyname_def
        csapp_Connect_def csapp_Write_def unix_error_def dns_error_def split: if_splits option.splits)
  then show ?thesis
  proof (elim disjE exE conjE)
    fix irq assume irq: "map_of irq_table name = Some irq" "bytes = [irq]"
    have "irq = 1 \<longleftrightarrow> name = ''reset''" using irq(1) by (auto simp: irq_table_def split: if_splits)
    then show ?thesis using irq_reset [OF assms(2)] irq(2) irq_ignored [of irq s] by (cases "irq = 1") auto
  qed simp
qed

theorem send_irq_effect_witness:
  "\<exists>u. irq_connection (map Irq_byte [6] @ [Irq_closed]) blank = Some (Closed u) \<and> arm u = arm blank"
proof -
  let ?os = "\<lparr>socket_call = (3, []), setsockopt_call = (0, []), host_call = (Some (), []), connect_call = (0, []), write_call = (1, [])\<rparr>"
  have "connected ?os" by (simp add: connected_def)
  then have "send_irq ?os [''send_irq'', ''localhost'', ''4000'', ''interrupt''] = Some (Value [6])"
    using irq_lookup_table [of "''interrupt''"] by (simp add: send_irq_def send_irq_connect_ok irq_table_def)
  from send_irq_effect [OF this, of blank] show ?thesis by simp
qed

end
