(* ===== verification/Gdb_Memory_Properties.thy ===== *)
theory Gdb_Memory_Properties
  imports Gdb_Properties
begin

text \<open>
  The memory commands of the gdb server: \<open>m\<close> answers the bytes of the memory, \<open>X\<close> writes binary content.
\<close>

subsection \<open>Memory\<close>

text \<open>A non-empty hexadecimal number and its value.\<close>

definition hex_text :: "string \<Rightarrow> nat \<Rightarrow> bool" where
  "hex_text ds n \<longleftrightarrow> ds \<noteq> [] \<and> (\<forall>c\<in>set ds. digit_value c < 16) \<and> number 16 ds = n \<and> n < 2 ^ 32"

lemma scan_hex_text:
  assumes "hex_text ds n" "rest = [] \<or> 16 \<le> digit_value (hd rest) \<and> hd rest \<noteq> CHR ''x'' \<and> hd rest \<noteq> CHR ''X''"
  shows "scan_hex (length (ds @ rest)) (ds @ rest) = Some (of_nat n, rest)"
  using scan_hex_digits [of ds "length (ds @ rest)" rest] assms by (simp add: hex_text_def)

lemma scan_pair_text:
  assumes "hex_text ad a" "hex_text nd n" "rest = [] \<or> 16 \<le> digit_value (hd rest) \<and> hd rest \<noteq> CHR ''x'' \<and> hd rest \<noteq> CHR ''X''"
  shows "scan_pair (ad @ '','' @ nd @ rest) x y = (of_nat a, of_nat n)"
proof -
  have "16 \<le> digit_value (CHR '','')" by (simp add: digit_value_def)
  then show ?thesis
    using scan_hex_text [OF assms(1), of "'','' @ nd @ rest"] scan_hex_text [OF assms(2,3)] by (simp add: scan_pair_def)
qed

lemma unat_address: "hex_text ad a \<Longrightarrow> unat (of_nat a :: u32) = a"
  by (simp add: hex_text_def unsigned_of_nat take_bit_nat_eq_self)

lemma hex_text_plain:
  assumes "hex_text ds n" "c \<in> set ds"
  shows "c \<noteq> NUL" "c \<noteq> CHR '':''"
  using hex_digit_plain(6,8) assms by (auto simp: hex_text_def)

lemma inside_Suc:
  assumes "inside m a (Suc n)" "0 < n"
  shows "unat (a + 1) = unat a + 1" "inside m (a + 1) n"
proof -
  show a: "unat (a + 1) = unat a + 1" using unat_offset [of a 1] assms by (simp add: inside_def)
  show "inside m (a + 1) n" using assms by (simp add: inside_def a)
qed

lemma inside_next: "inside m a (Suc n) \<Longrightarrow> inside m (a + 1) n"
proof (cases n)
  case 0
  assume "inside m a (Suc n)"
  moreover have "unat (a + 1) \<le> unat a + 1" by (simp add: unat_word_ariths)
  ultimately show ?thesis using 0 by (simp add: inside_def)
qed (simp add: inside_Suc)

definition bytes_at :: "memory_data \<Rightarrow> u32 \<Rightarrow> nat \<Rightarrow> u8 list" where
  "bytes_at m a n = map (\<lambda>i. mem_bytes m (unat a + i)) [0..<n]"

lemma bytes_at_Suc:
  "inside m a (Suc n) \<Longrightarrow> bytes_at m a (Suc n) = mem_bytes m (unat a) # bytes_at m (a + 1) n"
proof (cases n)
  case (Suc k)
  assume "inside m a (Suc n)"
  from inside_Suc(1) [OF this] Suc show ?thesis
    unfolding bytes_at_def upt_conv_Cons [OF zero_less_Suc] by (simp flip: map_Suc_upt del: upt_Suc)
qed (simp add: bytes_at_def)

definition hex_bytes :: "u8 list \<Rightarrow> string" where
  "hex_bytes bs = concat (map fmt_02x bs)"

lemma length_hex_bytes [simp]: "length (hex_bytes bs) = 2 * length bs"
  by (induction bs) (simp_all add: hex_bytes_def)

lemma length_bytes_at [simp]: "length (bytes_at m a n) = n"
  by (simp add: bytes_at_def)

lemma NUL_hex_bytes: "NUL \<notin> set (hex_bytes bs)"
  using digit_value_fmt hex_digit_plain(6) by (auto simp: hex_bytes_def)

lemma byte_result: "(ucast (b :: u8) :: u32) \<noteq> -1"
proof -
  have "unat (ucast b :: u32) < 256" using unat_byte [of b] by (simp add: unsigned_ucast_eq take_bit_nat_eq_self)
  then show ?thesis by (auto simp: word_unat_eq_iff unsigned_minus_1_eq_mask mask_eq_exp_minus_1)
qed

lemma read_memory_loop_wrote:
  assumes "inside m a n" "position + 2 * n < MAX_PACKET_SIZE" "packet g position = NUL"
  shows "\<exists>g'. read_memory_loop m n a v position g = Some g' \<and> wrote position (hex_bytes (bytes_at m a n)) g g' \<and>
    packet g' (position + 2 * n) = NUL"
  using assms
proof (induction n arbitrary: a v position g)
  case 0
  then show ?case by (simp add: bytes_at_def hex_bytes_def wrote_refl)
next
  case (Suc n)
  let ?b = "mem_bytes m (unat a)"
  have read: "memory_read_byte m a v = Some (ucast ?b, ?b)"
    using Suc.prems(1) by (intro memory_read_byte_inside) (simp add: inside_def)
  obtain g1 where g1: "put_text position (fmt_02x ?b) g = Some g1" "wrote position (fmt_02x ?b) g g1"
    "packet g1 (position + 2) = NUL"
    using put_text_wrote [of position "fmt_02x ?b" g] Suc.prems(2) by auto
  have "inside m (a + 1) n"
    by (rule inside_next [OF Suc.prems(1)])
  then obtain g2 where g2: "read_memory_loop m n (a + 1) ?b (position + 2) g1 = Some g2"
    "wrote (position + 2) (hex_bytes (bytes_at m (a + 1) n)) g1 g2" "packet g2 (position + 2 + 2 * n) = NUL"
    using Suc.IH [of "a + 1" "position + 2" g1 ?b] Suc.prems(2) g1(3) by auto
  have "wrote position (hex_bytes (bytes_at m a (Suc n))) g g2"
    using wrote_trans [OF g1(2), of "hex_bytes (bytes_at m (a + 1) n)" g2] g2(2)
    by (simp add: bytes_at_Suc [OF Suc.prems(1)] hex_bytes_def)
  then show ?case using read byte_result g1(1) g2 by (simp add: algebra_simps)
qed


lemma read_memory_loop_overrun:
  assumes "inside m a n" "MAX_PACKET_SIZE \<le> position + 2 * n" "0 < n"
  shows "read_memory_loop m n a v position g = None"
  using assms
proof (induction n arbitrary: a v position g)
  case (Suc n)
  let ?b = "mem_bytes m (unat a)"
  have read: "memory_read_byte m a v = Some (ucast ?b, ?b)"
    using Suc.prems(1) by (intro memory_read_byte_inside) (simp add: inside_def)
  show ?case
  proof (cases "n = 0 \<or> MAX_PACKET_SIZE \<le> position + 2")
    case True
    then have "MAX_PACKET_SIZE \<le> position + 2" using Suc.prems(2) by auto
    then have "put_string p position (fmt_02x ?b) = None" for p
      by (auto simp: put_string_def fmt_02x_def store_char_def bind_eq_None_conv numeral_2_eq_2)
    then show ?thesis using read byte_result by (simp add: put_text_def)
  next
    case False
    then have "read_memory_loop m n (a + 1) ?b (position + 2) g1 = None" for g1
      using Suc.IH [OF inside_next [OF Suc.prems(1)], of "position + 2"] Suc.prems(2) by auto
    then show ?thesis using read byte_result by (simp add: bind_eq_None_conv)
  qed
qed simp

text \<open>What \<open>read_memory\<close> reads from its packet.\<close>

lemma read_memory_parse:
  assumes "hex_text ad a" "hex_text nd n"
  shows "read_memory k (ad @ '','' @ nd @ NUL # rest) g = Option.bind
    (read_memory_loop (memo (target g)) n (of_nat a) (uninit_byte k) 1 (g\<lparr>packet := (packet g)(1 := NUL)\<rparr>)) gdb_send_buffer"
proof -
  have str: "c_string (ad @ '','' @ nd @ NUL # rest) = Some (ad @ '','' @ nd)"
    using hex_text_plain(1) [OF assms(1)] hex_text_plain(1) [OF assms(2)]
    by (auto simp: c_string_def takeWhile_append)
  have pair: "scan_pair (ad @ '','' @ nd) (uninit_word k) (uninit_word k) = (of_nat a, of_nat n)"
    using scan_pair_text [OF assms, of "[]"] by simp
  show ?thesis
    unfolding read_memory_def str Option.bind.simps pair prod.case Let_def
    by (simp add: store_char_def unat_address [OF assms(2)])
qed

text \<open>An answer that leaves the processor, the trace settings and the connection as they were.\<close>

definition replied :: "string \<Rightarrow> gdb_protocol_data \<Rightarrow> gdb_protocol_data \<Rightarrow> bool" where
  "replied s g g' \<longleftrightarrow> arm (target g') = arm (target g) \<and> same_settings (trace (target g)) (trace (target g')) \<and>
     target_exception g' = target_exception g \<and> write_open g' \<and> terminated g' = terminated g \<and> sent g' = sent g @ [frame s]"

lemma read_memory_cases:
  assumes "hex_text ad a" "hex_text nd n" "inside (memo (target g)) (of_nat a) n" "write_open g"
  shows "if n \<le> 509
    then \<exists>g'. read_memory k (ad @ '','' @ nd @ NUL # rest) g = Some g' \<and>
      replied (hex_bytes (bytes_at (memo (target g)) (of_nat a) n)) g g'
    else read_memory k (ad @ '','' @ nd @ NUL # rest) g = None"
proof -
  let ?m = "memo (target g)" and ?a = "of_nat a :: u32"
  define g0 where "g0 = g\<lparr>packet := (packet g)(1 := NUL)\<rparr>"
  have read: "read_memory k (ad @ '','' @ nd @ NUL # rest) g = Option.bind (read_memory_loop ?m n ?a (uninit_byte k) 1 g0) gdb_send_buffer"
    unfolding read_memory_parse [OF assms(1,2)] g0_def ..
  consider "n \<le> 511" | "511 < n" by linarith
  then show ?thesis
  proof cases
    case 1
    let ?s = "hex_bytes (bytes_at ?m ?a n)"
    obtain g1 where g1: "read_memory_loop ?m n ?a (uninit_byte k) 1 g0 = Some g1" "wrote 1 ?s g0 g1" "packet g1 (1 + 2 * n) = NUL"
      using read_memory_loop_wrote [OF assms(3), of 1 g0 "uninit_byte k"] 1 by (auto simp: g0_def)
    have h: "holds (packet g1) 1 ?s" using g1(2,3) 1 by (simp add: wrote_def holds_def)
    show ?thesis
    proof (cases "n \<le> 509")
      case True
      have "write_open g1" using g1(2) assms(4) by (simp add: wrote_def g0_def)
      then obtain g2 where g2: "gdb_send_buffer g1 = Some g2" "answered ?s g1 g2"
        using gdb_send_buffer_holds [OF h NUL_hex_bytes] True by auto
      have "read_memory k (ad @ '','' @ nd @ NUL # rest) g = Some g2"
        unfolding read g1(1) Option.bind.simps by (rule g2(1))
      moreover have "replied ?s g g2" using g2(2) g1(2) by (simp add: replied_def answered_def wrote_def g0_def)
      ultimately show ?thesis using True by simp
    next
      case False
      then have "gdb_send_buffer g1 = None" using gdb_send_buffer_overrun [OF h NUL_hex_bytes] by simp
      then have "read_memory k (ad @ '','' @ nd @ NUL # rest) g = None" unfolding read g1(1) Option.bind.simps .
      with False show ?thesis by simp
    qed
  next
    case 2
    then have "read_memory_loop ?m n ?a (uninit_byte k) 1 g0 = None"
      by (intro read_memory_loop_overrun [OF assms(3)]) simp_all
    then have "read_memory k (ad @ '','' @ nd @ NUL # rest) g = None" unfolding read by simp
    with 2 show ?thesis by simp
  qed
qed

text \<open>C39: the command \<open>m\<close> on \<open>n\<close> bytes inside the memory answers their hexadecimal digits when \<open>n\<close> is at most 509; from
  510 bytes on, which the announced packet size of 1024 characters allows, it writes past the end of the
  packet buffer.\<close>

theorem gdb_read_memory:
  assumes "hex_text ad a" "hex_text nd n" "inside (memo (target g)) (of_nat a) n" "write_open g"
  shows "if n \<le> 509
    then \<exists>g'. read_memory k (ad @ '','' @ nd @ [NUL]) g = Some g' \<and> arm (target g') = arm (target g) \<and>
      sent g' = sent g @ [frame (hex_bytes (bytes_at (memo (target g)) (of_nat a) n))]
    else read_memory k (ad @ '','' @ nd @ [NUL]) g = None"
  using read_memory_cases [OF assms, of k "[]"] by (auto simp: replied_def split: if_splits)

theorem gdb_read_memory_witness:
  "\<exists>g'. read_memory host (''4'' @ '','' @ ''2'' @ [NUL]) (server blank) = Some g' \<and> sent g' = [''$0000#c0'']"
proof -
  have "hex_text ''4'' 4" "hex_text ''2'' 2" by (simp_all add: hex_text_def digit_value_def number_def)
  moreover have m: "memo (target (server blank)) = small_memory 1" "write_open (server blank)" "sent (server blank) = []"
    by (simp_all add: server_def gdb_init_data_def blank_def)
  moreover have "frame (hex_bytes [0, 0]) = ''$0000#c0''" by code_simp
  moreover have "bytes_at (small_memory 1) 4 2 = [0, 0]" by (simp add: bytes_at_def upt_rec)
  ultimately show ?thesis using gdb_read_memory [of "''4''" 4 "''2''" 2 "server blank" host] by auto
qed


text \<open>The encoding of the content of an \<open>X\<close> packet: the characters of the protocol are escaped.\<close>

definition escape :: "u8 \<Rightarrow> string" where
  "escape b = (if b \<in> {0x23, 0x24, 0x2a, 0x7d} then [char_of (0x7d :: nat), char_of (unat (b XOR 0x20))] else [char_of (unat b)])"

lemma of_char_byte: "(of_char (char_of (unat b)) :: u8) = b"
proof -
  have "of_char (char_of (unat b)) = (of_nat (of_char (char_of (unat b)) :: nat) :: u8)" by (simp only: of_nat_of_char)
  also have "\<dots> = of_nat (unat b)" using unat_byte [of b] by (simp only: of_char_of) simp
  finally show ?thesis by simp
qed

lemma put_bytes_Nil [simp]: "put_bytes m a [] = m"
proof -
  have "(\<lambda>i. if unat a \<le> i \<and> i < unat a + length [] then [] ! (i - unat a) else mem_bytes m i) = mem_bytes m"
    by (rule ext, auto)
  then show ?thesis by (simp add: put_bytes_def)
qed

lemma put_bytes_Cons:
  assumes "inside m a (Suc (length bs))"
  shows "put_bytes (put_bytes m a [b]) (a + 1) bs = put_bytes m a (b # bs)"
proof (cases bs)
  case Nil
  then show ?thesis by simp
next
  case (Cons c cs)
  then have "unat (a + 1) = unat a + 1" using inside_Suc(1) [OF assms] by simp
  then show ?thesis by (auto simp: put_bytes_def fun_eq_iff nth_Cons')
qed

lemma unescape_byte:
  "(case escape b @ t of [] \<Rightarrow> None
    | c # r \<Rightarrow> if (of_char c :: u8) = 0x7d then (case r of [] \<Rightarrow> None | e # r \<Rightarrow> Some (of_char e XOR 0x20 :: u8, r))
        else Some (of_char c, r)) = Some (b, t)"
  using of_char_byte [of "0x7d"] of_char_byte [of b] of_char_byte [of "b XOR 0x20"]
  by (auto simp: escape_def xor.assoc)

lemma write_memory_loop_eq:
  "inside m a (length bs) \<Longrightarrow>
   write_memory_loop (length bs) a (concat (map escape bs) @ rest) m = Some (True, put_bytes m a bs)"
proof (induction bs arbitrary: a m)
  case Nil
  then show ?case by simp
next
  case (Cons b bs)
  have "memory_write_byte m a b = Some (0, put_bytes m a [b])"
    using Cons.prems by (intro memory_write_byte_inside) (simp add: inside_def)
  moreover have "inside (put_bytes m a [b]) (a + 1) (length bs)" using inside_next Cons.prems by simp
  ultimately show ?case using Cons.IH [of "put_bytes m a [b]" "a + 1"] Cons.prems
    by (simp add: unescape_byte put_bytes_Cons)
qed

text \<open>A write that leaves the block overruns it.\<close>

lemma write_memory_loop_overrun:
  assumes "mem_size m < 2 ^ 32" "unat a \<le> mem_size m" "mem_size m < unat a + length bs"
  shows "write_memory_loop (length bs) a (concat (map escape bs) @ rest) m = None"
  using assms
proof (induction bs arbitrary: a m)
  case (Cons b bs)
  show ?case
  proof (cases "unat a = mem_size m")
    case True
    then show ?thesis by (simp add: unescape_byte memory_write_byte_def store_byte_def)
  next
    case False
    then have w: "memory_write_byte m a b = Some (0, put_bytes m a [b])"
      using Cons.prems by (intro memory_write_byte_inside) (simp add: inside_def)
    have "unat (a + 1) = unat a + 1" using unat_offset [of a 1] Cons.prems False by simp
    then have "write_memory_loop (length bs) (a + 1) (concat (map escape bs) @ rest) (put_bytes m a [b]) = None"
      using Cons.IH [of "put_bytes m a [b]" "a + 1"] Cons.prems False by simp
    then show ?thesis using w by (simp add: unescape_byte)
  qed
qed simp

text \<open>What \<open>write_memory_binary\<close> reads from its packet.\<close>

lemma write_memory_binary_parse:
  assumes "hex_text ad a" "hex_text nd n"
  shows "write_memory_binary k (ad @ '','' @ nd @ '':'' @ content) g = (if NUL \<notin> set content then None else do {
      (ok, m) \<leftarrow> (if a < mem_size (memo (target g)) then write_memory_loop n (of_nat a) content (memo (target g))
        else Some (False, memo (target g)));
      gdb_send_data (if ok then ''OK'' else ''E02'') (g\<lparr>target := set_mem m (target g)\<rparr>) })"
proof -
  define head where "head = ad @ '','' @ nd"
  have raw: "ad @ '','' @ nd @ '':'' @ content = head @ CHR '':'' # content" by (simp add: head_def)
  have h: "NUL \<notin> set head" "CHR '':'' \<notin> set head"
    using hex_text_plain [OF assms(1)] hex_text_plain [OF assms(2)] by (auto simp: head_def)
  define t where "t = takeWhile (\<lambda>c. c \<noteq> NUL) content"
  have str: "c_string (head @ CHR '':'' # content) = (if NUL \<notin> set content then None else Some (head @ CHR '':'' # t))"
    using h(1) by (auto simp: c_string_def t_def takeWhile_append)
  have d: "16 \<le> digit_value (CHR '':'')" by (simp add: digit_value_def)
  then have pair: "scan_pair (head @ CHR '':'' # t) x y = (of_nat a, of_nat n)" for x y
    using scan_pair_text [OF assms, of "CHR '':'' # t"] by (simp add: head_def)
  show ?thesis
  proof (cases "NUL \<in> set content")
    case True
    have after: "after_char (CHR '':'') (head @ CHR '':'' # content) = Some content"
      using h(2) str True by (simp add: after_char_def dropWhile_append)
    show ?thesis
      unfolding raw write_memory_binary_def str
      using True unfolding not_not if_False if_True simp_thms Option.bind.simps
      by (simp add: pair after unat_address [OF assms(1)] unat_address [OF assms(2)] memory_get_size_def Let_def
          if_distrib [where f = "\<lambda>t. gdb_send_data t _"])
  next
    case False
    then show ?thesis unfolding raw write_memory_binary_def str by simp
  qed
qed

lemma write_memory_binary_eq:
  assumes "hex_text ad a" "hex_text nd (length bs)" "inside (memo (target g)) (of_nat a) (length bs)"
    and "a < mem_size (memo (target g))" "write_open g"
  shows "\<exists>g'. write_memory_binary k (ad @ '','' @ nd @ '':'' @ concat (map escape bs) @ NUL # rest) g = Some g' \<and>
    answered ''OK'' (g\<lparr>target := set_mem (put_bytes (memo (target g)) (of_nat a) bs) (target g)\<rparr>) g'"
proof -
  let ?g1 = "g\<lparr>target := set_mem (put_bytes (memo (target g)) (of_nat a) bs) (target g)\<rparr>"
  obtain g2 where g2: "gdb_send_data ''OK'' ?g1 = Some g2" "answered ''OK'' ?g1 g2"
    using gdb_send_data_answers [of "''OK''" ?g1] assms(5) by auto
  then show ?thesis
    using assms(4) write_memory_loop_eq [OF assms(3)] unfolding write_memory_binary_parse [OF assms(1,2)] by simp
qed

text \<open>C19: bytes written into the memory with a binary \<open>X\<close> packet, whatever their values, are read back by \<open>m\<close>, for at
  most 509 bytes inside the memory; the write changes no other byte and no register.\<close>

theorem gdb_memory_roundtrip:
  assumes "hex_text ad a" "hex_text nd (length bs)" "inside (memo (target g)) (of_nat a) (length bs)"
    and "a < mem_size (memo (target g))" "write_open g" "length bs \<le> 509"
  shows "\<exists>g' g''. write_memory_binary k (ad @ '','' @ nd @ '':'' @ concat (map escape bs) @ [NUL]) g = Some g' \<and>
    target g' = set_mem (put_bytes (memo (target g)) (of_nat a) bs) (target g) \<and>
    read_memory k (ad @ '','' @ nd @ [NUL]) g' = Some g'' \<and>
    sent g'' = sent g @ [frame ''OK'', frame (hex_bytes bs)]"
proof -
  let ?m = "put_bytes (memo (target g)) (of_nat a) bs"
  obtain g1 where g1: "write_memory_binary k (ad @ '','' @ nd @ '':'' @ concat (map escape bs) @ [NUL]) g = Some g1"
    "answered ''OK'' (g\<lparr>target := set_mem ?m (target g)\<rparr>) g1"
    using write_memory_binary_eq [OF assms(1-5), of k "[]"] by blast
  have t: "target g1 = set_mem ?m (target g)" "write_open g1" "sent g1 = sent g @ [frame ''OK'']" "memo (target g1) = ?m"
    using g1(2) by (simp_all add: answered_def set_mem_def)
  have "bytes_at ?m (of_nat a) (length bs) = bs"
  proof (rule nth_equalityI)
    fix i assume "i < length (bytes_at ?m (of_nat a) (length bs))"
    then show "bytes_at ?m (of_nat a) (length bs) ! i = bs ! i" by (simp add: bytes_at_def)
  qed simp
  moreover have "inside (memo (target g1)) (of_nat a) (length bs)" using assms(3) t(4) by simp
  ultimately obtain g2 where g2: "read_memory k (ad @ '','' @ nd @ [NUL]) g1 = Some g2"
    "replied (hex_bytes bs) g1 g2"
    using read_memory_cases [OF assms(1,2) _ t(2), of k "[]"] assms(6) unfolding t(4) by metis
  then have "sent g2 = sent g @ [frame ''OK'', frame (hex_bytes bs)]" by (simp add: t(3) replied_def)
  with g1(1) g2(1) t(1) show ?thesis by blast
qed

theorem gdb_memory_roundtrip_witness:
  "\<exists>g' g''. write_memory_binary host ''4,2:}]A'' (server blank) = None \<and>
     write_memory_binary host (''4,2:}]A'' @ [NUL]) (server blank) = Some g' \<and>
     read_memory host (''4,2'' @ [NUL]) g' = Some g'' \<and> sent g'' = [''$OK#9a'', ''$7d41#00'']"
proof -
  have "hex_text ''4'' 4" "hex_text ''2'' (length [0x7d, 0x41 :: u8])" by (simp_all add: hex_text_def digit_value_def number_def)
  moreover have m: "memo (target (server blank)) = small_memory 1" "write_open (server blank)" "sent (server blank) = []"
    by (simp_all add: server_def gdb_init_data_def blank_def)
  moreover have "frame (hex_bytes [0x7d, 0x41]) = ''$7d41#00''" "frame ''OK'' = ''$OK#9a''" by code_simp+
  moreover have "concat (map escape [0x7d, 0x41]) = ''}]A''" by code_simp
  ultimately show ?thesis using gdb_memory_roundtrip [of "''4''" 4 "''2''" "[0x7d, 0x41]" "server blank" host]
    by (auto simp: write_memory_binary_def c_string_def)
qed

subsection \<open>Addresses outside the memory\<close>

text \<open>A read that reaches the end of the block overruns it, whatever is left of the packet buffer.\<close>

lemma read_memory_loop_end:
  assumes "mem_size m < 2 ^ 32" "unat a \<le> mem_size m" "mem_size m < unat a + n"
  shows "read_memory_loop m n a v position g = None"
  using assms
proof (induction n arbitrary: a v position g)
  case (Suc n)
  show ?case
  proof (cases "unat a = mem_size m")
    case True
    then show ?thesis by (simp add: memory_read_byte_def load_byte_def)
  next
    case False
    then have "memory_read_byte m a v = Some (ucast (mem_bytes m (unat a)), mem_bytes m (unat a))"
      using Suc.prems by (intro memory_read_byte_inside) (simp add: inside_def)
    moreover have "unat (a + 1) = unat a + 1" using unat_offset [of a 1] Suc.prems False by simp
    then have "read_memory_loop m n (a + 1) w p h = None" for w p h using Suc.IH [of "a + 1"] Suc.prems False by simp
    ultimately show ?thesis using byte_result by (simp add: bind_eq_None_conv)
  qed
qed simp

text \<open>C20: what the memory commands do with addresses outside the memory.  A write that starts at or beyond its end is
  refused with \<open>E02\<close> and changes nothing; one that starts inside and leaves the memory overruns it.  A read
  that starts beyond the end is answered by an empty text, not by an error; one that reaches the end
  overruns the memory.\<close>

theorem gdb_memory_errors:
  assumes "hex_text ad a" "hex_text nd (length bs)" "mem_size (memo (target g)) < 2 ^ 32" "write_open g" "bs \<noteq> []"
  shows "let m = memo (target g); n = length bs;
      x = write_memory_binary k (ad @ '','' @ nd @ '':'' @ concat (map escape bs) @ [NUL]) g;
      r = read_memory k (ad @ '','' @ nd @ [NUL]) g in
    (if mem_size m \<le> a then \<exists>g'. x = Some g' \<and> answered ''E02'' g g'
     else if a + n \<le> mem_size m
     then \<exists>g'. x = Some g' \<and> answered ''OK'' (g\<lparr>target := set_mem (put_bytes m (of_nat a) bs) (target g)\<rparr>) g'
     else x = None) \<and>
    (if mem_size m < a then \<exists>g'. r = Some g' \<and> replied '''' g g' else mem_size m < a + n \<longrightarrow> r = None)"
proof -
  let ?m = "memo (target g)" and ?n = "length bs"
  have u: "unat (of_nat a :: u32) = a" by (rule unat_address [OF assms(1)])
  have same: "g\<lparr>target := set_mem ?m (target g)\<rparr> = g" by (simp add: set_mem_def)
  have refuse: "\<exists>g'. write_memory_binary k (ad @ '','' @ nd @ '':'' @ concat (map escape bs) @ [NUL]) g = Some g' \<and> answered ''E02'' g g'"
    if "mem_size ?m \<le> a"
    using that gdb_send_data_answers [of "''E02''" g] assms(4) unfolding write_memory_binary_parse [OF assms(1,2)]
    by (simp add: same)
  have overrun: "write_memory_binary k (ad @ '','' @ nd @ '':'' @ concat (map escape bs) @ [NUL]) g = None"
    if "a < mem_size ?m" "mem_size ?m < a + ?n"
    using that write_memory_loop_overrun [OF assms(3), of "of_nat a" bs] unfolding write_memory_binary_parse [OF assms(1,2)]
    by (simp add: u)
  have ok: "\<exists>g'. write_memory_binary k (ad @ '','' @ nd @ '':'' @ concat (map escape bs) @ [NUL]) g = Some g' \<and>
      answered ''OK'' (g\<lparr>target := set_mem (put_bytes ?m (of_nat a) bs) (target g)\<rparr>) g'"
    if "a < mem_size ?m" "a + ?n \<le> mem_size ?m"
    using write_memory_binary_eq [OF assms(1,2) _ that(1) assms(4), of k "[]"] that(2) assms(3) by (simp add: inside_def u)
  have empty: "\<exists>g'. read_memory k (ad @ '','' @ nd @ [NUL]) g = Some g' \<and> replied '''' g g'" if "mem_size ?m < a"
  proof -
    let ?g = "g\<lparr>packet := (packet g)(1 := NUL)\<rparr>"
    have "read_memory_loop ?m ?n (of_nat a) (uninit_byte k) 1 ?g = Some ?g"
      using that assms(5) by (cases bs) (simp_all add: memory_read_byte_def u)
    moreover have "holds (packet ?g) 1 ''''" by (simp add: holds_def)
    then obtain g' where "gdb_send_buffer ?g = Some g'" "answered '''' ?g g'"
      using gdb_send_buffer_holds [of ?g "''''"] assms(4) by auto
    ultimately show ?thesis unfolding read_memory_parse [OF assms(1,2)] by (auto simp: replied_def answered_def)
  qed
  have past: "read_memory k (ad @ '','' @ nd @ [NUL]) g = None" if "a \<le> mem_size ?m" "mem_size ?m < a + ?n"
    using read_memory_loop_end [OF assms(3), of "of_nat a" ?n] that unfolding read_memory_parse [OF assms(1,2)]
    by (simp add: u)
  show ?thesis unfolding Let_def using refuse overrun ok empty past by auto
qed

theorem gdb_memory_errors_witness:
  "\<exists>g'. write_memory_binary host (''10,1:A'' @ [NUL]) (server blank) = Some g' \<and> sent g' = [''$E02#a7''] \<and>
     target g' = blank \<and> write_memory_binary host (''f,2:AB'' @ [NUL]) (server blank) = None"
proof -
  have "hex_text ''10'' 16" "hex_text ''1'' (length [0x41 :: u8])" "hex_text ''f'' 15" "hex_text ''2'' (length [0x41, 0x42 :: u8])"
    by (simp_all add: hex_text_def digit_value_def number_def)
  moreover have "concat (map escape [0x41]) = ''A''" "concat (map escape [0x41, 0x42]) = ''AB''" by code_simp+
  moreover have "target (server blank) = blank" "memo (target (server blank)) = small_memory 1" "write_open (server blank)" "sent (server blank) = []"
    by (simp_all add: server_def gdb_init_data_def blank_def)
  moreover have "frame ''E02'' = ''$E02#a7''" by code_simp
  ultimately show ?thesis
    using gdb_memory_errors [of "''10''" 16 "''1''" "[0x41]" "server blank" host]
      gdb_memory_errors [of "''f''" 15 "''2''" "[0x41, 0x42]" "server blank" host]
    by (auto simp: Let_def answered_def)
qed

end
