(* ===== verification/System_Properties.thy ===== *)
theory System_Properties
  imports Simulator Gdb_Memory_Properties Gdb_Run_Properties
begin

text \<open>
  Properties of the whole program, from the bytes gdb sends to the processor.  \<open>waiting\<close> is what the server keeps
  between two commands; each \<open>command_\<close> lemma gives the effect and the answers of one command, and the theorems
  compose them over the tokens of the scanner.
\<close>

subsection \<open>Stepping\<close>

text \<open>The server between two commands of a session.\<close>

definition waiting :: "gdb_protocol_data \<Rightarrow> bool" where
  "waiting g \<longleftrightarrow> room 2 (trace (target g)) \<and> write_open g \<and> \<not> terminated g \<and> target_exception g = 0"

lemma waiting_ack [simp]: "waiting g \<Longrightarrow> waiting (gdb_send_ack g) \<and> sent (gdb_send_ack g) = sent g @ [''+''] \<and>
    target (gdb_send_ack g) = target g"
  by (simp add: waiting_def gdb_send_ack_def rio_write_def)

lemma command_step:
  assumes "waiting g" "core_step k (arm (target g)) = Some (r, c)"
  shows "\<exists>g'. command ks k be ''s'' g = Some (Done g') \<and> waiting g' \<and> arm (target g') = c \<and> sent g' = sent g @ [''+'', ''$S05#b8'']"
proof -
  have f: "frame ''S05'' = ''$S05#b8''" by code_simp
  let ?g = "gdb_send_ack g"
  have w: "room 2 (trace (target ?g))" "write_open ?g" "core_step k (arm (target ?g)) = Some (r, c)"
    using waiting_ack [OF assms(1)] assms(2) by (auto simp: waiting_def)
  obtain g1 g' where g': "gdb_step k ?g = Some g'" "stepped ?g c g1" "answered ''S05'' g1 g'"
    using gdb_step_effect [OF w] by blast
  have "command ks k be ''s'' g = Some (Done g')"
    using g'(1) by (simp add: command_def handler_table_def run_handler_def)
  moreover have "waiting g'"
    using g'(3) room_stepped [OF g'(2), of 2] waiting_ack [OF assms(1)] g'(2) by (auto simp: waiting_def answered_def stepped_def)
  moreover have "arm (target g') = c" "sent g' = sent g @ [''+'', ''$S05#b8'']"
    using g'(2,3) f waiting_ack [OF assms(1)] by (auto simp: answered_def stepped_def)
  ultimately show ?thesis by blast
qed

lemma session_steps:
  assumes "waiting g" "core_run ks (arm (target g)) = Some c"
    and "\<And>i. i < length ks \<Longrightarrow> snd (env i) = ks ! i"
  shows "\<exists>g'. session env be (replicate (length ks) ''s'') g = Some (Done g') \<and> waiting g' \<and> arm (target g') = c \<and>
    sent g' = sent g @ concat (replicate (length ks) [''+'', ''$S05#b8''])"
  using assms
proof (induction ks arbitrary: g env)
  case (Cons k ks)
  obtain r d where d: "core_step k (arm (target g)) = Some (r, d)" "core_run ks d = Some c"
    using Cons.prems(2) by (auto simp: bind_eq_Some_conv)
  obtain g1 where g1: "command (fst (env 0)) k be ''s'' g = Some (Done g1)" "waiting g1" "arm (target g1) = d"
    "sent g1 = sent g @ [''+'', ''$S05#b8'']"
    using command_step [OF Cons.prems(1) d(1)] by blast
  have e: "snd (env 0) = k" using Cons.prems(3) [of 0] by simp
  have "snd (env (Suc i)) = ks ! i" if "i < length ks" for i using Cons.prems(3) [of "Suc i"] that by simp
  with Cons.IH [of g1 "\<lambda>n. env (Suc n)"] g1(2,3) d(2) obtain g2 where
    "session (\<lambda>n. env (Suc n)) be (replicate (length ks) ''s'') g1 = Some (Done g2)" "waiting g2" "arm (target g2) = c"
    "sent g2 = sent g1 @ concat (replicate (length ks) [''+'', ''$S05#b8''])" by blast
  moreover have "\<not> terminated g1" using g1(2) by (simp add: waiting_def)
  ultimately show ?case using g1(1,4) e by simp
qed simp

text \<open>C11: stepping through a program from gdb executes it: the characters of \<open>n\<close> step packets, each followed by an
  acknowledgement, make the simulator execute exactly the next \<open>n\<close> instructions of the processor, and the answers
  are an acknowledgement and the stop reply \<open>S05\<close> for each, nothing else.\<close>

theorem gdb_steps_program:
  assumes "room 2 (trace s)" "core_run ks (arm s) = Some c" "\<And>i. i < length ks \<Longrightarrow> snd (env (2 * i)) = ks ! i"
  shows "\<exists>d. gdb_scanner env be s block (stream (replicate (length ks) ''s'')) = Some (Scanning d) \<and>
    arm (target (gdb d)) = c \<and> sent (gdb d) = concat (replicate (length ks) [''+'', ''$S05#b8'']) \<and> error_buffer d = []"
proof -
  let ?g = "gdb_init_data s block"
  have g: "waiting ?g" "target ?g = s" "sent ?g = []" "\<not> terminated ?g"
    using assms(1) by (simp_all add: waiting_def gdb_init_data_def)
  obtain g' where g': "session (\<lambda>n. env (2 * n)) be (replicate (length ks) ''s'') ?g = Some (Done g')" "waiting g'"
    "arm (target g') = c" "sent g' = concat (replicate (length ks) [''+'', ''$S05#b8''])"
    using session_steps [OF g(1), of ks c "\<lambda>n. env (2 * n)" be] assms(2,3) g by auto
  have "gdb_scanner env be s block (stream (replicate (length ks) ''s'')) =
      map_option (resume \<lparr>gdb = ?g, error_buffer = []\<rparr>) (session (\<lambda>n. env (2 * n)) be (replicate (length ks) ''s'') ?g)"
    using yylex_stream [OF g(4), of "replicate (length ks) ''s''" env be ?g]
    by (simp add: gdb_scanner_def scanner_init_def plain_text_def)
  with g' show ?thesis by (simp add: waiting_def)
qed

text \<open>One instruction that is executed as a no-op, stepped through.\<close>

theorem gdb_steps_program_witness:
  "\<exists>d. gdb_scanner (\<lambda>_. ([], host)) False (demo 0xEF000000) (\<lambda>_. NUL) ''$s#73+'' = Some (Scanning d) \<and>
     arm (target (gdb d)) = fetched (arm (demo 0xEF000000)) \<and> sent (gdb d) = [''+'', ''$S05#b8'']"
proof -
  have f: "stream [''s''] = ''$s#73+''" by code_simp
  have "core_step host (arm (demo 0xEF000000)) = Some (0, fetched (arm (demo 0xEF000000)))"
    using core_step_executes [of "arm (demo 0xEF000000)" "0xEF000000" host] by (simp add: core_execute_def)
  then show ?thesis
    using gdb_steps_program [of "demo 0xEF000000" "[host]" _ "\<lambda>_. ([], host)" False "\<lambda>_. NUL"] by (auto simp: f)
qed

subsection \<open>A debugging session\<close>

text \<open>The commands gdb sends to load \<open>program\<close> at address \<open>a\<close>, and to read \<open>n\<close> bytes.\<close>

definition load_command :: "string \<Rightarrow> string \<Rightarrow> u8 list \<Rightarrow> string" where
  "load_command ad nd program = ''X'' @ ad @ '','' @ nd @ '':'' @ concat (map escape program)"

definition inspect_command :: "string \<Rightarrow> string \<Rightarrow> string" where
  "inspect_command ad nd = ''m'' @ ad @ '','' @ nd"

text \<open>The instructions executed from \<open>c\<close> lead to a breakpoint in \<open>d\<close>, the first one on the way.\<close>

definition breaks_at :: "indet list \<Rightarrow> arm_core_data \<Rightarrow> arm_core_data \<Rightarrow> bool" where
  "breaks_at ks c d \<longleftrightarrow> core_run ks c = Some d \<and> next_instruction d True \<and>
     (\<forall>j < length ks. \<forall>e. core_run (take j ks) c = Some e \<longrightarrow> next_instruction e False)"

lemma plain_hex_text: "hex_text ds n \<Longrightarrow> plain_text ds"
  using hex_digit_plain(10,11) by (auto simp: hex_text_def plain_text_def)

lemma plain_escape: "plain_text (escape b)"
proof -
  have p: "plain_text [char_of (unat x)]" if "x \<noteq> 0x23" "x \<noteq> 0x24" for x :: u8
  proof -
    have "c \<noteq> char_of (unat x)" if "x \<noteq> of_char c" for c using of_char_byte [of x] that by (metis (no_types))
    from this [of "CHR ''$''"] this [of "CHR ''#''"] show ?thesis
      using that by (simp add: plain_text_def)
  qed
  show ?thesis
  proof (cases "b \<in> {0x23, 0x24, 0x2a, 0x7d}")
    case True
    have "plain_text [char_of (0x7d :: nat)]" using p [of "0x7d"] by simp
    moreover have "plain_text [char_of (unat (b XOR 0x20))]" by (rule p) (use True in auto)
    ultimately show ?thesis using True by (simp add: escape_def plain_text_def)
  next
    case False
    then show ?thesis using p [of b] by (simp add: escape_def)
  qed
qed

lemma plain_append [simp]: "plain_text (s @ t) \<longleftrightarrow> plain_text s \<and> plain_text t"
  by (auto simp: plain_text_def)

lemma plain_commands:
  assumes "hex_text ad a" "hex_text nd n"
  shows "plain_text (load_command ad nd program)" "plain_text (inspect_command ad nd)"
proof -
  have "plain_text (concat (map escape program))" by (induction program) (simp_all add: plain_escape, simp add: plain_text_def)
  then show "plain_text (load_command ad nd program)" "plain_text (inspect_command ad nd)"
    using plain_hex_text assms by (auto simp: load_command_def inspect_command_def) (simp_all add: plain_text_def)
qed

lemma core_run_memory: "core_run ks c = Some d \<Longrightarrow> mem_size (mem d) = mem_size (mem c)"
  by (induction ks arbitrary: c) (auto simp: bind_eq_Some_conv same_status_def dest!: core_step_keeps)

lemma command_load:
  assumes "waiting g" "hex_text ad a" "hex_text nd (length program)"
    and "inside (memo (target g)) (of_nat a) (length program)" "a < mem_size (memo (target g))"
  shows "\<exists>g'. command ks k be (load_command ad nd program) g = Some (Done g') \<and> waiting g' \<and>
    arm (target g') = (arm (target g))\<lparr>mem := put_bytes (memo (target g)) (of_nat a) program\<rparr> \<and>
    sent g' = sent g @ [''+'', ''$OK#9a'']"
proof -
  have f: "frame ''OK'' = ''$OK#9a''" by code_simp
  let ?g = "gdb_send_ack g"
  have w: "waiting ?g" "target ?g = target g" "sent ?g = sent g @ [''+'']" using waiting_ack [OF assms(1)] by auto
  obtain g' where g': "write_memory_binary k (ad @ '','' @ nd @ '':'' @ concat (map escape program) @ NUL # rest) ?g = Some g'"
    "answered ''OK'' (?g\<lparr>target := set_mem (put_bytes (memo (target ?g)) (of_nat a) program) (target ?g)\<rparr>) g'" 
      if "rest = fmt_02x (checksum (load_command ad nd program)) @ [NUL]" for rest
    using write_memory_binary_eq [OF assms(2,3), of ?g k "fmt_02x (checksum (load_command ad nd program)) @ [NUL]"] assms(4,5) w
    by (auto simp: waiting_def)
  then have "command ks k be (load_command ad nd program) g = Some (Done g')"
    by (simp add: command_def load_command_def handler_table_def run_handler_def)
  moreover have "waiting g'" using g'(2) w by (auto simp: waiting_def answered_def set_mem_def)
  moreover have "arm (target g') = (arm (target g))\<lparr>mem := put_bytes (memo (target g)) (of_nat a) program\<rparr>"
    "sent g' = sent g @ [''+'', ''$OK#9a'']"
    using g'(2) w f by (auto simp: answered_def set_mem_def)
  ultimately show ?thesis by blast
qed

lemma command_cont:
  assumes "waiting g" "breaks_at ks (arm (target g)) c"
  shows "\<exists>g'. command (ks @ k # ks') k' be ''c'' g = Some (Done g') \<and> waiting g' \<and> arm (target g') = c \<and>
    sent g' = sent g @ [''+'', ''$S05#b8'']"
proof -
  have f: "frame ''S05'' = ''$S05#b8''" by code_simp
  let ?g = "gdb_send_ack g"
  have w: "waiting ?g" "target ?g = target g" "sent ?g = sent g @ [''+'']" using waiting_ack [OF assms(1)] by auto
  obtain g1 where g1: "cont_loop (ks @ k # ks') (uninit_word k') ?g = Some (Done g1)" "stepped ?g c g1"
    using cont_loop_reaches [of ?g ks c k ks' "uninit_word k'"] assms(2) w unfolding waiting_def breaks_at_def by auto
  obtain g' where g': "gdb_send_stop_reason g1 = Some g'" "answered ''S05'' g1 g'"
    using gdb_send_data_answers [of "''S05''" g1] g1(2) w(1) by (auto simp: gdb_send_stop_reason_def stepped_def waiting_def)
  have "command (ks @ k # ks') k' be ''c'' g = Some (Done g')"
    using g1(1) g'(1) by (simp add: command_def handler_table_def run_handler_def cont_def)
  moreover have "waiting g'" using g'(2) g1(2) w room_stepped [OF g1(2), of 2] by (auto simp: waiting_def answered_def stepped_def)
  moreover have "arm (target g') = c" "sent g' = sent g @ [''+'', ''$S05#b8'']"
    using g'(2) g1(2) w f by (auto simp: answered_def stepped_def)
  ultimately show ?thesis by blast
qed

lemma command_inspect:
  assumes "waiting g" "hex_text ad a" "hex_text nd n" "inside (memo (target g)) (of_nat a) n" "n \<le> 509"
  shows "\<exists>g'. command ks k be (inspect_command ad nd) g = Some (Done g') \<and> waiting g' \<and> arm (target g') = arm (target g) \<and>
    sent g' = sent g @ [''+'', frame (hex_bytes (bytes_at (memo (target g)) (of_nat a) n))]"
proof -
  let ?g = "gdb_send_ack g" and ?rest = "fmt_02x (checksum (inspect_command ad nd)) @ [NUL]"
  have w: "waiting ?g" "target ?g = target g" "sent ?g = sent g @ [''+'']" using waiting_ack [OF assms(1)] by auto
  obtain g' where g': "read_memory k (ad @ '','' @ nd @ NUL # ?rest) ?g = Some g'"
    "replied (hex_bytes (bytes_at (memo (target g)) (of_nat a) n)) ?g g'"
    using read_memory_cases [OF assms(2,3), of ?g k ?rest] assms(4,5) w by (auto simp: waiting_def)
  then have "command ks k be (inspect_command ad nd) g = Some (Done g')"
    by (simp add: command_def inspect_command_def handler_table_def run_handler_def)
  moreover have "waiting g'" using g'(2) w by (auto simp: waiting_def replied_def room_same)
  ultimately show ?thesis using g'(2) w by (auto simp: replied_def)
qed

text \<open>C12: a debugging session from the bytes of the connection to the processor: a program loaded with \<open>X\<close>, whatever
  its bytes, is executed by \<open>c\<close> up to the first breakpoint on its way, which is not executed, and \<open>m\<close> then answers the
  memory as the program left it.  Each command is acknowledged and answered once, in order.\<close>

theorem gdb_debugs_program:
  assumes "room 2 (trace s)" "hex_text ad a" "hex_text nd (length program)"
    and "inside (memo s) (of_nat a) (length program)" "a < mem_size (memo s)"
    and "breaks_at ks ((arm s)\<lparr>mem := put_bytes (memo s) (of_nat a) program\<rparr>) c" "fst (env 2) = ks @ k # ks'"
    and "hex_text ad' a'" "hex_text nd' n" "inside (memo s) (of_nat a') n" "n \<le> 509"
  shows "\<exists>d. gdb_scanner env be s block (stream [load_command ad nd program, ''c'', inspect_command ad' nd']) = Some (Scanning d) \<and>
    arm (target (gdb d)) = c \<and> error_buffer d = [] \<and>
    sent (gdb d) = [''+'', ''$OK#9a'', ''+'', ''$S05#b8'', ''+'', frame (hex_bytes (bytes_at (mem c) (of_nat a') n))]"
proof -
  let ?g = "gdb_init_data s block" and ?ss = "[load_command ad nd program, ''c'', inspect_command ad' nd']"
  have g: "waiting ?g" "target ?g = s" "sent ?g = []" "\<not> terminated ?g"
    using assms(1) by (simp_all add: waiting_def gdb_init_data_def)
  obtain g1 where g1: "command (fst (env 0)) (snd (env 0)) be (load_command ad nd program) ?g = Some (Done g1)" "waiting g1"
    "arm (target g1) = (arm s)\<lparr>mem := put_bytes (memo s) (of_nat a) program\<rparr>" "sent g1 = [''+'', ''$OK#9a'']"
    using command_load [OF g(1) assms(2,3)] assms(4,5) g by force
  obtain g2 where g2: "command (fst (env 2)) (snd (env 2)) be ''c'' g1 = Some (Done g2)" "waiting g2" "arm (target g2) = c"
    "sent g2 = sent g1 @ [''+'', ''$S05#b8'']"
    using command_cont [OF g1(2)] assms(6,7) g1(3) by metis
  have "mem_size (mem c) = mem_size (memo s)" using core_run_memory assms(6) by (fastforce simp: breaks_at_def)
  then have i: "inside (memo (target g2)) (of_nat a') n" using assms(10) g2(3) by (simp add: inside_def)
  obtain g3 where g3: "command (fst (env 4)) (snd (env 4)) be (inspect_command ad' nd') g2 = Some (Done g3)" "waiting g3"
    "arm (target g3) = c" "sent g3 = sent g2 @ [''+'', frame (hex_bytes (bytes_at (mem c) (of_nat a') n))]"
    using command_inspect [OF g2(2) assms(8,9) i assms(11)] g2(3) by metis
  have "\<not> terminated h" if "waiting h" for h using that by (simp add: waiting_def)
  then have "session (\<lambda>n. env (2 * n)) be ?ss ?g = Some (Done g3)" "\<not> terminated g3"
    using g1(1,2) g2(1,2) g3(1,2) by (simp_all add: numeral_eq_Suc)
  moreover have "\<forall>t\<in>set ?ss. plain_text t \<and> t \<noteq> []"
    using plain_commands(1) [OF assms(2,3)] plain_commands(2) [OF assms(8,9)]
    by (simp add: plain_text_def load_command_def inspect_command_def)
  ultimately show ?thesis
    using yylex_stream [OF g(4), of ?ss env be ?g] g1(4) g2(4) g3(3,4)
    by (simp add: gdb_scanner_def scanner_init_def resume_def proceed_def)
qed

text \<open>\<open>STR r3, [r0, #8]\<close> and a breakpoint, loaded at address 0 and run: the word at 8 is the 3 of \<open>r3\<close>.\<close>

theorem gdb_debugs_program_witness:
  "\<exists>d. gdb_scanner (\<lambda>_. ([host, host], host)) False (demo 0) (\<lambda>_. NUL)
      (stream [load_command ''0'' ''8'' (word_bytes 1 0xE5803008 @ word_bytes 1 0xE7F000F0), ''c'', ''m8,4'']) = Some (Scanning d) \<and>
    arm_get_cycle_count (target (gdb d)) = 1 \<and>
    sent (gdb d) = [''+'', ''$OK#9a'', ''+'', ''$S05#b8'', ''+'', ''$00000003#83'']"
proof -
  define program where "program = word_bytes 1 0xE5803008 @ word_bytes 1 0xE7F000F0"
  define c where "c = (arm (demo 0))\<lparr>mem := put_bytes (put_bytes (small_memory 1) 0 (word_bytes 1 0)) 0 program\<rparr>"
  define d where "d = (fetched c)\<lparr>mem := put_bytes (mem c) 8 (word_bytes 1 3)\<rparr>"
  have c: "aligned_pc c" "mem_be (mem c) = 1" "r_data (reg c) = r_data (regs (demo 0))" "inside (mem c) 8 4" "cycle_count c = 0"
    by (simp_all add: c_def aligned_pc_def)
  have w: "inside (mem c) 0 4" "inside (mem d) 4 4" "word_at (mem c) 0 = 0xE5803008" "word_at (mem d) 4 = 0xE7F000F0"
    by (simp_all add: d_def c_def program_def inside_def word_at_def put_bytes_def word_bytes_def le_word_def Let_def)
  have d: "aligned_pc d" "r_data (reg d) 15 = 4" using aligned_fetch(1) [OF c(1)] c(3) by (simp_all add: d_def aligned_pc_def)
  have e: "executes c 0xE5803008" using w(1,3) c(3) by (simp add: executes_def aligned_fetch [OF c(1)])
  have "core_condition host i c = core_condition host i (arm (demo 0))" for i
    by (simp add: core_condition_def read_cpsr_def c(3))
  then have "core_step host c = Some (0, d)"
    using core_step_store_word [OF e demo_transfers(1)] c(2,3,4) by (auto simp: demo_transfers rval_def d_def)
  moreover have "next_instruction c False" "next_instruction d True"
    using w c(3) d(2) by (simp_all add: next_instruction_def aligned_fetch [OF c(1)] aligned_fetch [OF d(1)])
  ultimately have "breaks_at [host] c d" by (simp add: breaks_at_def)
  moreover have "hex_text ''0'' 0" "hex_text ''8'' 8" "hex_text ''4'' 4" by (simp_all add: hex_text_def digit_value_def number_def)
  moreover have "length program = 8" by (simp add: program_def word_bytes_def Let_def)
  moreover have "bytes_at (mem d) 8 4 = [0, 0, 0, 3]" by (simp add: bytes_at_def upt_rec d_def word_bytes_def put_bytes_def Let_def)
  moreover have "frame (hex_bytes [0, 0, 0, 3]) = ''$00000003#83''" "inspect_command ''8'' ''4'' = ''m8,4''" by code_simp+
  moreover have "cycle_count d = 1" using c(5) by (simp add: d_def)
  ultimately show ?thesis
    using gdb_debugs_program [of "demo 0" "''0''" 0 "''8''" program "[host]" d "\<lambda>_. ([host, host], host)" host "[]" "''8''" 8 "''4''" 4 False "\<lambda>_. NUL"]
    by (simp add: program_def [symmetric] c_def [symmetric] arm_get_cycle_count_def inside_def) auto
qed
end
