(* ===== verification/Csapp_Wrappers.thy ===== *)
theory Csapp_Wrappers
  imports Csapp
begin

text \<open>
  The wrappers of \<open>csapp.c\<close> that no program of the repository calls, and its two helpers for clients and servers.  Each
  wrapper is a function of the result of the call it wraps, with the text \<open>strerror\<close> gives for its error; a pointer
  result is an option.
\<close>

subsection \<open>Errors\<close>

definition posix_error :: "string \<Rightarrow> string \<Rightarrow> 'a outcome" where
  "posix_error strerror msg = Exits 0 [msg @ '': '' @ strerror @ [CHR 0x0A]]"

definition app_error :: "string \<Rightarrow> 'a outcome" where
  "app_error msg = Exits 0 [msg @ [CHR 0x0A]]"

subsection \<open>Calls with an integer result\<close>

definition csapp_Fork :: "call \<Rightarrow> int outcome" where
  "csapp_Fork r = (if fst r < 0 then unix_error ''Fork error'' (snd r) else Value (fst r))"

definition csapp_Wait :: "call \<Rightarrow> int outcome" where
  "csapp_Wait r = (if fst r < 0 then unix_error ''Wait error'' (snd r) else Value (fst r))"

definition csapp_Waitpid :: "call \<Rightarrow> int outcome" where
  "csapp_Waitpid r = (if fst r < 0 then unix_error ''Waitpid error'' (snd r) else Value (fst r))"

definition csapp_Sigismember :: "call \<Rightarrow> int outcome" where
  "csapp_Sigismember r = (if fst r < 0 then unix_error ''Sigismember error'' (snd r) else Value (fst r))"

definition csapp_Open :: "call \<Rightarrow> int outcome" where
  "csapp_Open r = (if fst r < 0 then unix_error ''Open error'' (snd r) else Value (fst r))"

definition csapp_Lseek :: "call \<Rightarrow> int outcome" where
  "csapp_Lseek r = (if fst r < 0 then unix_error ''Lseek error'' (snd r) else Value (fst r))"

definition csapp_Select :: "call \<Rightarrow> int outcome" where
  "csapp_Select r = (if fst r < 0 then unix_error ''Select error'' (snd r) else Value (fst r))"

definition csapp_Dup2 :: "call \<Rightarrow> int outcome" where
  "csapp_Dup2 r = (if fst r < 0 then unix_error ''Dup2 error'' (snd r) else Value (fst r))"

subsection \<open>Calls without a result\<close>

definition csapp_Execve :: "call \<Rightarrow> unit outcome" where
  "csapp_Execve r = (if fst r < 0 then unix_error ''Execve error'' (snd r) else Value ())"

definition csapp_Kill :: "call \<Rightarrow> unit outcome" where
  "csapp_Kill r = (if fst r < 0 then unix_error ''Kill error'' (snd r) else Value ())"

definition csapp_Setpgid :: "call \<Rightarrow> unit outcome" where
  "csapp_Setpgid r = (if fst r < 0 then unix_error ''Setpgid error'' (snd r) else Value ())"

definition csapp_Sigprocmask :: "call \<Rightarrow> unit outcome" where
  "csapp_Sigprocmask r = (if fst r < 0 then unix_error ''Sigprocmask error'' (snd r) else Value ())"

definition csapp_Sigemptyset :: "call \<Rightarrow> unit outcome" where
  "csapp_Sigemptyset r = (if fst r < 0 then unix_error ''Sigemptyset error'' (snd r) else Value ())"

definition csapp_Sigfillset :: "call \<Rightarrow> unit outcome" where
  "csapp_Sigfillset r = (if fst r < 0 then unix_error ''Sigfillset error'' (snd r) else Value ())"

definition csapp_Sigaddset :: "call \<Rightarrow> unit outcome" where
  "csapp_Sigaddset r = (if fst r < 0 then unix_error ''Sigaddset error'' (snd r) else Value ())"

definition csapp_Sigdelset :: "call \<Rightarrow> unit outcome" where
  "csapp_Sigdelset r = (if fst r < 0 then unix_error ''Sigdelset error'' (snd r) else Value ())"

definition csapp_Close :: "call \<Rightarrow> unit outcome" where
  "csapp_Close r = (if fst r < 0 then unix_error ''Close error'' (snd r) else Value ())"

definition csapp_Stat :: "call \<Rightarrow> unit outcome" where
  "csapp_Stat r = (if fst r < 0 then unix_error ''Stat error'' (snd r) else Value ())"

definition csapp_Fstat :: "call \<Rightarrow> unit outcome" where
  "csapp_Fstat r = (if fst r < 0 then unix_error ''Fstat error'' (snd r) else Value ())"

definition csapp_Munmap :: "call \<Rightarrow> unit outcome" where
  "csapp_Munmap r = (if fst r < 0 then unix_error ''munmap error'' (snd r) else Value ())"

definition csapp_Sem_init :: "call \<Rightarrow> unit outcome" where
  "csapp_Sem_init r = (if fst r < 0 then unix_error ''Sem_init error'' (snd r) else Value ())"

definition csapp_P :: "call \<Rightarrow> unit outcome" where
  "csapp_P r = (if fst r < 0 then unix_error ''P error'' (snd r) else Value ())"

definition csapp_V :: "call \<Rightarrow> unit outcome" where
  "csapp_V r = (if fst r < 0 then unix_error ''V error'' (snd r) else Value ())"

subsection \<open>Calls with a pointer result\<close>

definition csapp_Malloc :: "'p option \<times> string \<Rightarrow> 'p outcome" where
  "csapp_Malloc r = (case fst r of None \<Rightarrow> unix_error ''Malloc error'' (snd r) | Some p \<Rightarrow> Value p)"

definition csapp_Realloc :: "'p option \<times> string \<Rightarrow> 'p outcome" where
  "csapp_Realloc r = (case fst r of None \<Rightarrow> unix_error ''Realloc error'' (snd r) | Some p \<Rightarrow> Value p)"

definition csapp_Calloc :: "'p option \<times> string \<Rightarrow> 'p outcome" where
  "csapp_Calloc r = (case fst r of None \<Rightarrow> unix_error ''Calloc error'' (snd r) | Some p \<Rightarrow> Value p)"

definition csapp_Fdopen :: "'p option \<times> string \<Rightarrow> 'p outcome" where
  "csapp_Fdopen r = (case fst r of None \<Rightarrow> unix_error ''Fdopen error'' (snd r) | Some p \<Rightarrow> Value p)"

definition csapp_Fopen :: "'p option \<times> string \<Rightarrow> 'p outcome" where
  "csapp_Fopen r = (case fst r of None \<Rightarrow> unix_error ''Fopen error'' (snd r) | Some p \<Rightarrow> Value p)"

text \<open>\<open>Mmap\<close> compares with the pointer \<open>-1\<close>, the failure of \<open>mmap\<close>.\<close>

definition csapp_Mmap :: "u64 \<times> string \<Rightarrow> u64 outcome" where
  "csapp_Mmap r = (if fst r = -1 then unix_error ''mmap error'' (snd r) else Value (fst r))"

definition csapp_Gethostbyaddr :: "'p option \<times> string \<Rightarrow> 'p outcome" where
  "csapp_Gethostbyaddr r = (case fst r of None \<Rightarrow> dns_error ''Gethostbyaddr error'' (snd r) | Some p \<Rightarrow> Value p)"

text \<open>\<open>Signal\<close> returns the previous handler \<open>sigaction\<close> gave.\<close>

definition csapp_Signal :: "'h \<Rightarrow> call \<Rightarrow> 'h outcome" where
  "csapp_Signal old_handler r = (if fst r < 0 then unix_error ''Signal error'' (snd r) else Value old_handler)"

subsection \<open>Calls of the threads\<close>

text \<open>They return their error.\<close>

definition csapp_Pthread_create :: "call \<Rightarrow> unit outcome" where
  "csapp_Pthread_create r = (if fst r \<noteq> 0 then posix_error (snd r) ''Pthread_create error'' else Value ())"

definition csapp_Pthread_cancel :: "call \<Rightarrow> unit outcome" where
  "csapp_Pthread_cancel r = (if fst r \<noteq> 0 then posix_error (snd r) ''Pthread_cancel error'' else Value ())"

definition csapp_Pthread_join :: "call \<Rightarrow> unit outcome" where
  "csapp_Pthread_join r = (if fst r \<noteq> 0 then posix_error (snd r) ''Pthread_join error'' else Value ())"

definition csapp_Pthread_detach :: "call \<Rightarrow> unit outcome" where
  "csapp_Pthread_detach r = (if fst r \<noteq> 0 then posix_error (snd r) ''Pthread_detach error'' else Value ())"

subsection \<open>The standard input and output\<close>

definition csapp_Fclose :: "call \<Rightarrow> unit outcome" where
  "csapp_Fclose r = (if fst r \<noteq> 0 then unix_error ''Fclose error'' (snd r) else Value ())"

text \<open>A null result of \<open>fgets\<close> is an error only when \<open>ferror\<close> says so; else it is the end of the file.\<close>

definition csapp_Fgets :: "'p option \<Rightarrow> bool \<Rightarrow> 'p option outcome" where
  "csapp_Fgets rptr ferror = (if rptr = None \<and> ferror then app_error ''Fgets error'' else Value rptr)"

definition csapp_Fputs :: "call \<Rightarrow> unit outcome" where
  "csapp_Fputs r = (if fst r = -1 then unix_error ''Fputs error'' (snd r) else Value ())"

definition csapp_Fread :: "nat \<Rightarrow> nat \<times> string \<Rightarrow> bool \<Rightarrow> nat outcome" where
  "csapp_Fread nmemb r ferror = (if fst r < nmemb \<and> ferror then unix_error ''Fread error'' (snd r) else Value (fst r))"

definition csapp_Fwrite :: "nat \<Rightarrow> nat \<times> string \<Rightarrow> unit outcome" where
  "csapp_Fwrite nmemb r = (if fst r < nmemb then unix_error ''Fwrite error'' (snd r) else Value ())"

text \<open>\<open>sleep\<close> returns an \<open>unsigned int\<close>, which is never less than 0.\<close>

definition csapp_Sleep :: "u32 \<times> string \<Rightarrow> u32 outcome" where
  "csapp_Sleep r = (if fst r < 0 then unix_error ''Sleep error'' (snd r) else Value (fst r))"

lemma Sleep_never_fails: "csapp_Sleep r = Value (fst r)"
  by (simp add: csapp_Sleep_def)

subsection \<open>Failed calls do not return\<close>

definition int_wrappers :: "(string \<times> (call \<Rightarrow> int outcome)) list" where
  "int_wrappers = [(''Fork'', csapp_Fork), (''Wait'', csapp_Wait), (''Waitpid'', csapp_Waitpid), (''Sigismember'', csapp_Sigismember), (''Open'', csapp_Open), (''Lseek'', csapp_Lseek), (''Select'', csapp_Select), (''Dup2'', csapp_Dup2), (''Read'', csapp_Read), (''Write'', csapp_Write), (''Socket'', csapp_Socket), (''Accept'', csapp_Accept)]"

definition unit_wrappers :: "(string \<times> (call \<Rightarrow> unit outcome)) list" where
  "unit_wrappers = [(''Execve'', csapp_Execve),
     (''Kill'', csapp_Kill),
     (''Setpgid'', csapp_Setpgid),
     (''Sigprocmask'', csapp_Sigprocmask),
     (''Sigemptyset'', csapp_Sigemptyset),
     (''Sigfillset'', csapp_Sigfillset),
     (''Sigaddset'', csapp_Sigaddset),
     (''Sigdelset'', csapp_Sigdelset),
     (''Close'', csapp_Close),
     (''Stat'', csapp_Stat),
     (''Fstat'', csapp_Fstat),
     (''munmap'', csapp_Munmap),
     (''Sem_init'', csapp_Sem_init),
     (''P'', csapp_P),
     (''V'', csapp_V),
     (''Setsockopt'', csapp_Setsockopt),
     (''Bind'', csapp_Bind),
     (''Listen'', csapp_Listen),
     (''Connect'', csapp_Connect)]"

lemmas wrapper_defs = csapp_Fork_def
  csapp_Wait_def
  csapp_Waitpid_def
  csapp_Sigismember_def
  csapp_Open_def
  csapp_Lseek_def
  csapp_Select_def
  csapp_Dup2_def
  csapp_Execve_def
  csapp_Kill_def
  csapp_Setpgid_def
  csapp_Sigprocmask_def
  csapp_Sigemptyset_def
  csapp_Sigfillset_def
  csapp_Sigaddset_def
  csapp_Sigdelset_def
  csapp_Close_def
  csapp_Stat_def
  csapp_Fstat_def
  csapp_Munmap_def
  csapp_Sem_init_def
  csapp_P_def
  csapp_V_def
  csapp_Read_def
  csapp_Write_def
  csapp_Socket_def
  csapp_Accept_def
  csapp_Setsockopt_def
  csapp_Bind_def
  csapp_Listen_def
  csapp_Connect_def

lemma wrappers_checked:
  "list_all (\<lambda>(msg, w). \<forall>r. w r = (if fst r < 0 then unix_error (msg @ '' error'') (snd r) else Value (fst r))) int_wrappers"
  "list_all (\<lambda>(msg, w). \<forall>r. w r = (if fst r < 0 then unix_error (msg @ '' error'') (snd r) else Value ())) unit_wrappers"
  by (simp_all add: int_wrappers_def unit_wrappers_def wrapper_defs)

subsection \<open>Clients and servers\<close>

text \<open>The results of the calls, and the descriptors the process has open.\<close>

record socket_calls =
  sc_socket :: int
  sc_setsockopt :: int
  sc_host :: "unit option"
  sc_connect :: int
  sc_bind :: int
  sc_listen :: int

definition open_clientfd :: "socket_calls \<Rightarrow> int list \<Rightarrow> int \<times> int list" where
  "open_clientfd os fds =
     (let clientfd = sc_socket os in
      if clientfd < 0 then (-1, fds)
      else let fds = clientfd # fds in
        if sc_host os = None then (-2, fds)
        else if sc_connect os < 0 then (-1, fds)
        else (clientfd, fds))"

definition open_listenfd :: "socket_calls \<Rightarrow> int list \<Rightarrow> int \<times> int list" where
  "open_listenfd os fds =
     (let listenfd = sc_socket os in
      if listenfd < 0 then (-1, fds)
      else let fds = listenfd # fds in
        if sc_setsockopt os < 0 then (-1, fds)
        else if sc_bind os < 0 then (-1, fds)
        else if sc_listen os < 0 then (-1, fds)
        else (listenfd, fds))"

definition csapp_Open_clientfd :: "string \<Rightarrow> string \<Rightarrow> socket_calls \<Rightarrow> int list \<Rightarrow> int outcome \<times> int list" where
  "csapp_Open_clientfd strerror h_errno os fds =
     (let (rc, fds) = open_clientfd os fds in
      (if rc < 0 then if rc = -1 then unix_error ''Open_clientfd Unix error'' strerror
         else dns_error ''Open_clientfd DNS error'' h_errno
       else Value rc, fds))"

definition csapp_Open_listenfd :: "string \<Rightarrow> socket_calls \<Rightarrow> int list \<Rightarrow> int outcome \<times> int list" where
  "csapp_Open_listenfd strerror os fds =
     (let (rc, fds) = open_listenfd os fds in
      (if rc < 0 then unix_error ''Open_listenfd error'' strerror else Value rc, fds))"

subsection \<open>Properties\<close>

text \<open>\<open>open_clientfd\<close> and \<open>open_listenfd\<close> return an open descriptor exactly when every call succeeded, and -1 or -2
  otherwise; but whenever \<open>socket\<close> succeeded, its descriptor stays open after a failure of a later call, and the
  caller does not get it.\<close>

theorem socket_helpers_leak:
  assumes "0 \<le> sc_socket os"
  shows "open_listenfd os fds =
      (if 0 \<le> sc_setsockopt os \<and> 0 \<le> sc_bind os \<and> 0 \<le> sc_listen os then sc_socket os else -1, sc_socket os # fds) \<and>
    open_clientfd os fds =
      (if sc_host os = None then -2 else if sc_connect os < 0 then -1 else sc_socket os, sc_socket os # fds)"
  using assms by (auto simp: open_listenfd_def open_clientfd_def Let_def)

theorem socket_helpers_leak_witness:
  "open_listenfd \<lparr>sc_socket = 3, sc_setsockopt = 0, sc_host = None, sc_connect = 0, sc_bind = -1, sc_listen = 0\<rparr> [0, 1, 2] = (-1, [3, 0, 1, 2])"
  using socket_helpers_leak [of "\<lparr>sc_socket = 3, sc_setsockopt = 0, sc_host = None, sc_connect = 0, sc_bind = -1, sc_listen = 0\<rparr>"] by simp

end
