(* ===== verification/Tests.thy ===== *)
theory Tests
  imports Memory Registers Gdb_Format
begin

text \<open>
  The test programs of the repository, \<open>memory_test.c\<close> and \<open>test_register.c\<close>, executed on the models of the memory
  and of the registers.  Their results are the texts they print.
\<close>

subsection \<open>memory_test.c\<close>

abbreviation (input) "newline \<equiv> [CHR 0x0A]"

definition print_test :: "bool \<Rightarrow> string" where
  "print_test result = (if result then ''Test succeded'' @ newline else ''TEST FAILED !!'' @ newline)"

text \<open>The loop of \<open>compare\<close> over \<open>size\<close> bytes, from index \<open>i\<close> of the first object and \<open>j\<close> of the second.\<close>

fun compare_loop :: "nat \<Rightarrow> u8 list \<Rightarrow> u8 list \<Rightarrow> nat \<Rightarrow> int \<Rightarrow> int \<Rightarrow> bool option" where
  "compare_loop 0 a b i j j_step = Some True"
| "compare_loop (Suc n) a b i j j_step = do {
     x \<leftarrow> table_at a i;
     y \<leftarrow> (if 0 \<le> j then table_at b (nat j) else None);
     (if x \<noteq> y then Some False else compare_loop n a b (i + 1) (j + j_step) j_step)
   }"

definition compare_bytes :: "u8 list \<Rightarrow> u8 list \<Rightarrow> nat \<Rightarrow> bool \<Rightarrow> bool option" where
  "compare_bytes a b sz reverse =
     (let (j, j_step) = (if reverse then (int sz - 1, -1) else (0, 1)) in compare_loop sz a b 0 j j_step)"

text \<open>The variable \<open>value\<close> keeps its content when a read fails.\<close>

fun compare_sim_loop :: "nat \<Rightarrow> u8 list \<Rightarrow> memory_data \<Rightarrow> nat \<Rightarrow> int \<Rightarrow> int \<Rightarrow> u8 \<Rightarrow> bool option" where
  "compare_sim_loop 0 a m i j j_step v = Some True"
| "compare_sim_loop (Suc n) a m i j j_step v = do {
     (_, v) \<leftarrow> memory_read_byte m (word_of_int j) v;
     x \<leftarrow> table_at a i;
     (if x \<noteq> v then Some False else compare_sim_loop n a m (i + 1) (j + j_step) j_step v)
   }"

definition compare_with_sim :: "u8 \<Rightarrow> u8 list \<Rightarrow> memory_data \<Rightarrow> nat \<Rightarrow> bool \<Rightarrow> bool option" where
  "compare_with_sim uninit a m sz reverse =
     (let (j, j_step) = (if reverse then (int sz - 1, -1) else (0, 1)) in compare_sim_loop sz a m 0 j j_step uninit)"

fun write_bytes :: "u8 list \<Rightarrow> u32 \<Rightarrow> memory_data \<times> memory_data \<Rightarrow> (memory_data \<times> memory_data) option" where
  "write_bytes [] i m = Some m"
| "write_bytes (b # bs) i (m0, m1) = do {
     (_, m0) \<leftarrow> memory_write_byte m0 i b;
     (_, m1) \<leftarrow> memory_write_byte m1 i b;
     write_bytes bs (i + 1) (m0, m1)
   }"

definition host_half_bytes :: "bool \<Rightarrow> u16 \<Rightarrow> u8 list" where
  "host_half_bytes be v = (let le = [ucast v, ucast (drop_bit 8 v)] in if be then rev le else le)"

text \<open>The comparisons of \<open>main\<close> after the bytes have been written: \<open>same\<close> is the memory with the byte order of the
  host, \<open>other\<close> the one with the other byte order.\<close>

definition test_reads :: "bool \<Rightarrow> indet \<Rightarrow> u16 \<Rightarrow> u32 \<Rightarrow> memory_data \<Rightarrow> memory_data \<Rightarrow> string list option" where
  "test_reads be k uninit_half word_value same other = do {
     (_, word_read) \<leftarrow> memory_read_word same 0 (uninit_word k);
     t1 \<leftarrow> compare_bytes (host_bytes be word_value) (host_bytes be word_read) 4 False;
     (_, half_read) \<leftarrow> memory_read_half same 0 uninit_half;
     t2 \<leftarrow> compare_bytes (host_bytes be word_value) (host_half_bytes be half_read) 2 False;
     (_, word_read) \<leftarrow> memory_read_word other 0 word_read;
     t3 \<leftarrow> compare_bytes (host_bytes be word_value) (host_bytes be word_read) 4 True;
     (_, half_read) \<leftarrow> memory_read_half other 0 half_read;
     t4 \<leftarrow> compare_bytes (host_bytes be word_value) (host_half_bytes be half_read) 2 True;
     Some [''- word read with the same endianess as me, '', print_test t1,
       ''- half read with the same endianess as me, '', print_test t2,
       ''- word read with a different endianess than me, '', print_test t3,
       ''- half read with a different endianess than me, '', print_test t4]
   }"

definition test_writes :: "bool \<Rightarrow> indet \<Rightarrow> u32 \<Rightarrow> u16 \<Rightarrow> memory_data \<Rightarrow> memory_data \<Rightarrow> string list option" where
  "test_writes be k word_value half_value same other = do {
     (_, same) \<leftarrow> memory_write_word same 0 word_value;
     t1 \<leftarrow> compare_with_sim (uninit_byte k) (host_bytes be word_value) same 4 False;
     (_, same) \<leftarrow> memory_write_half same 0 half_value;
     t2 \<leftarrow> compare_with_sim (uninit_byte k) (host_half_bytes be half_value) same 2 False;
     (_, other) \<leftarrow> memory_write_word other 0 word_value;
     t3 \<leftarrow> compare_with_sim (uninit_byte k) (host_bytes be word_value) other 4 True;
     (_, other) \<leftarrow> memory_write_half other 0 half_value;
     t4 \<leftarrow> compare_with_sim (uninit_byte k) (host_half_bytes be half_value) other 2 True;
     Some [''- word write with the same endianess as me, '', print_test t1,
       ''- half write with the same endianess as me, '', print_test t2,
       ''- word write with a different endianess than me, '', print_test t3,
       ''- half write with a different endianess than me, '', print_test t4]
   }"

text \<open>\<open>main\<close> for the two values it uses, on two blocks of 4 bytes \<open>malloc\<close> returned.\<close>

definition memory_test :: "bool \<Rightarrow> indet \<Rightarrow> u16 \<Rightarrow> (nat \<Rightarrow> u8) \<Rightarrow> (nat \<Rightarrow> u8) \<Rightarrow> u32 \<Rightarrow> u16 \<Rightarrow> string list option" where
  "memory_test be k uninit_half block1 block0 word_value half_value = do {
     let m1 = memory_create (Some block1) 4 1;
     let m0 = memory_create (Some block0) 4 0;
     let me = is_big_endian (host_bytes be);
     (m0, m1) \<leftarrow> write_bytes (host_bytes be word_value) 0 (m0, m1);
     let (same, other) = (if me then (m1, m0) else (m0, m1));
     reads \<leftarrow> test_reads be k uninit_half word_value same other;
     writes \<leftarrow> test_writes be k word_value half_value same other;
     Some ([''I'' @ [CHR 0x27] @ ''m a '' @ (if me then ''big'' else ''little'') @ '' endian host'' @ newline,
         ''Writing 4 bytes at address 0, then reading the word and half, '' @
         ''the result should depend on simulated memory endianess :'' @ newline] @ reads @
       [''Writing word and half at address 0, then reading the bytes, '' @
         ''the result should depend on simulated memory endianess :'' @ newline] @ writes)
   }"

subsection \<open>test_register.c\<close>

text \<open>On a block of 18 registers \<open>malloc\<close> returned; the values are printed as \<open>int\<close>.\<close>

definition test_register :: "(nat \<Rightarrow> u32) \<Rightarrow> string list option" where
  "test_register block = do {
     let r = registers_create block;
     r \<leftarrow> write_register r 5 10;
     r \<leftarrow> write_register r 3 (ucast USR);
     r5 \<leftarrow> read_register r 5;
     r3 \<leftarrow> read_register r 3;
     let out = [''Register 5 contains '' @ fmt_d (sint r5) @ newline @ ''Register 3 contains '' @ fmt_d (sint r3) @ newline];
     r \<leftarrow> write_register r 16 (ucast USR);
     let out = out @ [''Mode: '' @ fmt_d (uint (get_mode r)) @ newline];
     (if current_mode_has_spsr r then Some (out @ [''Has SPSR'' @ newline])
      else do {
        u3 \<leftarrow> read_usr_register r 3;
        u16 \<leftarrow> read_usr_register r 16;
        Some (out @ [''Reading usr_register : '' @ fmt_d (sint u3) @ newline, ''Reading usr_register : '' @ fmt_d (sint u16) @ newline])
      })
   }"

subsection \<open>Properties\<close>

definition succeeds :: "string list option \<Rightarrow> bool" where
  "succeeds r \<longleftrightarrow> (case r of None \<Rightarrow> False | Some texts \<Rightarrow>
     length (filter (\<lambda>t. t = print_test True) texts) = 8 \<and> print_test False \<notin> set texts)"

lemma bytes_of_le_word [simp]:
  "(ucast (le_word a b c d) :: u8) = a" "(ucast (drop_bit 8 (le_word a b c d)) :: u8) = b"
  "(ucast (drop_bit 16 (le_word a b c d)) :: u8) = c" "(ucast (drop_bit 24 (le_word a b c d)) :: u8) = d"
  by (rule bit_word_eqI; simp add: bit_simps bit_le_word)+

lemma bytes_of_le_half [simp]: "(ucast (le_half a b) :: u8) = a" "(ucast (drop_bit 8 (le_half a b)) :: u8) = b"
  by (rule bit_word_eqI; auto simp: bit_simps le_half_def bit_u8_high)+

text \<open>A memory of 4 bytes in a given byte order that holds given bytes.\<close>

definition holds4 :: "int \<Rightarrow> u8 list \<Rightarrow> memory_data \<Rightarrow> bool" where
  "holds4 be bs m \<longleftrightarrow> mem_size m = 4 \<and> mem_be m = be \<and> [mem_bytes m 0, mem_bytes m 1, mem_bytes m 2, mem_bytes m 3] = bs"

lemma holds4_inside: "holds4 be bs m \<Longrightarrow> n \<le> 4 \<Longrightarrow> inside m 0 n"
  by (simp add: holds4_def inside_def)

lemma write_bytes_4:
  "\<exists>m0 m1. write_bytes [a, b, c, d] 0 (memory_create (Some block0) 4 0, memory_create (Some block1) 4 1) = Some (m0, m1) \<and>
   holds4 0 [a, b, c, d] m0 \<and> holds4 1 [a, b, c, d] m1"
  by (simp add: memory_create_def memory_write_byte_def store_byte_def holds4_def)

lemma compare_bytes_eq:
  "compare_bytes [a, b, c, d] [e, f, g, h] 4 r = Some ([a, b, c, d] = (if r then rev [e, f, g, h] else [e, f, g, h]))"
  "compare_bytes (a # b # xs) [e, f] 2 r = Some ([a, b] = (if r then rev [e, f] else [e, f]))"
  by (auto simp: compare_bytes_def numeral_eq_Suc table_at_def)

lemma read_byte_4: "holds4 be [e, f, g, h] m \<Longrightarrow> memory_read_byte m 0 v = Some (ucast e, e)"
  "holds4 be [e, f, g, h] m \<Longrightarrow> memory_read_byte m 1 v = Some (ucast f, f)"
  "holds4 be [e, f, g, h] m \<Longrightarrow> memory_read_byte m 2 v = Some (ucast g, g)"
  "holds4 be [e, f, g, h] m \<Longrightarrow> memory_read_byte m 3 v = Some (ucast h, h)"
  by (auto simp: memory_read_byte_def load_byte_def holds4_def)

lemma unfold_4: "compare_sim_loop 4 = compare_sim_loop (Suc (Suc (Suc (Suc 0))))" "compare_sim_loop 2 = compare_sim_loop (Suc (Suc 0))"
  by (simp_all add: numeral_eq_Suc)

lemma compare_with_sim_eq:
  assumes "holds4 be [e, f, g, h] m"
  shows "compare_with_sim u [a, b, c, d] m 4 r = Some ([a, b, c, d] = (if r then rev [e, f, g, h] else [e, f, g, h]))"
    and "compare_with_sim u [a, b] m 2 r = Some ([a, b] = (if r then rev [e, f] else [e, f]))"
  using read_byte_4 [OF assms] by (auto simp: compare_with_sim_def unfold_4 table_at_def)

definition order_of :: "bool \<Rightarrow> int" where
  "order_of be = (if be then 1 else 0)"

lemma host_bytes_eq: "host_bytes be v = (if be then [ucast (drop_bit 24 v), ucast (drop_bit 16 v), ucast (drop_bit 8 v), ucast v]
    else [ucast v, ucast (drop_bit 8 v), ucast (drop_bit 16 v), ucast (drop_bit 24 v)])"
  by (simp add: host_bytes_def Let_def)

lemma host_half_bytes_eq: "host_half_bytes be v = (if be then [ucast (drop_bit 8 v), ucast v] else [ucast v, ucast (drop_bit 8 v)])"
  by (simp add: host_half_bytes_def Let_def)

lemma holds4_word: "holds4 be [a, b, c, d] m \<Longrightarrow> word_at m 0 = (if be = 0 then le_word a b c d else le_word d c b a)"
  "holds4 be [a, b, c, d] m \<Longrightarrow> half_at m 0 = (if be = 0 then le_half a b else le_half b a)"
  by (auto simp: holds4_def word_at_def half_at_def)

lemma test_reads_succeed:
  assumes "holds4 (order_of be) (host_bytes be v) same" "holds4 (order_of (\<not> be)) (host_bytes be v) other"
  shows "test_reads be k h v same other = Some
    [''- word read with the same endianess as me, '', print_test True, ''- half read with the same endianess as me, '', print_test True,
     ''- word read with a different endianess than me, '', print_test True, ''- half read with a different endianess than me, '', print_test True]"
proof -
  note r = memory_read_word_inside memory_read_half_inside
  have i: "inside same 0 4" "inside same 0 2" "inside other 0 4" "inside other 0 2" using assms holds4_inside by simp_all
  show ?thesis
  proof (cases be)
    case True
    then show ?thesis using assms holds4_word [of 1 _ _ _ _ same] holds4_word [of 0 _ _ _ _ other] i
      by (simp add: test_reads_def r order_of_def host_bytes_eq host_half_bytes_eq compare_bytes_eq)
  next
    case False
    then show ?thesis using assms holds4_word [of 0 _ _ _ _ same] holds4_word [of 1 _ _ _ _ other] i
      by (simp add: test_reads_def r order_of_def host_bytes_eq host_half_bytes_eq compare_bytes_eq)
  qed
qed

lemma holds4_put:
  assumes "holds4 be bs m"
  shows "be = 0 \<Longrightarrow> holds4 be [ucast v, ucast (drop_bit 8 v), ucast (drop_bit 16 v), ucast (drop_bit 24 v)] (put_bytes m 0 (word_bytes be v))"
    and "be = 1 \<Longrightarrow> holds4 be [ucast (drop_bit 24 v), ucast (drop_bit 16 v), ucast (drop_bit 8 v), ucast v] (put_bytes m 0 (word_bytes be v))"
    and "be = 0 \<Longrightarrow> holds4 be ([ucast w, ucast (drop_bit 8 w)] @ drop 2 bs) (put_bytes m 0 (half_bytes be w))"
    and "be = 1 \<Longrightarrow> holds4 be ([ucast (drop_bit 8 w), ucast w] @ drop 2 bs) (put_bytes m 0 (half_bytes be w))"
  using assms by (auto simp: holds4_def put_bytes_def word_bytes_def half_bytes_def Let_def)

lemma test_writes_succeed:
  assumes "holds4 (order_of be) bs same" "holds4 (order_of (\<not> be)) bs' other"
  shows "test_writes be k v w same other = Some
    [''- word write with the same endianess as me, '', print_test True, ''- half write with the same endianess as me, '', print_test True,
     ''- word write with a different endianess than me, '', print_test True, ''- half write with a different endianess than me, '', print_test True]"
proof -
  have i: "inside same 0 4" "inside same 0 2" "inside other 0 4" "inside other 0 2" using assms holds4_inside by simp_all
  have be: "mem_be same = order_of be" "mem_be other = order_of (\<not> be)" using assms by (simp_all add: holds4_def)
  show ?thesis
  proof (cases be)
    case True
    note s1 = holds4_put(2) [OF assms(1), of v] note o1 = holds4_put(1) [OF assms(2), of v]
    from s1 o1 holds4_put(4) [OF s1, of w] holds4_put(3) [OF o1, of w] i be True show ?thesis
      by (simp add: test_writes_def memory_write_word_inside memory_write_half_inside order_of_def host_bytes_eq host_half_bytes_eq
          compare_with_sim_eq)
  next
    case False
    note s1 = holds4_put(1) [OF assms(1), of v] note o1 = holds4_put(2) [OF assms(2), of v]
    from s1 o1 holds4_put(3) [OF s1, of w] holds4_put(4) [OF o1, of w] i be False show ?thesis
      by (simp add: test_writes_def memory_write_word_inside memory_write_half_inside order_of_def host_bytes_eq host_half_bytes_eq
          compare_with_sim_eq)
  qed
qed

text \<open>The repository's memory test succeeds on the model of the memory: on hosts of either byte order, for the values
  it uses and for all others, whatever the memories hold before, each of its eight comparisons prints success.\<close>

theorem memory_test_succeeds: "succeeds (memory_test be k h block1 block0 v w)"
proof -
  obtain a b c d where bs: "host_bytes be v = [a, b, c, d]" by (cases be) (auto simp: host_bytes_eq)
  obtain m0 m1 where m: "write_bytes (host_bytes be v) 0 (memory_create (Some block0) 4 0, memory_create (Some block1) 4 1) = Some (m0, m1)"
    "holds4 0 (host_bytes be v) m0" "holds4 1 (host_bytes be v) m1"
    unfolding bs using write_bytes_4 [of a b c d block0 block1] by blast
  define same other where "same = (if be then m1 else m0)" and "other = (if be then m0 else m1)"
  have "holds4 (order_of be) (host_bytes be v) same" "holds4 (order_of (\<not> be)) (host_bytes be v) other"
    using m(2,3) by (cases be; simp add: same_def other_def order_of_def)+
  note t = test_reads_succeed [OF this, of k h] test_writes_succeed [OF this, of k v w]
  have "(if be then (m1, m0) else (m0, m1)) = (same, other)" by (simp add: same_def other_def)
  then show ?thesis by (simp add: memory_test_def m(1) t succeeds_def print_test_def)
qed

text \<open>The register test prints the two registers and the mode it has written, and both user registers, since the mode
  it enters is the user mode.\<close>

theorem test_register_prints:
  "test_register block = Some
    [''Register 5 contains 10'' @ newline @ ''Register 3 contains 16'' @ newline, ''Mode: 16'' @ newline,
     ''Reading usr_register : 16'' @ newline, ''Reading usr_register : 16'' @ newline]"
proof -
  have "fmt_d 10 = ''10''" "fmt_d 16 = ''16''" by code_simp+
  then show ?thesis
    by (simp add: test_register_def registers_create_def write_register_def read_register_def get_mode_def
        current_mode_has_spsr_def read_usr_register_def in_a_privileged_mode_def Let_def)
qed

end
