(* ===== verification/Step_Safety.thy ===== *)
theory Step_Safety
  imports Step_Properties
begin

text \<open>
  When a step has a defined behaviour: the accesses that overrun the block of the simulated memory are the only
  undefined ones, and what follows for runs on the memory of the simulator.
\<close>

subsection \<open>Accesses\<close>

text \<open>A transfer is defined inside the block, and a load also beyond its size, where it gives \<open>-1\<close>.\<close>

definition access_ok :: "memory_data \<Rightarrow> bool \<Rightarrow> bool \<Rightarrow> u32 \<Rightarrow> bool" where
  "access_ok m load byte a \<longleftrightarrow> unat a + (if byte then 1 else 4) \<le> mem_size m \<or> load \<and> mem_size m < unat a"

lemma read_byte_defined: "memory_read_byte m a x = None \<longleftrightarrow> \<not> access_ok m True True a"
  by (auto simp: memory_read_byte_def load_byte_def access_ok_def)

lemma write_byte_defined: "memory_write_byte m a v = None \<longleftrightarrow> \<not> access_ok m False True a"
  by (auto simp: memory_write_byte_def store_byte_def access_ok_def)

lemma read_word_defined:
  "mem_size m + 4 \<le> 2 ^ 32 \<Longrightarrow> memory_read_word m a x = None \<longleftrightarrow> \<not> access_ok m True False a"
  by (simp add: memory_read_word_cases access_ok_def)

lemma write_word_defined:
  "mem_size m + 4 \<le> 2 ^ 32 \<Longrightarrow> memory_write_word m a v = None \<longleftrightarrow> \<not> access_ok m False False a"
  by (simp add: memory_write_word_cases access_ok_def)

lemma read_byte_after_write: "memory_write_byte m a v = Some (r, m') \<Longrightarrow> \<exists>q. memory_read_byte m' a x = Some q"
  by (auto simp: memory_write_byte_def store_byte_def memory_read_byte_def load_byte_def split: if_splits)

lemma read_word_after_write:
  assumes "mem_size m + 4 \<le> 2 ^ 32" "memory_write_word m a v = Some (r, m')"
  shows "\<exists>q. memory_read_word m' a x = Some q"
proof -
  have "unat a + 4 \<le> mem_size m" "m' = put_bytes m a (word_bytes (mem_be m) v)"
    using assms by (auto simp: memory_write_word_cases split: if_splits)
  then show ?thesis using assms(1) by (simp add: memory_read_word_cases)
qed

lemma core_transfer_defined:
  assumes "mem_size (mem c) + 4 \<le> 2 ^ 32"
  shows "core_transfer k a v load byte rd c = None \<longleftrightarrow> \<not> access_ok (mem c) load byte a"
proof (cases load; cases byte)
  assume "load" "byte"
  then show ?thesis using read_byte_defined [of "mem c" a "uninit_byte k"]
    by (cases "memory_read_byte (mem c) a (uninit_byte k)") (auto simp: core_transfer_def core_read_byte_def)
next
  assume "load" "\<not> byte"
  then show ?thesis using read_word_defined [OF assms, of a "uninit_word k"]
    by (cases "memory_read_word (mem c) a (uninit_word k)") (auto simp: core_transfer_def core_read_word_def Let_def)
next
  assume "\<not> load" "byte"
  then show ?thesis using write_byte_defined [of "mem c" a "ucast (take_bit 8 v)"]
    by (cases "memory_write_byte (mem c) a (ucast (take_bit 8 v))")
      (auto simp: core_transfer_def core_write_byte_def core_read_byte_def dest!: read_byte_after_write [where x = "uninit_byte k"])
next
  assume "\<not> load" "\<not> byte"
  then show ?thesis using write_word_defined [OF assms, of a v]
    by (cases "memory_write_word (mem c) a v")
      (auto simp: core_transfer_def core_write_word_def core_read_word_def
        dest!: read_word_after_write [OF assms, where x = "uninit_word k"])
qed

subsection \<open>Steps\<close>

text \<open>The instruction at the fetch address is a transfer whose condition holds.\<close>

definition transfers :: "indet \<Rightarrow> u32 \<Rightarrow> arm_core_data \<Rightarrow> bool" where
  "transfers k ins c \<longleftrightarrow> take_bit 2 (drop_bit 26 ins) = 1 \<and> core_condition k ins c"

lemma core_condition_fetched [simp]: "core_condition k ins (fetched c) = core_condition k ins c"
  by (simp add: core_condition_def read_cpsr_def)

lemma core_execute_defined:
  assumes "mem_size (mem c) + 4 \<le> 2 ^ 32"
  shows "core_execute k res ins c = None \<longleftrightarrow>
    transfers k res c \<and> \<not> access_ok (mem c) (bit res 20) (bit res 22) (arm_load_store k ins)"
  using core_transfer_defined [OF assms]
  by (auto simp: core_execute_def transfers_def Let_def)

definition step_ok :: "indet \<Rightarrow> arm_core_data \<Rightarrow> bool" where
  "step_ok k c \<longleftrightarrow> (let a = fetch_address c; m = mem c; ins = word_at m a in
     mem_size m < unat a \<or>
     unat a + 4 \<le> mem_size m \<and> (transfers k ins c \<longrightarrow> access_ok m (bit ins 20) (bit ins 22) (arm_load_store k ins)))"

lemma core_step_defined:
  assumes "mem_size (mem c) + 4 \<le> 2 ^ 32"
  shows "core_step k c = None \<longleftrightarrow> \<not> step_ok k c"
proof -
  have f: "mem_size (mem (fetched c)) + 4 \<le> 2 ^ 32" using assms by simp
  have beyond: "\<not> transfers k (-1) d" for d by (simp add: transfers_def mask_eq_exp_minus_1)
  have m2: "mask 2 \<noteq> (1 :: u32)" by (simp add: mask_eq_exp_minus_1)
  have "core_step k c = None \<longleftrightarrow> (case memory_read_word (mem c) (fetch_address c) (uninit_word k) of
      None \<Rightarrow> True | Some (res, ins) \<Rightarrow> core_execute k res ins (fetched c) = None)"
    by (cases "memory_read_word (mem c) (fetch_address c) (uninit_word k)")
      (auto simp: core_step_def core_fetch_eq bind_eq_None_conv split: prod.splits)
  also have "\<dots> \<longleftrightarrow> \<not> step_ok k c"
    unfolding core_execute_defined [OF f]
    by (auto simp: memory_read_word_cases [OF assms] step_ok_def Let_def beyond transfers_def m2)
  finally show ?thesis .
qed

lemma step_defined_iff:
  assumes "room 2 (trace s)" "mem_size (memo s) + 4 \<le> 2 ^ 32"
  shows "arm_step k s = None \<longleftrightarrow> \<not> step_ok k (arm s)"
  using step.agrees [OF assms(1), of k] core_step_defined [OF assms(2), of k]
  by (cases "arm_step k s"; cases "core_step k (arm s)") (auto simp: refines_def)

text \<open>A transfer with an added offset that is constant or an unscaled register stays in the first 4114 bytes.\<close>

definition low_transfer :: "u32 \<Rightarrow> bool" where
  "low_transfer ins \<longleftrightarrow> bit ins 23 \<and> (bit ins 25 \<longrightarrow> take_bit 8 (drop_bit 4 ins) = 0)"

lemma low_transfer_ok:
  assumes "low_transfer ins" "4114 \<le> mem_size m"
  shows "access_ok m load byte (arm_load_store k ins)"
proof -
  have "bit ins 25 \<longrightarrow> take_bit 8 (drop_bit 4 ins) = 0" "bit ins 23" using assms(1) by (simp_all add: low_transfer_def)
  from load_store_cases [OF this(1), of k] this(2) have "unat (arm_load_store k ins) \<le> 4110" by blast
  then show ?thesis using assms(2) by (simp add: access_ok_def)
qed

subsection \<open>Properties\<close>

text \<open>C10: the only undefined behaviours of a step are overruns of the memory block: \<open>arm_step\<close> has a result exactly
  when the word at the fetch address is inside the block or beyond its size and, if it is a transfer whose
  condition holds, the transfer is inside the block or is a load beyond its size.\<close>

theorem step_defined:
  assumes "room 2 (trace s)" "mem_size (memo s) + 4 \<le> 2 ^ 32"
  shows "(\<exists>u. arm_step k s = Some (0, u)) \<longleftrightarrow>
    (let a = fetch_address (arm s); m = memo s; ins = word_at m a in
     mem_size m < unat a \<or>
     unat a + 4 \<le> mem_size m \<and> (transfers k ins (arm s) \<longrightarrow> access_ok m (bit ins 20) (bit ins 22) (arm_load_store k ins)))"
proof -
  have "r = 0" if "arm_step k s = Some (r, u)" for r u using step_keeps [OF that assms(1)] by blast
  then have "(\<exists>u. arm_step k s = Some (0, u)) \<longleftrightarrow> arm_step k s \<noteq> None" by auto
  then show ?thesis using step_defined_iff [OF assms, of k] by (simp add: step_ok_def)
qed

text \<open>\<open>STR r3, [r0, #13]\<close> and \<open>LDR r3, [r0, #17]\<close> on a memory of 16 bytes.\<close>

theorem step_defined_witness:
  "(\<forall>u. arm_step host (demo 0xE580300D) \<noteq> Some (0, u)) \<and> (\<exists>u. arm_step host (demo 0xE5903011) = Some (0, u))"
proof -
  have w: "fetch_address (arm (demo i)) = 0" "word_at (memo (demo i)) 0 = i" for i
    using demo_simps(3) [of i] aligned_fetch(2) [OF demo_simps(2) [of i]] by (simp_all add: executes_def)
  have "transfers host 0xE580300D (arm (demo i))" for i
    by (simp add: transfers_def core_condition_def condition_switch_def)
  moreover have "arm_load_store host 0xE580300D = 13" "arm_load_store host 0xE5903011 = 17"
    by (simp_all add: arm_load_store_def getValueFromIns_def Let_def)
  ultimately show ?thesis
    using step_defined [of "demo 0xE580300D" host] step_defined [of "demo 0xE5903011" host]
    by (simp add: w access_ok_def Let_def del: demo_simps(6)) (simp add: demo_def)
qed

text \<open>C4: no run gets stuck on a memory of at least 4114 bytes, such as the one of the simulator, before PC reaches its
  last bytes or a transfer that subtracts its offset or scales a register: in every other state of a run each
  step has a defined result, with which the run goes on.\<close>

theorem run_progress:
  assumes "arm_create m block count t out = Some s" "room 2 t" "runs n s u" "4114 \<le> mem_size m" "mem_size m + 4 \<le> 2 ^ 32"
    and "mem_size m < unat (fetch_address (arm u)) \<or> unat (fetch_address (arm u)) + 4 \<le> mem_size m"
    and "\<And>ins. executes (arm u) ins \<Longrightarrow> take_bit 2 (drop_bit 26 ins) = 1 \<Longrightarrow> low_transfer ins"
  shows "\<exists>v. arm_step k u = Some (0, v) \<and> runs (Suc n) s v"
proof -
  have "room 1 t" using assms(2) by (simp add: room_def)
  then have s: "same_settings t (trace s)" "memo s = m"
    using arm_create_state [of t m block count out] assms(1) by auto
  have r: "room 2 (trace s)" using s(1) assms(2) room_same by blast
  with runs_keep [OF assms(3)] s have u: "room 2 (trace u)" "mem_size (memo u) = mem_size m"
    by (auto simp: same_status_def room_same [symmetric])
  have "step_ok k (arm u)"
    using assms(4-7) u(2) low_transfer_ok [of _ "memo u" _ _ k]
    by (auto simp: step_ok_def Let_def transfers_def executes_def inside_def)
  then obtain x v where v: "arm_step k u = Some (x, v)" using step_defined_iff [OF u(1), of k] assms(5) u(2) by (cases "arm_step k u") auto
  with step_keeps [OF v u(1)] runs.step [OF assms(3) v] show ?thesis by blast
qed

text \<open>The first step of the simulator on a memory of zeros.\<close>

theorem run_progress_witness:
  "\<exists>s v. arm_create (memory_create (Some (\<lambda>_. 0)) 0x20000 1) (\<lambda>_. 0) 7 trace_initial [] = Some s \<and>
    arm_step host s = Some (0, v) \<and> runs 1 s v"
proof -
  let ?m = "memory_create (Some (\<lambda>_. 0)) 0x20000 1"
  have room: "room 2 trace_initial" by (simp add: room_def trace_initial_def)
  then obtain s where s: "arm_create ?m (\<lambda>_. 0) 7 trace_initial [] = Some s"
    "arm s = \<lparr>cycle_count = 0, reg = \<lparr>r_data = (\<lambda>_. 0)(16 := 0x1d3)\<rparr>, mem = ?m\<rparr>"
    using arm_create_state [of trace_initial ?m "\<lambda>_. 0" 7 "[]"] by (auto simp: room_def)
  have a: "fetch_address (arm s) = 0" using aligned_fetch(2) [of "arm s"] s(2) by (simp add: aligned_pc_def)
  have m: "mem_size ?m = 0x20000" "word_at ?m 0 = 0" by (simp_all add: memory_create_def word_at_def le_word_def)
  have "\<exists>v. arm_step host s = Some (0, v) \<and> runs (Suc 0) s v"
    by (rule run_progress [OF s(1) room runs.start]) (use a m s(2) in \<open>auto simp: executes_def\<close>)
  with s(1) show ?thesis by auto
qed

end
