(* ===== verification/Debug_Messages.thy ===== *)
theory Debug_Messages
  imports Debug Constants
begin

text \<open>
  The message macros of \<open>debug.h\<close>: a message is printed when its file is debugged.  \<open>CACHE_DEBUG_FLAG\<close>, which
  \<open>Makefile.am\<close> proposes, replaces the search of each message by two static variables of the file.
\<close>

subsection \<open>Macros\<close>

record debug_cache =
  is_debugged_first :: bool
  is_debugged_result :: bool

definition debug_cache_initial :: debug_cache where
  "debug_cache_initial = \<lparr>is_debugged_first = True, is_debugged_result = False\<rparr>"

text \<open>\<open>is_debugged\<close> with \<open>CACHE_DEBUG_FLAG\<close>: the left operand of \<open>||\<close> sets the variables on the first use.\<close>

definition is_debugged_cached :: "debug_state \<Rightarrow> string \<Rightarrow> debug_cache \<Rightarrow> (bool \<times> debug_cache) option" where
  "is_debugged_cached d name c = do {
     (left, c) \<leftarrow> (if is_debugged_first c
       then do { r \<leftarrow> is_debugged d name; Some (r, c\<lparr>is_debugged_first := False, is_debugged_result := r\<rparr>) }
       else Some (False, c));
     Some (left \<or> is_debugged_result c, c)
   }"

text \<open>The configuration of the macros, and what a message prints on the standard error.\<close>

record debug_config =
  debug_defined :: bool
  cache_debug_flag :: bool

definition is_debugged_macro :: "debug_config \<Rightarrow> debug_state \<Rightarrow> string \<Rightarrow> debug_cache \<Rightarrow> (bool \<times> debug_cache) option" where
  "is_debugged_macro cfg d name c =
     (if cache_debug_flag cfg then is_debugged_cached d name c else map_option (\<lambda>b. (b, c)) (is_debugged d name))"

definition debug_raw :: "debug_config \<Rightarrow> debug_state \<Rightarrow> string \<Rightarrow> string \<Rightarrow> debug_cache \<Rightarrow> (string list \<times> debug_cache) option" where
  "debug_raw cfg d this_file msg c =
     (if debug_defined cfg
      then do { (b, c) \<leftarrow> is_debugged_macro cfg d this_file c; Some (if b then [msg] else [], c) }
      else Some ([], c))"

definition debug_message ::
  "debug_config \<Rightarrow> debug_state \<Rightarrow> string \<Rightarrow> int \<Rightarrow> string \<Rightarrow> debug_cache \<Rightarrow> (string list \<times> debug_cache) option" where
  "debug_message cfg d this_file this_line msg c =
     debug_raw cfg d this_file (''[DEBUG] '' @ this_file @ '','' @ fmt_d this_line @ '': '' @ msg) c"

definition debug_raw_binary_message ::
  "debug_config \<Rightarrow> debug_state \<Rightarrow> string \<Rightarrow> string \<Rightarrow> nat \<Rightarrow> debug_cache \<Rightarrow> (string list \<times> debug_cache) option" where
  "debug_raw_binary_message cfg d this_file data len c =
     (if debug_defined cfg
      then do {
        (b, c) \<leftarrow> is_debugged_macro cfg d this_file c;
        (if b then do { t \<leftarrow> debug_raw_binary data len; Some ([t], c) } else Some ([], c))
      }
      else Some ([], c))"

definition warning_message :: "string \<Rightarrow> int \<Rightarrow> string \<Rightarrow> string" where
  "warning_message this_file this_line msg = ''[WARNING] '' @ this_file @ '', '' @ fmt_d this_line @ '': '' @ msg"

subsection \<open>The messages of one file\<close>

text \<open>The messages of a file in order, each with the table of debugged files at that moment.\<close>

fun messages :: "debug_config \<Rightarrow> string \<Rightarrow> (debug_state \<times> string) list \<Rightarrow> debug_cache \<Rightarrow> string list option" where
  "messages cfg this_file [] c = Some []"
| "messages cfg this_file ((d, msg) # ms) c = do {
     (printed, c) \<leftarrow> debug_raw cfg d this_file msg c;
     rest \<leftarrow> messages cfg this_file ms c;
     Some (printed @ rest)
   }"

abbreviation "debugs d name \<equiv> name \<in> set (entries d)"

lemma messages_uncached:
  assumes "debug_defined cfg" "\<not> cache_debug_flag cfg" "\<forall>p\<in>set ms. wf_debug (fst p)"
  shows "messages cfg this_file ms c = Some (map snd (filter (\<lambda>p. debugs (fst p) this_file) ms))"
  using assms by (induction ms) (auto simp: debug_raw_def is_debugged_macro_def is_debugged_eq)

lemma messages_cached_later:
  assumes "debug_defined cfg" "cache_debug_flag cfg" "\<not> is_debugged_first c"
  shows "messages cfg this_file ms c = Some (if is_debugged_result c then map snd ms else [])"
  using assms by (induction ms) (auto simp: debug_raw_def is_debugged_macro_def is_debugged_cached_def)

lemma messages_cached:
  assumes "debug_defined cfg" "cache_debug_flag cfg" "wf_debug d"
  shows "messages cfg this_file ((d, msg) # ms) debug_cache_initial =
    Some (if debugs d this_file then msg # map snd ms else [])"
  using assms
  by (simp add: debug_raw_def is_debugged_macro_def is_debugged_cached_def debug_cache_initial_def is_debugged_eq
      messages_cached_later)

subsection \<open>Properties\<close>

text \<open>C30: caching the flag is sound exactly as far as the warning of \<open>Makefile.am\<close> says.  Without the cache every
  message of a debugged file is printed.  With it the first message decides for all of them: the same messages
  are printed when no later addition changes whether the file is debugged, and a file that is added after its
  first message stays silent.\<close>

theorem debug_cache_sound:
  assumes "debug_defined cfg" "\<forall>p\<in>set ((d, msg) # ms). wf_debug (fst p)"
  shows "messages (cfg\<lparr>cache_debug_flag := False\<rparr>) this_file ((d, msg) # ms) debug_cache_initial =
      Some (map snd (filter (\<lambda>p. debugs (fst p) this_file) ((d, msg) # ms))) \<and>
    messages (cfg\<lparr>cache_debug_flag := True\<rparr>) this_file ((d, msg) # ms) debug_cache_initial =
      (if \<forall>p\<in>set ms. debugs (fst p) this_file = debugs d this_file
       then messages (cfg\<lparr>cache_debug_flag := False\<rparr>) this_file ((d, msg) # ms) debug_cache_initial
       else Some (if debugs d this_file then msg # map snd ms else []))"
proof -
  let ?off = "cfg\<lparr>cache_debug_flag := False\<rparr>" and ?on = "cfg\<lparr>cache_debug_flag := True\<rparr>"
  have off: "messages ?off this_file ((d, msg) # ms) debug_cache_initial =
      Some (map snd (filter (\<lambda>p. debugs (fst p) this_file) ((d, msg) # ms)))"
    by (rule messages_uncached) (use assms in auto)
  have on: "messages ?on this_file ((d, msg) # ms) debug_cache_initial = Some (if debugs d this_file then msg # map snd ms else [])"
    by (rule messages_cached) (use assms in auto)
  have "filter (\<lambda>p. debugs (fst p) this_file) ms = (if debugs d this_file then ms else [])"
    if "\<forall>p\<in>set ms. debugs (fst p) this_file = debugs d this_file"
    using that by (auto simp: filter_empty_conv intro: filter_True)
  with off on show ?thesis by auto
qed

text \<open>\<open>scanner.l\<close> is added between its two messages.\<close>

theorem debug_cache_sound_witness:
  "\<exists>d. add_debug_to ''scanner.l'' debug_initial = Some d \<and>
    messages \<lparr>debug_defined = True, cache_debug_flag = False\<rparr> ''scanner.l'' [(debug_initial, ''a''), (d, ''b'')] debug_cache_initial =
      Some [''b''] \<and>
    messages \<lparr>debug_defined = True, cache_debug_flag = True\<rparr> ''scanner.l'' [(debug_initial, ''a''), (d, ''b'')] debug_cache_initial =
      Some []"
proof -
  have n: "nb_debugged_files debug_initial < 64" by (simp add: wf_debug_initial)
  from add_debug_to_eq [OF wf_debug_initial(1) n, of "''scanner.l''"] obtain d where
    d: "add_debug_to ''scanner.l'' debug_initial = Some d" "entries d = [''scanner.l'']"
    by (auto simp: wf_debug_initial)
  have w: "wf_debug d" by (rule wf_debug_add [OF wf_debug_initial(1) n d(1)])
  have "\<forall>p\<in>set [(debug_initial, ''a''), (d, ''b'')]. wf_debug (fst p)" using w by (simp add: wf_debug_initial)
  from debug_cache_sound [OF _ this, of "\<lparr>debug_defined = True, cache_debug_flag = False\<rparr>" "''scanner.l''"] d
  show ?thesis by (simp add: wf_debug_initial)
qed

end
