(* ===== verification/Lifecycle.thy ===== *)
theory Lifecycle
  imports Simulator Gdb_Memory_Properties
begin

text \<open>
  The blocks of the heap behind the simulated machine: what \<open>memory_create\<close>, \<open>registers_create\<close>, \<open>arm_create\<close> and
  \<open>gdb_init_data\<close> allocate, and what the functions \<open>_destroy\<close> and the end of \<open>main\<close> release.  The contents of the
  blocks are modelled with the components; here a handle is the addresses of its blocks.  An access through a
  null pointer and a \<open>free\<close> of a block that is not allocated are \<^const>\<open>None\<close>.  Between the creation and the
  destruction the program serves gdb and the interrupts with the operations of the other theories.
\<close>

subsection \<open>The allocator\<close>

text \<open>\<open>outcomes\<close> tells which of the next calls of \<open>malloc\<close> succeed; when it is used up they fail.\<close>

record heap =
  live :: "nat set"
  fresh :: nat
  outcomes :: "bool list"

definition wf_heap :: "heap \<Rightarrow> bool" where
  "wf_heap h \<longleftrightarrow> (\<forall>p\<in>live h. p < fresh h)"

definition malloc :: "heap \<Rightarrow> nat option \<times> heap" where
  "malloc h = (case outcomes h of
      [] \<Rightarrow> (None, h)
    | False # bs \<Rightarrow> (None, h\<lparr>outcomes := bs\<rparr>)
    | True # bs \<Rightarrow> (Some (fresh h), \<lparr>live = insert (fresh h) (live h), fresh = fresh h + 1, outcomes = bs\<rparr>))"

definition free_block :: "nat option \<Rightarrow> heap \<Rightarrow> heap option" where
  "free_block p h = (case p of
      None \<Rightarrow> Some h
    | Some p \<Rightarrow> if p \<in> live h then Some (h\<lparr>live := live h - {p}\<rparr>) else None)"

subsection \<open>Creation and destruction\<close>

record memory_blocks =
  memory_struct :: nat
  memory_address :: "nat option"

definition memory_create_blocks :: "heap \<Rightarrow> (memory_blocks \<times> heap) option" where
  "memory_create_blocks h =
     (let (mb, h) = malloc h; (address, h) = malloc h in
      case mb of None \<Rightarrow> None | Some p \<Rightarrow> Some (\<lparr>memory_struct = p, memory_address = address\<rparr>, h))"

definition memory_destroy :: "memory_blocks \<Rightarrow> heap \<Rightarrow> heap option" where
  "memory_destroy mb h = do { h \<leftarrow> free_block (memory_address mb) h; free_block (Some (memory_struct mb)) h }"

record registers_blocks =
  registers_struct :: nat
  registers_data :: "nat option"

definition registers_create_blocks :: "heap \<Rightarrow> (registers_blocks \<times> heap) option" where
  "registers_create_blocks h =
     (let (r, h) = malloc h; (data, h) = malloc h in
      case r of None \<Rightarrow> None | Some p \<Rightarrow> Some (\<lparr>registers_struct = p, registers_data = data\<rparr>, h))"

definition registers_destroy :: "registers_blocks \<Rightarrow> heap \<Rightarrow> heap option" where
  "registers_destroy r h = do { h \<leftarrow> free_block (registers_data r) h; free_block (Some (registers_struct r)) h }"

record core_blocks =
  core_struct :: nat
  core_registers :: registers_blocks

text \<open>\<open>arm_create\<close> returns a null pointer when the processor cannot be allocated; its reset writes to the registers.\<close>

definition arm_create_blocks :: "heap \<Rightarrow> (core_blocks option \<times> heap) option" where
  "arm_create_blocks h = (case malloc h of
      (None, h) \<Rightarrow> Some (None, h)
    | (Some p, h) \<Rightarrow> do {
        (r, h) \<leftarrow> registers_create_blocks h;
        (if registers_data r = None then None else Some (Some \<lparr>core_struct = p, core_registers = r\<rparr>, h))
      })"

definition arm_destroy :: "core_blocks option \<Rightarrow> heap \<Rightarrow> heap option" where
  "arm_destroy p h = (case p of
      None \<Rightarrow> None
    | Some p \<Rightarrow> do { h \<leftarrow> registers_destroy (core_registers p) h; free_block (Some (core_struct p)) h })"

subsection \<open>The session\<close>

text \<open>The scanner of gdb up to the end of the connection, with the interrupts received between two of its tokens.\<close>

fun serve :: "(nat \<Rightarrow> indet list \<times> indet) \<Rightarrow> bool \<Rightarrow> event list \<Rightarrow> parser_data \<Rightarrow> scanning option" where
  "serve env be [] d = Some (proceed (handle_error d))"
| "serve env be (Gdb t # es) d = do {
     r \<leftarrow> token_action (fst (env 0)) (snd (env 0)) be t d;
     (case r of Scanning d \<Rightarrow> serve (\<lambda>n. env (Suc n)) be es d | _ \<Rightarrow> Some r)
   }"
| "serve env be (Irq irq # es) d = do {
     s \<leftarrow> irq_received irq (target (gdb d));
     serve env be es (d\<lparr>gdb := (gdb d)\<lparr>target := s\<rparr>\<rparr>)
   }"

text \<open>The same when \<open>gdb_init_data\<close> has returned a null pointer: a packet, a transmission and the request for a
  retransmission in \<open>handle_error\<close> follow it.  \<open>len\<close> counts the pending invalid characters.\<close>

fun serve_null :: "event list \<Rightarrow> nat \<Rightarrow> machine \<Rightarrow> machine option" where
  "serve_null [] len s = (if len \<noteq> 0 then None else Some s)"
| "serve_null (Gdb t # es) len s = (case t of
      Ack \<Rightarrow> if len \<noteq> 0 then None else serve_null es len s
    | Invalid c \<Rightarrow> if MAX_ERROR_SIZE - 2 < len then None else serve_null es (len + 1) s
    | Newline \<Rightarrow> serve_null es len s
    | _ \<Rightarrow> None)"
| "serve_null (Irq irq # es) len s = do { s \<leftarrow> irq_received irq s; serve_null es len s }"

text \<open>What the allocated blocks contain.\<close>

record found_blocks =
  found_bytes :: "nat \<Rightarrow> u8"
  found_registers :: "nat \<Rightarrow> u32"
  found_cycles :: u32
  found_packet :: "nat \<Rightarrow> char"

text \<open>The connection of gdb: its data are allocated by \<open>gdb_init_data\<close> and never freed.  The scanner returns at the
  end of the connection; \<^const>\<open>None\<close> also stands for a process that has ended before and for a \<open>cont\<close> still running.\<close>

definition gdb_scanner_blocks ::
  "(nat \<Rightarrow> indet list \<times> indet) \<Rightarrow> bool \<Rightarrow> (nat \<Rightarrow> char) \<Rightarrow> event list \<Rightarrow> machine \<Rightarrow> heap \<Rightarrow> heap option" where
  "gdb_scanner_blocks env be block es s h = (case malloc h of
      (None, h) \<Rightarrow> do { _ \<leftarrow> serve_null es 0 s; Some h }
    | (Some _, h) \<Rightarrow> (case serve env be es (scanner_init s block) of Some (Scanning _) \<Rightarrow> Some h | _ \<Rightarrow> None))"

text \<open>The machine the threads share.  When its block was not allocated the memory has size 0, and an access through
  \<open>address\<close> is outside it: so the accesses of the session meet the null pointer in the operations of \<open>Memory\<close>.\<close>

definition blocks_machine :: "bool \<Rightarrow> options \<Rightarrow> found_blocks \<Rightarrow> memory_blocks \<Rightarrow> machine option" where
  "blocks_machine be cfg fb mb =
     main_create be
       \<lparr>memory_block = (case memory_address mb of None \<Rightarrow> None | Some _ \<Rightarrow> Some (found_bytes fb)),
        register_block = found_registers fb, cycle_block = found_cycles fb\<rparr> cfg"

text \<open>\<open>main\<close> after the options, up to its \<open>return\<close>; \<^const>\<open>None\<close> when it does not get there.  Without a processor
  \<open>arm_destroy\<close> follows a null pointer at the latest.\<close>

definition main_blocks ::
  "(nat \<Rightarrow> indet list \<times> indet) \<Rightarrow> bool \<Rightarrow> options \<Rightarrow> found_blocks \<Rightarrow> event list \<Rightarrow> heap \<Rightarrow> heap option" where
  "main_blocks env be cfg fb es h = do {
     (mb, h) \<leftarrow> memory_create_blocks h;
     (processor, h) \<leftarrow> arm_create_blocks h;
     h \<leftarrow> (case processor of
         None \<Rightarrow> None
       | Some _ \<Rightarrow> do { s \<leftarrow> blocks_machine be cfg fb mb; gdb_scanner_blocks env be (found_packet fb) es s h });
     h \<leftarrow> arm_destroy processor h;
     memory_destroy mb h
   }"

subsection \<open>Owners\<close>

text \<open>A pair of a creation and a destruction: the creation adds blocks of its own, the destruction frees exactly them.\<close>

locale owner =
  fixes create :: "heap \<Rightarrow> ('p \<times> heap) option"
    and destroy :: "'p \<Rightarrow> heap \<Rightarrow> heap option"
    and blocks :: "'p \<Rightarrow> nat set"
    and usable :: "'p \<Rightarrow> bool"
  assumes create_owns: "wf_heap h \<Longrightarrow> create h = Some (p, h') \<Longrightarrow>
      wf_heap h' \<and> live h' = live h \<union> blocks p \<and> blocks p \<inter> live h = {}"
    and destroy_frees: "usable p \<Longrightarrow> blocks p \<subseteq> live h \<Longrightarrow> destroy p h = Some (h\<lparr>live := live h - blocks p\<rparr>)"
    and destroy_needs: "destroy p h = Some h' \<Longrightarrow> usable p \<and> blocks p \<subseteq> live h"
begin

text \<open>What is allocated in between survives, and nothing of the handle does.\<close>

lemma create_destroy:
  assumes "wf_heap h" "create h = Some (p, h1)" "usable p" "live h2 = live h1 \<union> new" "new \<inter> live h1 = {}"
  shows "\<exists>h3. destroy p h2 = Some h3 \<and> live h3 = live h \<union> new"
proof -
  have "live h1 = live h \<union> blocks p" "blocks p \<inter> live h = {}" using create_owns [OF assms(1,2)] by auto
  moreover from this(1) assms(4) have "destroy p h2 = Some (h2\<lparr>live := live h2 - blocks p\<rparr>)"
    by (intro destroy_frees [OF assms(3)]) auto
  ultimately show ?thesis using assms(4,5) by (intro exI [of _ "h2\<lparr>live := live h2 - blocks p\<rparr>"]) auto
qed

lemma no_double_destroy:
  assumes "destroy p h = Some h'" "blocks p \<noteq> {}"
  shows "destroy p h' = None"
proof -
  have "h' = h\<lparr>live := live h - blocks p\<rparr>"
    using destroy_needs [OF assms(1)] destroy_frees [of p h] assms(1) by simp
  then have "\<not> blocks p \<subseteq> live h'" using assms(2) by auto
  then show ?thesis using destroy_needs [of p h'] by (cases "destroy p h'") auto
qed

end

text \<open>A structure with a pointer to one more block.\<close>

lemma malloc_owns:
  assumes "wf_heap h" "malloc h = (p, h')"
  shows "wf_heap h'" "live h' = live h \<union> set_option p" "set_option p \<inter> live h = {}"
  using assms by (fastforce simp: malloc_def wf_heap_def intro: less_SucI split: list.splits bool.splits)+

lemma free_blocks:
  "do { h \<leftarrow> free_block q h; free_block (Some p) h } =
    (if q \<noteq> Some p \<and> insert p (set_option q) \<subseteq> live h then Some (h\<lparr>live := live h - insert p (set_option q)\<rparr>) else None)"
  by (cases q) (auto simp: free_block_def simp flip: Diff_insert)

definition memory_owned :: "memory_blocks \<Rightarrow> nat set" where
  "memory_owned mb = insert (memory_struct mb) (set_option (memory_address mb))"

definition memory_usable :: "memory_blocks \<Rightarrow> bool" where
  "memory_usable mb \<longleftrightarrow> memory_address mb \<noteq> Some (memory_struct mb)"

definition registers_owned :: "registers_blocks \<Rightarrow> nat set" where
  "registers_owned r = insert (registers_struct r) (set_option (registers_data r))"

definition registers_usable :: "registers_blocks \<Rightarrow> bool" where
  "registers_usable r \<longleftrightarrow> registers_data r \<noteq> Some (registers_struct r)"

fun core_owned :: "core_blocks option \<Rightarrow> nat set" where
  "core_owned None = {}"
| "core_owned (Some p) = insert (core_struct p) (registers_owned (core_registers p))"

fun core_usable :: "core_blocks option \<Rightarrow> bool" where
  "core_usable None \<longleftrightarrow> False"
| "core_usable (Some p) \<longleftrightarrow> registers_usable (core_registers p) \<and> core_struct p \<notin> registers_owned (core_registers p)"

lemma two_blocks:
  assumes "wf_heap h" "malloc h = (Some p, h1)" "malloc h1 = (q, h2)"
  shows "wf_heap h2" "live h2 = live h \<union> insert p (set_option q)" "insert p (set_option q) \<inter> live h = {}" "q \<noteq> Some p"
proof -
  note m1 = malloc_owns [OF assms(1,2)]
  note m2 = malloc_owns [OF m1(1) assms(3)]
  show "wf_heap h2" "live h2 = live h \<union> insert p (set_option q)" "insert p (set_option q) \<inter> live h = {}" "q \<noteq> Some p"
    using m1 m2 by auto
qed

lemma memory_create_blocks_usable: "wf_heap h \<Longrightarrow> memory_create_blocks h = Some (mb, h') \<Longrightarrow> memory_usable mb"
  by (auto simp: memory_create_blocks_def memory_usable_def split: prod.splits option.splits dest: two_blocks(4))

lemma registers_create_blocks_usable: "wf_heap h \<Longrightarrow> registers_create_blocks h = Some (r, h') \<Longrightarrow> registers_usable r"
  by (auto simp: registers_create_blocks_def registers_usable_def split: prod.splits option.splits dest: two_blocks(4))

interpretation memory: owner memory_create_blocks memory_destroy memory_owned memory_usable
proof
  fix h h' p assume a: "wf_heap h" "memory_create_blocks h = Some (p, h')"
  then show "wf_heap h' \<and> live h' = live h \<union> memory_owned p \<and> memory_owned p \<inter> live h = {}"
    by (auto simp: memory_create_blocks_def memory_owned_def split: prod.splits option.splits dest: two_blocks)
qed (auto simp: memory_destroy_def free_blocks memory_owned_def memory_usable_def split: if_splits)

interpretation registers: owner registers_create_blocks registers_destroy registers_owned registers_usable
proof
  fix h h' p assume a: "wf_heap h" "registers_create_blocks h = Some (p, h')"
  then show "wf_heap h' \<and> live h' = live h \<union> registers_owned p \<and> registers_owned p \<inter> live h = {}"
    by (auto simp: registers_create_blocks_def registers_owned_def split: prod.splits option.splits dest: two_blocks)
qed (auto simp: registers_destroy_def free_blocks registers_owned_def registers_usable_def split: if_splits)

lemma arm_create_blocks_cases:
  assumes "wf_heap h" "arm_create_blocks h = Some (p, h')"
  shows "wf_heap h' \<and> live h' = live h \<union> core_owned p \<and> core_owned p \<inter> live h = {} \<and> (p = None \<or> core_usable p)"
proof (cases "malloc h")
  case (Pair q h1)
  note m = malloc_owns [OF assms(1) Pair]
  show ?thesis
  proof (cases q)
    case None
    then show ?thesis using Pair assms(2) m by (auto simp: arm_create_blocks_def)
  next
    case (Some c)
    then obtain r where r: "registers_create_blocks h1 = Some (r, h')" "p = Some \<lparr>core_struct = c, core_registers = r\<rparr>"
      using Pair assms(2) by (auto simp: arm_create_blocks_def bind_eq_Some_conv split: if_splits)
    with registers.create_owns [OF m(1) r(1)] registers_create_blocks_usable [OF m(1) r(1)] m Some show ?thesis by auto
  qed
qed

interpretation core: owner arm_create_blocks arm_destroy core_owned core_usable
proof
  fix h h' p assume "wf_heap h" "arm_create_blocks h = Some (p, h')"
  then show "wf_heap h' \<and> live h' = live h \<union> core_owned p \<and> core_owned p \<inter> live h = {}"
    using arm_create_blocks_cases by blast
next
  fix p and h :: heap assume a: "core_usable p" "core_owned p \<subseteq> live h"
  then obtain c where c: "p = Some c" by (cases p) auto
  then have "registers_destroy (core_registers c) h = Some (h\<lparr>live := live h - registers_owned (core_registers c)\<rparr>)"
    using a by (intro registers.destroy_frees) auto
  then show "arm_destroy p h = Some (h\<lparr>live := live h - core_owned p\<rparr>)"
    using a c by (auto simp: arm_destroy_def free_block_def simp flip: Diff_insert)
next
  fix p h h' assume a: "arm_destroy p h = Some h'"
  then obtain c h1 where c: "p = Some c" "registers_destroy (core_registers c) h = Some h1" "free_block (Some (core_struct c)) h1 = Some h'"
    by (auto simp: arm_destroy_def bind_eq_Some_conv split: option.splits)
  have u: "registers_usable (core_registers c) \<and> registers_owned (core_registers c) \<subseteq> live h"
    by (rule registers.destroy_needs [OF c(2)])
  then have "h1 = h\<lparr>live := live h - registers_owned (core_registers c)\<rparr>" using registers.destroy_frees c(2) by simp
  with c u show "core_usable p \<and> core_owned p \<subseteq> live h" by (auto simp: free_block_def split: if_splits)
qed

subsection \<open>Sessions without a block\<close>

text \<open>An event that does not reach the data of the connection.\<close>

fun quiet :: "event \<Rightarrow> bool" where
  "quiet (Gdb t) \<longleftrightarrow> t = Ack \<or> t = Newline"
| "quiet (Irq irq) \<longleftrightarrow> True"

text \<open>gdb reads the byte at address 0.\<close>

definition reads_zero :: "event list \<Rightarrow> bool" where
  "reads_zero es \<longleftrightarrow> (\<exists>ad nd n. hex_text ad 0 \<and> hex_text nd n \<and> 0 < n \<and>
     Gdb (Packet (frame (''m'' @ ad @ '','' @ nd))) \<in> set es)"

lemma serve_null_pending: "len \<noteq> 0 \<Longrightarrow> serve_null es len s = None"
proof (induction es arbitrary: len s)
  case (Cons e es)
  then show ?case by (cases e) (auto simp: bind_eq_None_conv split: token.splits)
qed simp

lemma serve_null_quiet:
  "room 1 (trace s) \<Longrightarrow> (\<exists>u. serve_null es 0 s = Some u) \<longleftrightarrow> (\<forall>e\<in>set es. quiet e)"
proof (induction es arbitrary: s)
  case (Cons e es)
  show ?case
  proof (cases e)
    case (Gdb t)
    then show ?thesis using Cons by (auto simp: serve_null_pending split: token.splits)
  next
    case (Irq irq)
    obtain u where u: "irq_received irq s = Some u" "same_settings (trace s) (trace u)"
      using irq_reset [OF Cons.prems] irq_ignored [of irq s] same_settings_refl by (cases "irq = 1") blast+
    then have "room 1 (trace u)" using Cons.prems room_same by blast
    from Cons.IH [OF this] u(1) Irq show ?thesis by simp
  qed
qed simp

text \<open>Without interrupts the session is the one of the scanner.\<close>

lemma serve_tokens: "serve env be (map Gdb ts) d = yylex env be ts d"
  by (induction env be ts d rule: yylex.induct) (auto split: Option.bind_split scanning.split)

lemma serve_gdb_scanner: "serve env be (map Gdb (tokens input)) (scanner_init s block) = gdb_scanner env be s block input"
  by (simp add: serve_tokens gdb_scanner_def)

lemma serve_split:
  "serve env be (es @ es') d = Some (Scanning d') \<Longrightarrow>
    \<exists>env' d1. system_run be es d d1 \<and> serve env' be es' d1 = Some (Scanning d')"
proof (induction es arbitrary: env d)
  case (Cons e es)
  show ?case
  proof (cases e)
    case (Gdb t)
    with Cons.prems obtain d1 where d1: "token_action (fst (env 0)) (snd (env 0)) be t d = Some (Scanning d1)"
      "serve (\<lambda>n. env (Suc n)) be (es @ es') d1 = Some (Scanning d')"
      by (cases "token_action (fst (env 0)) (snd (env 0)) be t d") (auto split: scanning.split_asm)
    from Cons.IH [OF d1(2)] gdb_step [OF d1(1)] Gdb show ?thesis by (blast intro: run)
  next
    case (Irq irq)
    with Cons.prems obtain s where s: "irq_received irq (target (gdb d)) = Some s"
      "serve env be (es @ es') (d\<lparr>gdb := (gdb d)\<lparr>target := s\<rparr>\<rparr>) = Some (Scanning d')"
      by (auto simp: bind_eq_Some_conv)
    from Cons.IH [OF s(2)] irq_step [OF s(1)] Irq show ?thesis by (blast intro: run)
  qed
qed (auto intro: idle)

text \<open>In a memory without a block every read of address 0 follows the null pointer.\<close>

lemma read_zero_undefined:
  assumes "hex_text ad 0" "hex_text nd n" "0 < n" "mem_size (memo (target (gdb d))) = 0"
  shows "token_action ks k be (Packet (frame (''m'' @ ad @ '','' @ nd))) d = None"
proof -
  let ?g = "gdb_send_ack (gdb (handle_error d))"
  have size: "mem_size (memo (target ?g)) = 0"
    using kept_trans [OF kept_handle_error [of d] kept_transmit(2)] assms(4) by (auto simp: kept_def shape_def)
  have "read_memory_loop (memo (target ?g)) n (of_nat 0) v w g = None" for v w g
    using assms(3) by (intro read_memory_loop_end) (simp_all add: size)
  then have "read_memory k (ad @ '','' @ nd @ NUL # fmt_02x (checksum (''m'' @ ad @ '','' @ nd)) @ [NUL]) ?g = None"
    unfolding read_memory_parse [OF assms(1,2)] by simp
  moreover have "map_of handler_table (CHR ''m'') = Some Read_memory" by code_simp
  ultimately have "command ks k be (''m'' @ ad @ '','' @ nd) (gdb (handle_error d)) = None"
    by (simp add: command_def run_handler_def)
  then show ?thesis using analysis_command [of "''m'' @ ad @ '','' @ nd"] by (simp add: token_action_def Let_def)
qed

lemma serve_reads_zero:
  assumes "reads_zero es" "mem_size (memo s) = 0" "room 2 (trace s)" "enabled (trace s)"
  shows "serve env be es (scanner_init s block) \<noteq> Some (Scanning d)"
proof
  assume s: "serve env be es (scanner_init s block) = Some (Scanning d)"
  obtain ad nd n es1 es2 where e: "hex_text ad 0" "hex_text nd n" "0 < n"
    "es = es1 @ Gdb (Packet (frame (''m'' @ ad @ '','' @ nd))) # es2"
    using assms(1) unfolding reads_zero_def by (meson split_list)
  from serve_split [OF s [unfolded e(4)]] obtain env' d1 where d1: "system_run be es1 (scanner_init s block) d1"
    "serve env' be (Gdb (Packet (frame (''m'' @ ad @ '','' @ nd))) # es2) d1 = Some (Scanning d)" by blast
  from system_run_ok [OF d1(1) system_ok_init assms(3,4)] have "mem_size (memo (target (gdb d1))) = 0"
    using assms(2) by (simp add: system_ok_def shape_def)
  from read_zero_undefined [OF e(1-3) this] d1(2) show False by simp
qed

subsection \<open>Properties\<close>

text \<open>The machine that is created, with and without the block of the memory.\<close>

lemma blocks_machine_state:
  assumes "main_options fopen_error program opts options_initial = Some (Value cfg)"
  shows "\<exists>s. blocks_machine be cfg fb mb = Some s \<and> same_settings (tracing cfg) (trace s) \<and> room 2 (trace s) \<and> enabled (trace s) \<and>
    arm s = \<lparr>cycle_count = 0, reg = \<lparr>r_data = (found_registers fb)(16 := 0x1d3)\<rparr>,
      mem = memory_create (map_option (\<lambda>_. found_bytes fb) (memory_address mb)) 0x20000 (if be then 1 else 0)\<rparr>"
proof -
  obtain f where f: "tracing cfg = trace_initial\<lparr>trace_flags := f\<rparr>"
    using main_options_tracing [OF assms] by (auto simp: options_initial_def)
  then have r: "room 1 (tracing cfg)" "room 2 (tracing cfg)" "enabled (tracing cfg)" by (simp_all add: room_def trace_initial_def)
  from arm_create_state [OF r(1)] obtain s where s:
    "arm_create (memory_create (map_option (\<lambda>_. found_bytes fb) (memory_address mb)) 0x20000 (if be then 1 else 0))
      (found_registers fb) (found_cycles fb) (tracing cfg) [] = Some s" "same_settings (tracing cfg) (trace s)"
    "arm s = \<lparr>cycle_count = 0, reg = \<lparr>r_data = (found_registers fb)(16 := 0x1d3)\<rparr>,
      mem = memory_create (map_option (\<lambda>_. found_bytes fb) (memory_address mb)) 0x20000 (if be then 1 else 0)\<rparr>" by blast
  moreover from s(2) r have "room 2 (trace s) \<and> enabled (trace s)" by (metis room_same same_settings_def)
  ultimately show ?thesis by (auto simp: blocks_machine_def main_create_def map_option_case)
qed

lemma gdb_scanner_blocks_eq:
  "gdb_scanner_blocks env be block es s h =
    (if if fst (malloc h) = None then \<exists>u. serve_null es 0 s = Some u
        else \<exists>d. serve env be es (scanner_init s block) = Some (Scanning d)
     then Some (snd (malloc h)) else None)"
  by (cases "malloc h"; cases "serve_null es 0 s")
    (auto simp: gdb_scanner_blocks_def split: option.split scanning.split)

text \<open>The three owners are created and destroyed in the order of a stack, with the data of gdb in between.\<close>

lemma main_blocks_live:
  assumes "wf_heap h" "main_blocks env be cfg fb es h = Some h'"
  shows "\<exists>p. live h' = live h \<union> set_option p \<and> set_option p \<inter> live h = {}"
proof -
  obtain m h1 c h2 s h3 h4 where r: "memory_create_blocks h = Some (m, h1)" "arm_create_blocks h1 = Some (c, h2)"
    "gdb_scanner_blocks env be (found_packet fb) es s h2 = Some h3" "arm_destroy c h3 = Some h4" "memory_destroy m h4 = Some h'"
    using assms(2) by (auto simp: main_blocks_def bind_eq_Some_conv split: option.splits)
  note m = memory.create_owns [OF assms(1) r(1)] memory_create_blocks_usable [OF assms(1) r(1)]
  then have w1: "wf_heap h1" by simp
  note c = core.create_owns [OF w1 r(2)]
  obtain p where p: "malloc h2 = (p, h3)" using r(3) by (cases "malloc h2") (auto simp: gdb_scanner_blocks_eq split: if_splits)
  note n = malloc_owns [OF _ p]
  have "core_usable c" using core.destroy_needs [OF r(4)] by simp
  from core.create_destroy [OF w1 r(2) this, of h3 "set_option p"] n c r(4) have "live h4 = live h1 \<union> set_option p" by auto
  from memory.create_destroy [OF assms(1) r(1) m(2) this] n c m(1) r(5) show ?thesis by auto
qed

text \<open>Which allocations succeed: the structure and the block of the memory, the processor, the structure and the block
  of the registers, the data of the connection.\<close>

lemma main_blocks_defined:
  assumes "outcomes h = [b1, b2, b3, b4, b5, b6]" "wf_heap h"
    and "main_options fopen_error program opts options_initial = Some (Value cfg)"
    and "blocks_machine be cfg fb \<lparr>memory_struct = fresh h, memory_address = if b2 then Some (fresh h + 1) else None\<rparr> = Some s"
  shows "(\<exists>h'. main_blocks env be cfg fb es h = Some h') \<longleftrightarrow> b1 \<and> b3 \<and> b4 \<and> b5 \<and>
    (if b6 then \<exists>d. serve env be es (scanner_init s (found_packet fb)) = Some (Scanning d)
     else \<exists>u. serve_null es 0 s = Some u)"
proof -
  have "fresh h \<notin> live h" using assms(2) by (auto simp: wf_heap_def)
  with assms(1,4) show ?thesis
    by (cases b1; cases b2; cases b3; cases b4; cases b5; cases b6)
      (auto simp: main_blocks_def memory_create_blocks_def arm_create_blocks_def registers_create_blocks_def
        gdb_scanner_blocks_eq arm_destroy_def registers_destroy_def memory_destroy_def malloc_def free_block_def)
qed

text \<open>C37: the program releases what the simulated machine has allocated, each block once: a run of \<open>main\<close> that ends has
  freed the memory, the registers and the processor, and at most one block, the data of the connection of gdb, is
  left to the end of the process.  Once gdb is connected it ends exactly when no allocation fails but that of the memory block or
  that of the connection, and the session ends: without the data of the connection, when gdb sends nothing but
  acknowledgements and newlines; with them, when no command meets an access without a block, ends the process or
  runs for ever.  Without the block of the memory no session in which gdb reads address 0 ends.\<close>

theorem main_releases:
  assumes "wf_heap h" "outcomes h = [b1, b2, b3, b4, b5, b6]"
    and "main_options fopen_error program opts options_initial = Some (Value cfg)"
  shows "\<exists>s. same_settings (tracing cfg) (trace s) \<and> arm s = \<lparr>cycle_count = 0, reg = \<lparr>r_data = (found_registers fb)(16 := 0x1d3)\<rparr>,
      mem = \<lparr>mem_be = (if be then 1 else 0), mem_bytes = (if b2 then found_bytes fb else (\<lambda>_. 0)),
        mem_size = (if b2 then 0x20000 else 0)\<rparr>\<rparr> \<and>
    ((\<exists>h'. main_blocks env be cfg fb es h = Some h') \<longleftrightarrow> b1 \<and> b3 \<and> b4 \<and> b5 \<and>
      (if b6 then \<exists>d. serve env be es (scanner_init s (found_packet fb)) = Some (Scanning d) else \<forall>e\<in>set es. quiet e)) \<and>
    (\<not> b2 \<and> reads_zero es \<longrightarrow> main_blocks env be cfg fb es h = None) \<and>
    (\<forall>h'. main_blocks env be cfg fb es h = Some h' \<longrightarrow> (\<exists>p. live h' = live h \<union> set_option p \<and> set_option p \<inter> live h = {}))"
proof -
  let ?m = "\<lparr>memory_struct = fresh h, memory_address = if b2 then Some (fresh h + 1) else None\<rparr>"
  obtain s where s: "blocks_machine be cfg fb ?m = Some s" "room 2 (trace s)" "enabled (trace s)" "same_settings (tracing cfg) (trace s)"
    "arm s = \<lparr>cycle_count = 0, reg = \<lparr>r_data = (found_registers fb)(16 := 0x1d3)\<rparr>,
      mem = memory_create (map_option (\<lambda>_. found_bytes fb) (memory_address ?m)) 0x20000 (if be then 1 else 0)\<rparr>"
    using blocks_machine_state [OF assms(3), of be fb ?m] by blast
  have "room 1 (trace s)" using s(2) by (simp add: room_def)
  note d = main_blocks_defined [OF assms(2,1,3) s(1), of env es, unfolded serve_null_quiet [OF this]]
  have "\<not> quiet (Gdb (Packet p))" for p by simp
  then have "reads_zero es \<Longrightarrow> \<not> (\<forall>e\<in>set es. quiet e)" unfolding reads_zero_def by blast
  moreover have "mem_size (memo s) = 0" if "\<not> b2" using s(5) that by (simp add: memory_create_def)
  ultimately have "main_blocks env be cfg fb es h = None" if "\<not> b2" "reads_zero es"
    using d serve_reads_zero [OF that(2) _ s(2,3), of env be "found_packet fb"] that
    by (cases "main_blocks env be cfg fb es h") (auto split: if_splits)
  then show ?thesis using s(4,5) d main_blocks_live [OF assms(1), of env be cfg fb es]
    by (intro exI [of _ s]) (simp add: memory_create_def)
qed

text \<open>gdb sends \<open>+\<close>, without the block of the memory; then it also reads address 0; then the registers cannot be allocated;
  then gdb sends \<open>-\<close> without the data of the connection.\<close>

theorem main_releases_witness:
  "(\<exists>h'. main_blocks (\<lambda>_. ([], host)) False options_initial \<lparr>found_bytes = \<lambda>_. 0, found_registers = \<lambda>_. 0, found_cycles = 0, found_packet = \<lambda>_. NUL\<rparr>
      [Gdb Ack, Irq 1] \<lparr>live = {0}, fresh = 1, outcomes = [True, False, True, True, True, True]\<rparr> = Some h' \<and> (\<exists>p. live h' = insert 0 (set_option p))) \<and>
   main_blocks (\<lambda>_. ([], host)) False options_initial \<lparr>found_bytes = \<lambda>_. 0, found_registers = \<lambda>_. 0, found_cycles = 0, found_packet = \<lambda>_. NUL\<rparr>
      [Gdb Ack, Gdb (Packet ''$m0,1#fa'')] \<lparr>live = {0}, fresh = 1, outcomes = [True, False, True, True, True, True]\<rparr> = None \<and>
   main_blocks (\<lambda>_. ([], host)) False options_initial \<lparr>found_bytes = \<lambda>_. 0, found_registers = \<lambda>_. 0, found_cycles = 0, found_packet = \<lambda>_. NUL\<rparr>
      [Gdb Ack] \<lparr>live = {0}, fresh = 1, outcomes = [True, True, True, True, False, True]\<rparr> = None \<and>
   main_blocks (\<lambda>_. ([], host)) False options_initial \<lparr>found_bytes = \<lambda>_. 0, found_registers = \<lambda>_. 0, found_cycles = 0, found_packet = \<lambda>_. NUL\<rparr>
      [Gdb Retransmission] \<lparr>live = {0}, fresh = 1, outcomes = [True, True, True, True, True, False]\<rparr> = None"
proof -
  let ?fb = "\<lparr>found_bytes = \<lambda>_. 0, found_registers = \<lambda>_. 0, found_cycles = 0, found_packet = \<lambda>_. NUL\<rparr>"
  let ?h = "\<lambda>bs. \<lparr>live = {0}, fresh = 1, outcomes = bs\<rparr>"
  let ?main = "\<lambda>es bs. main_blocks (\<lambda>_. ([], host)) False options_initial ?fb es (?h bs)"
  have w: "wf_heap (?h bs)" for bs by (simp add: wf_heap_def)
  have o: "main_options (\<lambda>_. None) ''arm_simulator'' [] options_initial = Some (Value options_initial)" by simp
  have q: "outcomes (?h bs) = bs" for bs by simp
  note main = main_releases [OF w q o, of ?fb False _ "\<lambda>_. ([], host)"]
  have e: "\<exists>h'. ?main [Gdb Ack, Irq 1] [True, False, True, True, True, True] = Some h'"
  proof -
    obtain s where s: "same_settings trace_initial (trace s)" "(\<exists>h'. ?main [Gdb Ack, Irq 1] [True, False, True, True, True, True] = Some h') \<longleftrightarrow>
        (\<exists>d. serve (\<lambda>_. ([], host)) False [Gdb Ack, Irq 1] (scanner_init s (\<lambda>_. NUL)) = Some (Scanning d))"
      using main [of False "[Gdb Ack, Irq 1]" True True True True True]
      by (auto simp: options_initial_def)
    have "room 1 (trace s)" using room_same [OF s(1), of 1] by (simp add: room_def trace_initial_def)
    from irq_reset [OF this] obtain u where "irq_received 1 s = Some u" by blast
    then show ?thesis unfolding s(2)
      by (auto simp: token_action_def proceed_def handle_error_def scanner_init_def gdb_init_data_def)
  qed
  have "hex_text ''0'' 0" "hex_text ''1'' 1" by (simp_all add: hex_text_def digit_value_def number_def)
  moreover have "frame (''m'' @ ''0'' @ '','' @ ''1'') = ''$m0,1#fa''" by code_simp
  ultimately have z: "reads_zero [Gdb Ack, Gdb (Packet ''$m0,1#fa'')]"
    unfolding reads_zero_def by (intro exI [of _ "''0''"] exI [of _ "''1''"] exI [of _ 1]) simp
  have "?main [Gdb Ack, Gdb (Packet ''$m0,1#fa'')] [True, False, True, True, True, True] = None"
    using main [of False "[Gdb Ack, Gdb (Packet ''$m0,1#fa'')]" True True True True True] z
    by blast
  moreover have "?main [Gdb Ack] [True, True, True, True, False, True] = None"
    using main [of True "[Gdb Ack]" True True True False True] by auto
  moreover have "?main [Gdb Retransmission] [True, True, True, True, True, False] = None"
    using main [of True "[Gdb Retransmission]" True True True True False] by auto
  moreover have "\<exists>p. live h' = insert 0 (set_option p)" if "?main [Gdb Ack, Irq 1] [True, False, True, True, True, True] = Some h'" for h'
    using main [of False "[Gdb Ack, Irq 1]" True True True True True] that by auto
  ultimately show ?thesis using e by blast
qed

end
