(* ===== verification/Trace_Format.thy ===== *)
theory Trace_Format
  imports Trace
begin

text \<open>
  The other configuration of \<open>trace.c\<close>, with \<open>ARM_TRACE_FORMAT\<close> defined: the tables and the two functions whose text
  changes.  It prints one line per access, without locations, and marks sequential memory accesses.
\<close>

subsection \<open>Operations\<close>

definition arm_format_seq :: "string list" where
  "arm_format_seq = [''N'', ''S'']"

definition arm_format_cause :: "string list" where
  "arm_format_cause = [''_'', ''O'']"

definition arm_format_memory_type :: "string list" where
  "arm_format_memory_type = [''W'', ''R'']"

definition arm_format_register_type :: "string list" where
  "arm_format_register_type = [''W'', ''R'']"

definition arm_format_trace_memory :: "u32 \<Rightarrow> u8 \<Rightarrow> u8 \<Rightarrow> u8 \<Rightarrow> u32 \<Rightarrow> u32 \<Rightarrow> trace_state \<Rightarrow> trace_state option" where
  "arm_format_trace_memory cycle type sz cause addr value t =
     (if enabled t \<and> trace_flags t AND MEMORY \<noteq> 0 then
        let seq = (if addr = last_address t + 4 then 1 else 0 :: nat);
            t = t\<lparr>last_address := addr\<rparr> in do {
          seq_text \<leftarrow> table_at arm_format_seq seq;
          type_text \<leftarrow> table_at arm_format_memory_type (unat type);
          cause_text \<leftarrow> table_at arm_format_cause (unat cause);
          Some (fprintf (''M'' @ seq_text @ type_text @ fmt_d (uint sz) @ cause_text @ ''__ '' @ fmt_08X addr @ '' '' @
            fmt_08X value @ [CHR 0x0A]) t)
        }
      else Some t)"

definition arm_format_trace_register :: "u32 \<Rightarrow> u8 \<Rightarrow> u8 \<Rightarrow> u8 \<Rightarrow> u32 \<Rightarrow> trace_state \<Rightarrow> trace_state option" where
  "arm_format_trace_register cycle type r mode value t =
     (if enabled t \<and> trace_flags t AND REGISTERS \<noteq> 0 then do {
        name \<leftarrow> arm_get_mode_name mode;
        let mode_name = (case name of None \<Rightarrow> [] | Some n \<Rightarrow> ''_'' @ n);
        type_text \<leftarrow> table_at arm_format_register_type (unat type);
        register_text \<leftarrow> arm_get_register_name r;
        Some (fprintf (''R'' @ type_text @ '' '' @ register_text @ mode_name @ '' '' @ fmt_08X value @ [CHR 0x0A]) t)
      } else Some t)"

subsection \<open>The lines of a sequence of accesses\<close>

record memory_access =
  acc_cycle :: u32
  acc_type :: u8
  acc_size :: u8
  acc_cause :: u8
  acc_address :: u32
  acc_value :: u32

type_synonym memory_tracer = "u32 \<Rightarrow> u8 \<Rightarrow> u8 \<Rightarrow> u8 \<Rightarrow> u32 \<Rightarrow> u32 \<Rightarrow> trace_state \<Rightarrow> trace_state option"

fun trace_accesses :: "memory_tracer \<Rightarrow> memory_access list \<Rightarrow> trace_state \<Rightarrow> trace_state option" where
  "trace_accesses f [] t = Some t"
| "trace_accesses f (a # as) t = do {
     t \<leftarrow> f (acc_cycle a) (acc_type a) (acc_size a) (acc_cause a) (acc_address a) (acc_value a) t;
     trace_accesses f as t
   }"

definition access_valid :: "memory_access \<Rightarrow> bool" where
  "access_valid a \<longleftrightarrow> acc_type a < 2 \<and> acc_cause a < 2"

text \<open>The line of one access after an access at \<open>prev\<close>.\<close>

definition arm_format_line :: "u32 \<Rightarrow> memory_access \<Rightarrow> string" where
  "arm_format_line prev a = ''M'' @ (if acc_address a = prev + 4 then ''S'' else ''N'') @ (if acc_type a = 0 then ''W'' else ''R'') @
     fmt_d (uint (acc_size a)) @ (if acc_cause a = 0 then ''_'' else ''O'') @ ''__ '' @ fmt_08X (acc_address a) @ '' '' @
     fmt_08X (acc_value a) @ [CHR 0x0A]"

fun arm_format_lines :: "u32 \<Rightarrow> memory_access list \<Rightarrow> string list" where
  "arm_format_lines prev [] = []"
| "arm_format_lines prev (a # as) = arm_format_line prev a # arm_format_lines (acc_address a) as"

lemma below_2: "(w :: u8) < 2 \<Longrightarrow> w = 0 \<or> w = 1"
  by (auto simp: word_less_nat_alt word_unat_eq_iff)

definition traces_memory :: "trace_state \<Rightarrow> bool" where
  "traces_memory t \<longleftrightarrow> enabled t \<and> trace_flags t AND MEMORY \<noteq> 0"

lemma traces_memory_update [simp]:
  "traces_memory (t\<lparr>trace_out := out\<rparr>) = traces_memory t" "traces_memory (t\<lparr>last_address := a\<rparr>) = traces_memory t"
  by (simp_all add: traces_memory_def)

lemma arm_format_memory_eq:
  assumes "access_valid a" "traces_memory t"
  shows "arm_format_trace_memory (acc_cycle a) (acc_type a) (acc_size a) (acc_cause a) (acc_address a) (acc_value a) t =
    Some (fprintf (arm_format_line (last_address t) a) (t\<lparr>last_address := acc_address a\<rparr>))"
  unfolding arm_format_trace_memory_def traces_memory_def [symmetric]
  using assms below_2 [of "acc_type a"] below_2 [of "acc_cause a"]
  by (auto simp: access_valid_def arm_format_line_def arm_format_seq_def arm_format_memory_type_def
      arm_format_cause_def table_at_def Let_def)

lemma memory_off:
  assumes "\<not> traces_memory t"
  shows "arm_format_trace_memory cycle type sz cause addr value t = Some t" "trace_memory cycle type sz cause addr value t = Some t"
  unfolding arm_format_trace_memory_def trace_memory_def traces_memory_def [symmetric] using assms by simp_all

lemma trace_accesses_off:
  assumes "\<not> traces_memory t"
  shows "trace_accesses arm_format_trace_memory as t = Some t" "trace_accesses trace_memory as t = Some t"
  by (induction as) (simp_all add: memory_off [OF assms])

lemma arm_format_accesses:
  assumes "list_all access_valid as" "traces_memory t"
  shows "trace_accesses arm_format_trace_memory as t = Some (t\<lparr>trace_out := trace_out t @ arm_format_lines (last_address t) as,
      last_address := last (last_address t # map acc_address as)\<rparr>)"
  using assms
proof (induction as arbitrary: t)
  case (Cons a as)
  let ?t = "fprintf (arm_format_line (last_address t) a) (t\<lparr>last_address := acc_address a\<rparr>)"
  have "traces_memory ?t" using Cons.prems(2) by (simp add: fprintf_def)
  with Cons have "trace_accesses arm_format_trace_memory as ?t = Some (?t\<lparr>trace_out := trace_out ?t @ arm_format_lines (last_address ?t) as,
      last_address := last (last_address ?t # map acc_address as)\<rparr>)"
    by (intro Cons.IH) simp_all
  with arm_format_memory_eq [of a t] Cons.prems show ?case by (auto simp: fprintf_def)
qed simp

text \<open>The text of the usual configuration leaves the same state.\<close>

lemma trace_print_location_effect:
  "location_stack_top t < 128 \<Longrightarrow> \<exists>out. trace_print_location t = Some (t\<lparr>trace_out := out\<rparr>)"
  by (cases t) (auto simp: trace_print_location_def fprintf_def)

lemma trace_memory_effect:
  assumes "access_valid a" "location_stack_top t < 128" "traces_memory t"
  shows "\<exists>out. trace_memory (acc_cycle a) (acc_type a) (acc_size a) (acc_cause a) (acc_address a) (acc_value a) t =
    Some (t\<lparr>trace_out := out, last_address := acc_address a\<rparr>)"
proof -
  obtain out where "trace_print_location (t\<lparr>last_address := acc_address a\<rparr>) = Some (t\<lparr>last_address := acc_address a, trace_out := out\<rparr>)"
    using trace_print_location_effect [of "t\<lparr>last_address := acc_address a\<rparr>"] assms(2) by auto
  moreover have "unat (acc_type a) < 2" "unat (acc_cause a) < 2" using assms(1) by (simp_all add: access_valid_def word_less_nat_alt)
  ultimately show ?thesis
    unfolding trace_memory_def traces_memory_def [symmetric] using assms(3)
    by (cases t) (auto simp: fprintf_def Let_def)
qed

lemma trace_accesses_effect:
  assumes "list_all access_valid as" "location_stack_top t < 128" "traces_memory t"
  shows "\<exists>out. trace_accesses trace_memory as t =
    Some (t\<lparr>trace_out := out, last_address := last (last_address t # map acc_address as)\<rparr>)"
  using assms
proof (induction as arbitrary: t)
  case Nil
  then show ?case by (auto intro!: exI [of _ "trace_out t"])
next
  case (Cons a as)
  obtain out where out: "trace_memory (acc_cycle a) (acc_type a) (acc_size a) (acc_cause a) (acc_address a) (acc_value a) t =
      Some (t\<lparr>trace_out := out, last_address := acc_address a\<rparr>)"
    using trace_memory_effect [of a t] Cons.prems by auto
  with Cons.IH [of "t\<lparr>trace_out := out, last_address := acc_address a\<rparr>"] Cons.prems show ?case by auto
qed

subsection \<open>Properties\<close>

text \<open>With \<open>ARM_TRACE_FORMAT\<close> a sequence of memory accesses is traced by exactly one line each, in which the mark \<open>S\<close>
  stands for an access 4 bytes after the preceding one and \<open>N\<close> for any other; nothing is printed while tracing
  is off.  The usual configuration leaves the same state but for the text.\<close>

theorem arm_format_trace:
  assumes "list_all access_valid as" "location_stack_top t < 128"
  shows "\<exists>t' u. trace_accesses arm_format_trace_memory as t = Some t' \<and> trace_accesses trace_memory as t = Some u \<and>
    trace_out t' = trace_out t @ (if enabled t \<and> trace_flags t AND MEMORY \<noteq> 0 then arm_format_lines (last_address t) as else []) \<and>
    u\<lparr>trace_out := trace_out t'\<rparr> = t'"
proof (cases "traces_memory t")
  case True
  then have on: "enabled t \<and> trace_flags t AND MEMORY \<noteq> 0" unfolding traces_memory_def .
  show ?thesis unfolding if_P [OF on]
    using arm_format_accesses [OF assms(1) True] trace_accesses_effect [OF assms True] by auto
next
  case False
  then have off: "\<not> (enabled t \<and> trace_flags t AND MEMORY \<noteq> 0)" unfolding traces_memory_def .
  then show ?thesis unfolding if_not_P [OF off] using trace_accesses_off [OF False, of as] by auto
qed

text \<open>Two fetches in sequence.\<close>

theorem arm_format_trace_witness:
  "\<exists>t'. trace_accesses arm_format_trace_memory
      [\<lparr>acc_cycle = 1, acc_type = 1, acc_size = 4, acc_cause = 1, acc_address = 0, acc_value = 0xE3A01005\<rparr>,
       \<lparr>acc_cycle = 2, acc_type = 1, acc_size = 4, acc_cause = 1, acc_address = 4, acc_value = 0xEF123456\<rparr>]
      (trace_add MEMORY trace_initial) = Some t' \<and>
    trace_out t' = [''MNR4O__ 00000000 E3A01005'' @ [CHR 0x0A], ''MSR4O__ 00000004 EF123456'' @ [CHR 0x0A]]"
proof -
  let ?as = "[\<lparr>acc_cycle = 1, acc_type = 1, acc_size = 4, acc_cause = 1, acc_address = 0, acc_value = 0xE3A01005\<rparr>,
       \<lparr>acc_cycle = 2, acc_type = 1, acc_size = 4, acc_cause = 1, acc_address = 4, acc_value = 0xEF123456\<rparr>]"
  have "list_all access_valid ?as" by (simp add: access_valid_def)
  moreover have "arm_format_lines 0x12345678 ?as =
      [''MNR4O__ 00000000 E3A01005'' @ [CHR 0x0A], ''MSR4O__ 00000004 EF123456'' @ [CHR 0x0A]]" by code_simp
  ultimately show ?thesis
    using arm_format_trace [of ?as "trace_add MEMORY trace_initial"] by (auto simp: trace_add_def trace_initial_def)
qed

end
