(* ===== verification/Irq_Listener.thy ===== *)
theory Irq_Listener
  imports Simulator
begin

text \<open>
  The thread of the interrupts, \<open>irq_listener\<close> of \<open>arm_simulator.c\<close>: its server and the loop over its connections, as
  one of the two threads of the interleaved system.
\<close>

subsection \<open>The thread\<close>

text \<open>The connections the thread accepts, one after the other; it waits for the next one when the list is used up.\<close>

fun irq_connections :: "(call \<times> irq_read list) list \<Rightarrow> machine \<Rightarrow> irq_loop option" where
  "irq_connections [] s = Some (Waiting s)"
| "irq_connections ((accept, rs) # cs) s = (case csapp_Accept accept of
      Exits status texts \<Rightarrow> Some (Failed texts)
    | Value connection \<Rightarrow> do {
        r \<leftarrow> irq_connection rs s;
        (case r of Closed s \<Rightarrow> irq_connections cs s | _ \<Rightarrow> Some r)
      })"

definition irq_listener ::
  "server_calls \<Rightarrow> (call \<times> irq_read list) list \<Rightarrow> options \<Rightarrow> machine \<Rightarrow> (string \<times> irq_loop option) outcome" where
  "irq_listener os connections cfg s =
     and_then (create_server os (irq_port cfg)) (\<lambda>server.
     let announced = ''Listening to irq connections on port '' @ fmt_d (uint (server_port server)) @ [LF] in
     Value (announced, irq_connections connections s))"

subsection \<open>What it delivers\<close>

text \<open>The interrupts a connection delivers before it is closed, and those of a sequence of connections.\<close>

fun delivered :: "irq_read list \<Rightarrow> u8 list" where
  "delivered (Irq_byte irq # rs) = irq # delivered rs"
| "delivered rs = []"

fun all_delivered :: "(call \<times> irq_read list) list \<Rightarrow> u8 list" where
  "all_delivered [] = []"
| "all_delivered ((accept, rs) # cs) = delivered rs @ (if Irq_closed \<in> set rs then all_delivered cs else [])"

abbreviation with_target :: "parser_data \<Rightarrow> machine \<Rightarrow> parser_data" where
  "with_target d s \<equiv> d\<lparr>gdb := (gdb d)\<lparr>target := s\<rparr>\<rparr>"

lemma with_target_step:
  "irq_received irq s = Some u \<Longrightarrow> system_step be (Irq irq) (with_target d s) (with_target d u)"
  using system_step.irq_step [of irq "with_target d s" u be] by simp

lemma system_run_append:
  "system_run be es d d' \<Longrightarrow> system_run be es' d' d'' \<Longrightarrow> system_run be (es @ es') d d''"
  by (induction rule: system_run.induct) (auto intro: system_run.run)

lemma irq_connection_run:
  assumes "irq_connection rs s = Some r" "r = Waiting u \<or> r = Closed u"
  shows "system_run be (map Irq (delivered rs)) (with_target d s) (with_target d u) \<and> (r = Closed u \<longleftrightarrow> Irq_closed \<in> set rs)"
  using assms
proof (induction rs s rule: irq_connection.induct)
  case (2 irq rs s)
  then obtain s' where s': "irq_received irq s = Some s'" "irq_connection rs s' = Some r"
    by (auto simp: bind_eq_Some_conv)
  with 2 show ?case using with_target_step [OF s'(1)] by (auto intro: system_run.run)
qed (auto split: outcome.splits)

lemma irq_connections_run:
  assumes "irq_connections cs s = Some (Waiting u)"
  shows "system_run be (map Irq (all_delivered cs)) (with_target d s) (with_target d u)"
  using assms
proof (induction cs s rule: irq_connections.induct)
  case (2 accept rs cs s)
  then obtain connection r where r: "csapp_Accept accept = Value connection" "irq_connection rs s = Some r"
    "(case r of Closed s \<Rightarrow> irq_connections cs s | _ \<Rightarrow> Some r) = Some (Waiting u)"
    by (auto simp: bind_eq_Some_conv split: outcome.splits)
  show ?case
  proof (cases r)
    case (Waiting w)
    with r irq_connection_run [OF r(2), of w be d] show ?thesis by auto
  next
    case (Closed w)
    with 2(1) [OF r(1,2) Closed] r have "system_run be (map Irq (all_delivered cs)) (with_target d w) (with_target d u)" by auto
    with irq_connection_run [OF r(2), of w be d] Closed show ?thesis by (auto intro: system_run_append)
  next
    case (Failed texts)
    with r show ?thesis by simp
  qed
qed simp

text \<open>C36: the thread of the interrupts is one of the runs of the system: on the connections it accepts it delivers exactly
  the interrupts sent before each is closed, each in one step.  It never leaves its loop: it is waiting or has
  ended the process with an error.\<close>

theorem irq_listener_is_run:
  assumes "irq_listener os cs cfg (target (gdb d)) = Value (announced, r)"
  shows "(\<forall>u. r = Some (Waiting u) \<longrightarrow> system_run be (map Irq (all_delivered cs)) d (with_target d u)) \<and>
    (\<forall>u. r \<noteq> Some (Closed u))"
proof -
  have r: "r = irq_connections cs (target (gdb d))"
    using assms by (cases "create_server os (irq_port cfg)") (auto simp: irq_listener_def Let_def)
  have "irq_connections cs s \<noteq> Some (Closed u)" for s u
    by (induction cs s rule: irq_connections.induct)
      (auto simp: bind_eq_Some_conv split: outcome.splits irq_loop.splits)
  moreover have "system_run be (map Irq (all_delivered cs)) d (with_target d u)"
    if "irq_connections cs (target (gdb d)) = Some (Waiting u)" for u
    using irq_connections_run [OF that, of be d] by simp
  ultimately show ?thesis unfolding r by simp
qed

text \<open>Two connections; the second is still open.\<close>

theorem irq_listener_is_run_witness:
  "system_run False [Irq 6, Irq 3] (scanner_init blank (\<lambda>_. NUL)) (scanner_init blank (\<lambda>_. NUL))"
proof -
  let ?os = "\<lparr>srv_socket = (3, []), srv_setsockopt = (0, []), srv_bind = (0, []), srv_getsockname = Some 4242, srv_listen = (0, [])\<rparr>"
  let ?cs = "[((4, []), [Irq_byte 6, Irq_closed]), ((5, []), [Irq_byte 3])]"
  let ?d = "scanner_init blank (\<lambda>_. NUL)"
  have t: "target (gdb ?d) = blank" by (simp add: scanner_init_def gdb_init_data_def)
  have "irq_connections ?cs blank = Some (Waiting blank)" by (simp add: irq_ignored csapp_Accept_def unix_error_def)
  then obtain announced where l: "irq_listener ?os ?cs options_initial (target (gdb ?d)) = Value (announced, Some (Waiting blank))"
    by (simp add: t irq_listener_def create_server_def csapp_Socket_def csapp_Setsockopt_def csapp_Bind_def csapp_Listen_def
        unix_error_def Let_def)
  have "with_target ?d blank = ?d" by (simp add: scanner_init_def gdb_init_data_def)
  with irq_listener_is_run [OF l, of False] show ?thesis by simp
qed

end
