(* ===== verification/Command_Line.thy ===== *)
theory Command_Line
  imports Simulator "HOL-Library.Sublist"
begin

text \<open>
  The command line of \<open>arm_simulator.c\<close>: \<open>getopt_long\<close> of the C library with the tables of \<open>main\<close>, as its manual
  describes it (elements that are not options are skipped, \<open>POSIXLY_CORRECT\<close> is not set), and the grammar of the
  command lines it accepts.  Its own messages on the standard error are left out.
\<close>

subsection \<open>The options of \<open>main\<close>\<close>

datatype has_arg = No_argument | Required_argument

definition longopts :: "(string \<times> has_arg \<times> char) list" where
  "longopts =
    [(''gdb-port'', Required_argument, CHR ''g''),
     (''irq-port'', Required_argument, CHR ''i''),
     (''trace-file'', Required_argument, CHR ''t''),
     (''trace-registers'', No_argument, CHR ''r''),
     (''trace-memory'', No_argument, CHR ''m''),
     (''trace-state'', No_argument, CHR ''s''),
     (''trace-position'', No_argument, CHR ''p''),
     (''help'', No_argument, CHR ''h''),
     (''debug'', Required_argument, CHR ''d'')]"

definition optstring :: string where
  "optstring = ''g:i:ht:rmspd:''"

subsection \<open>\<open>getopt_long\<close>\<close>

text \<open>A character of \<open>optstring\<close> followed by a colon is an option with an argument.\<close>

fun short_option :: "string \<Rightarrow> char \<Rightarrow> has_arg option" where
  "short_option [] c = None"
| "short_option (opt # os) c =
     (if c = opt \<and> c \<noteq> CHR '':'' then Some (if os \<noteq> [] \<and> hd os = CHR '':'' then Required_argument else No_argument)
      else short_option os c)"

text \<open>A long option is given by its name or by the beginning of one name only.\<close>

definition long_option :: "string \<Rightarrow> (has_arg \<times> char) option" where
  "long_option name = (case map_of longopts name of
      Some r \<Rightarrow> Some r
    | None \<Rightarrow> (case filter (\<lambda>(n, _). prefix name n) longopts of [(_, r)] \<Rightarrow> Some r | _ \<Rightarrow> None))"

text \<open>The results of the calls on one element, and the elements left.  An argument is what follows in the element, or
  the next element whatever it is; \<open>?\<close> is the result for an error.\<close>

definition bad_option :: "char \<times> string" where
  "bad_option = (CHR ''?'', [])"

definition next_argument :: "char \<Rightarrow> string list \<Rightarrow> (char \<times> string) \<times> string list" where
  "next_argument c rest = (case rest of [] \<Rightarrow> (bad_option, []) | a # rest \<Rightarrow> ((c, a), rest))"

fun scan_short :: "string \<Rightarrow> string list \<Rightarrow> (char \<times> string) list \<times> string list" where
  "scan_short [] rest = ([], rest)"
| "scan_short (c # cs) rest = (case short_option optstring c of
      Some Required_argument \<Rightarrow>
        if cs \<noteq> [] then ([(c, cs)], rest) else (let (r, rest) = next_argument c rest in ([r], rest))
    | Some No_argument \<Rightarrow> (let (rs, rest) = scan_short cs rest in ((c, []) # rs, rest))
    | None \<Rightarrow> (let (rs, rest) = scan_short cs rest in (bad_option # rs, rest)))"

definition scan_long :: "string \<Rightarrow> string list \<Rightarrow> (char \<times> string) \<times> string list" where
  "scan_long element rest =
     (let name = takeWhile (\<lambda>c. c \<noteq> CHR ''='') element; given = drop (length name) element in
      case long_option name of
        None \<Rightarrow> (bad_option, rest)
      | Some (No_argument, c) \<Rightarrow> (if given = [] then (c, []) else bad_option, rest)
      | Some (Required_argument, c) \<Rightarrow> if given = [] then next_argument c rest else ((c, tl given), rest))"

text \<open>The element ends the options, is a long option, is a group of short options, or is no option.\<close>

definition is_long :: "string \<Rightarrow> bool" where
  "is_long a \<longleftrightarrow> prefix ''--'' a \<and> a \<noteq> ''--''"

definition is_short :: "string \<Rightarrow> bool" where
  "is_short a \<longleftrightarrow> prefix ''-'' a \<and> \<not> prefix ''--'' a \<and> a \<noteq> ''-''"

lemma next_argument_length: "length (snd (next_argument c rest)) \<le> length rest"
  by (simp add: next_argument_def split: list.split)

lemma scan_short_length: "length (snd (scan_short cs rest)) \<le> length rest"
  using next_argument_length [of _ rest]
  by (induction cs) (auto split: option.split has_arg.split prod.split, (metis snd_conv)+)

lemma scan_long_length: "length (snd (scan_long a rest)) \<le> length rest"
  by (auto simp: scan_long_def Let_def next_argument_length split: option.split has_arg.split)

function getopt_long :: "string list \<Rightarrow> (char \<times> string) list" where
  "getopt_long [] = []"
| "getopt_long (a # rest) =
     (if a = ''--'' then []
      else if is_long a then (let (r, rest) = scan_long (drop 2 a) rest in r # getopt_long rest)
      else if is_short a then (let (rs, rest) = scan_short (tl a) rest in rs @ getopt_long rest)
      else getopt_long rest)"
  by pat_completeness auto
termination
  by (relation "measure length")
    (auto simp: less_Suc_eq_le, metis scan_long_length snd_conv, metis scan_short_length snd_conv)


subsection \<open>Accepted command lines\<close>

text \<open>What an option asks for, by the usage message.\<close>

datatype setting =
    Gdb_port string
  | Irq_port string
  | Trace_file string
  | Trace_registers
  | Trace_memory
  | Trace_state
  | Trace_position
  | Help
  | Debug string

text \<open>The documented options: their long name, their letter and their meaning, without and with an argument.\<close>

definition switches :: "(string \<times> char \<times> setting) list" where
  "switches =
    [(''help'', CHR ''h'', Help),
     (''trace-registers'', CHR ''r'', Trace_registers),
     (''trace-memory'', CHR ''m'', Trace_memory),
     (''trace-state'', CHR ''s'', Trace_state),
     (''trace-position'', CHR ''p'', Trace_position)]"

definition parameters :: "(string \<times> char \<times> (string \<Rightarrow> setting)) list" where
  "parameters =
    [(''gdb-port'', CHR ''g'', Gdb_port),
     (''irq-port'', CHR ''i'', Irq_port),
     (''trace-file'', CHR ''t'', Trace_file),
     (''debug'', CHR ''d'', Debug)]"

definition switch :: "char \<Rightarrow> setting \<Rightarrow> bool" where
  "switch c x \<longleftrightarrow> (c, x) \<in> set (map snd switches)"

definition parameter :: "char \<Rightarrow> (string \<Rightarrow> setting) \<Rightarrow> bool" where
  "parameter c f \<longleftrightarrow> (\<exists>n. (n, c, f) \<in> set parameters)"

text \<open>A beginning of one long name only.\<close>

definition begins :: "string \<Rightarrow> string \<Rightarrow> bool" where
  "begins w n \<longleftrightarrow> prefix w n \<and> (\<forall>m\<in>set (map fst switches @ map fst parameters). prefix w m \<longrightarrow> m = n)"

definition long_switch :: "string \<Rightarrow> setting \<Rightarrow> bool" where
  "long_switch w x \<longleftrightarrow> (\<exists>n c. (n, c, x) \<in> set switches \<and> begins w n)"

definition long_parameter :: "string \<Rightarrow> (string \<Rightarrow> setting) \<Rightarrow> bool" where
  "long_parameter w f \<longleftrightarrow> (\<exists>n c. (n, c, f) \<in> set parameters \<and> begins w n)"

text \<open>The grammar: \<open>spells ws os\<close> when the elements \<open>ws\<close> ask for the settings \<open>os\<close> in this order.\<close>

inductive spells :: "string list \<Rightarrow> setting list \<Rightarrow> bool" where
  finished: "spells [] []"
| stop: "spells (''--'' # ws) []"
| operand: "\<not> prefix ''-'' a \<or> a = ''-'' \<Longrightarrow> spells ws os \<Longrightarrow> spells (a # ws) os"
| flags: "fs \<noteq> [] \<Longrightarrow> list_all2 switch fs xs \<Longrightarrow> spells ws os \<Longrightarrow> spells ((''-'' @ fs) # ws) (xs @ os)"
| attached: "list_all2 switch fs xs \<Longrightarrow> parameter c f \<Longrightarrow> a \<noteq> [] \<Longrightarrow> spells ws os \<Longrightarrow>
    spells ((''-'' @ fs @ c # a) # ws) (xs @ f a # os)"
| separate: "list_all2 switch fs xs \<Longrightarrow> parameter c f \<Longrightarrow> spells ws os \<Longrightarrow>
    spells ((''-'' @ fs @ [c]) # a # ws) (xs @ f a # os)"
| long_flag: "long_switch w x \<Longrightarrow> spells ws os \<Longrightarrow> spells ((''--'' @ w) # ws) (x # os)"
| long_attached: "long_parameter w f \<Longrightarrow> spells ws os \<Longrightarrow> spells ((''--'' @ w @ ''='' @ a) # ws) (f a # os)"
| long_separate: "long_parameter w f \<Longrightarrow> spells ws os \<Longrightarrow> spells ((''--'' @ w) # a # ws) (f a # os)"

text \<open>What the settings do, from the first to the last: \<^const>\<open>None\<close> when the program does not start with them, because
  its help is wanted, a trace file cannot be opened or the table of debugged files overflows.\<close>

fun configured :: "(string \<Rightarrow> string option) \<Rightarrow> setting list \<Rightarrow> options \<Rightarrow> options option" where
  "configured fopen_error [] cfg = Some cfg"
| "configured fopen_error (x # xs) cfg = (case x of
      Gdb_port a \<Rightarrow> configured fopen_error xs (cfg\<lparr>gdb_port := word_of_int (atoi a)\<rparr>)
    | Irq_port a \<Rightarrow> configured fopen_error xs (cfg\<lparr>irq_port := word_of_int (atoi a)\<rparr>)
    | Trace_file name \<Rightarrow> if fopen_error name = None then configured fopen_error xs (cfg\<lparr>trace_file := Some name\<rparr>) else None
    | Trace_registers \<Rightarrow> configured fopen_error xs (cfg\<lparr>tracing := trace_add REGISTERS (tracing cfg)\<rparr>)
    | Trace_memory \<Rightarrow> configured fopen_error xs (cfg\<lparr>tracing := trace_add MEMORY (tracing cfg)\<rparr>)
    | Trace_state \<Rightarrow> configured fopen_error xs (cfg\<lparr>tracing := trace_add STATE (tracing cfg)\<rparr>)
    | Trace_position \<Rightarrow> configured fopen_error xs (cfg\<lparr>tracing := trace_add POSITION (tracing cfg)\<rparr>)
    | Help \<Rightarrow> None
    | Debug name \<Rightarrow> (case add_debug_to name (debugging cfg) of
          None \<Rightarrow> None
        | Some d \<Rightarrow> configured fopen_error xs (cfg\<lparr>debugging := d\<rparr>)))"

subsection \<open>The tables\<close>

text \<open>The result of \<open>getopt_long\<close> for a setting.\<close>

primrec opt_of :: "setting \<Rightarrow> char \<times> string" where
  "opt_of (Gdb_port a) = (CHR ''g'', a)"
| "opt_of (Irq_port a) = (CHR ''i'', a)"
| "opt_of (Trace_file a) = (CHR ''t'', a)"
| "opt_of Trace_registers = (CHR ''r'', [])"
| "opt_of Trace_memory = (CHR ''m'', [])"
| "opt_of Trace_state = (CHR ''s'', [])"
| "opt_of Trace_position = (CHR ''p'', [])"
| "opt_of Help = (CHR ''h'', [])"
| "opt_of (Debug a) = (CHR ''d'', a)"

lemma opt_of_inject: "opt_of x = opt_of y \<Longrightarrow> x = y"
  by (cases x; cases y) simp_all

lemma opt_of_not_bad: "CHR ''?'' \<notin> fst ` set (map opt_of xs)"
proof -
  have "fst (opt_of x) \<noteq> CHR ''?''" for x by (cases x) simp_all
  then show ?thesis by (auto dest: sym)
qed

definition flag :: "char \<Rightarrow> bool" where
  "flag c \<longleftrightarrow> c \<in> set ''hrmsp''"

definition valued :: "char \<Rightarrow> bool" where
  "valued c \<longleftrightarrow> c \<in> set ''gitd''"

lemma switch_flag: "switch c x \<longleftrightarrow> flag c \<and> opt_of x = (c, [])"
  by (cases x) (auto simp: switch_def switches_def flag_def)

lemma parameter_valued: "parameter c f \<Longrightarrow> valued c \<and> opt_of (f a) = (c, a)"
  by (auto simp: parameter_def parameters_def valued_def)

lemma flag_switch: "flag c \<Longrightarrow> \<exists>x. switch c x"
  by (auto simp: switch_def switches_def flag_def)

lemma parameter_iff:
  "parameter c f \<longleftrightarrow> c = CHR ''g'' \<and> f = Gdb_port \<or> c = CHR ''i'' \<and> f = Irq_port \<or> c = CHR ''t'' \<and> f = Trace_file \<or>
    c = CHR ''d'' \<and> f = Debug"
  by (simp add: parameter_def parameters_def ex_disj_distrib)

lemma valued_parameter: "valued c \<Longrightarrow> \<exists>f. parameter c f"
  unfolding parameter_iff valued_def by (simp only: list.set insert_iff empty_iff) blast

lemma short_option_flag: "short_option optstring c = Some No_argument \<longleftrightarrow> flag c"
  by (simp add: optstring_def flag_def)

lemma short_option_valued: "short_option optstring c = Some Required_argument \<longleftrightarrow> valued c"
  by (simp add: optstring_def valued_def)

abbreviation flags_given :: "string \<Rightarrow> (char \<times> string) list" where
  "flags_given fs \<equiv> map (\<lambda>c. (c, [])) fs"

lemma switches_flags: "list_all2 switch fs xs \<longleftrightarrow> list_all flag fs \<and> map opt_of xs = flags_given fs"
  by (induction fs xs rule: list_induct2') (auto simp: switch_flag)

lemma flags_switches: "list_all flag fs \<Longrightarrow> \<exists>xs. list_all2 switch fs xs"
  using flag_switch by (induction fs) (auto simp: list_all2_Cons1)

text \<open>The rows of \<open>longopts\<close> that a word begins.\<close>

definition abbreviates :: "string \<Rightarrow> has_arg \<times> char \<Rightarrow> bool" where
  "abbreviates w r \<longleftrightarrow> (\<exists>n. (n, r) \<in> set longopts \<and> prefix w n \<and> (\<forall>x\<in>set longopts. prefix w (fst x) \<longrightarrow> x = (n, r)))"

lemma longopts_names: "set (map fst switches @ map fst parameters) = fst ` set longopts"
  by code_simp

lemma longopts_rows:
  "(n, c, x) \<in> set switches \<Longrightarrow> (n, No_argument, c) \<in> set longopts \<and> opt_of x = (c, [])"
  "(n, c, f) \<in> set parameters \<Longrightarrow> (n, Required_argument, c) \<in> set longopts \<and> opt_of (f a) = (c, a)"
  "(n, No_argument, c) \<in> set longopts \<Longrightarrow> \<exists>x. (n, c, x) \<in> set switches"
  "(n, Required_argument, c) \<in> set longopts \<Longrightarrow> \<exists>f. (n, c, f) \<in> set parameters"
proof -
  show "(n, c, x) \<in> set switches \<Longrightarrow> (n, No_argument, c) \<in> set longopts \<and> opt_of x = (c, [])"
    "(n, c, f) \<in> set parameters \<Longrightarrow> (n, Required_argument, c) \<in> set longopts \<and> opt_of (f a) = (c, a)"
    by (auto simp: switches_def parameters_def longopts_def)
  have "list_all (\<lambda>(n, k, c). (k = No_argument \<longrightarrow> (\<exists>x. (n, c, x) \<in> set switches)) \<and>
      (k = Required_argument \<longrightarrow> (\<exists>f. (n, c, f) \<in> set parameters))) longopts"
    by (simp add: longopts_def switches_def parameters_def)
  then show "(n, No_argument, c) \<in> set longopts \<Longrightarrow> \<exists>x. (n, c, x) \<in> set switches"
    "(n, Required_argument, c) \<in> set longopts \<Longrightarrow> \<exists>f. (n, c, f) \<in> set parameters"
    by (auto simp: list_all_iff)
qed

lemma filter_one: "filter P xs = [x] \<Longrightarrow> x \<in> set xs \<and> P x \<and> (\<forall>y\<in>set xs. P y \<longrightarrow> y = x)"
proof -
  assume "filter P xs = [x]"
  then have "set (filter P xs) = {x}" by simp
  then show ?thesis by auto
qed

lemma one_element: "distinct ys \<Longrightarrow> set ys = {x} \<Longrightarrow> ys = [x]"
proof (cases ys)
  case (Cons a zs)
  assume "distinct ys" "set ys = {x}"
  with Cons have "a = x" "x \<notin> set zs" "set zs \<subseteq> {x}" by auto
  then have "set zs = {}" by (auto dest: subset_singletonD)
  with Cons \<open>a = x\<close> show ?thesis by simp
qed simp

lemma one_filter:
  assumes "distinct xs" "x \<in> set xs" "P x" "\<forall>y\<in>set xs. P y \<longrightarrow> y = x"
  shows "filter P xs = [x]"
proof (rule one_element)
  show "distinct (filter P xs)" using assms(1) by simp
  show "set (filter P xs) = {x}" unfolding set_filter using assms(2-4) by blast
qed

lemma distinct_longopts: "distinct (map fst longopts)" "distinct longopts"
  by (simp_all add: longopts_def)

lemma longopts_prefix: "x \<in> set longopts \<Longrightarrow> y \<in> set longopts \<Longrightarrow> prefix (fst x) (fst y) \<Longrightarrow> x = y"
proof -
  have "list_all (\<lambda>x. list_all (\<lambda>y. prefix (fst x) (fst y) \<longrightarrow> x = y) longopts) longopts" by (simp add: longopts_def)
  then show "x \<in> set longopts \<Longrightarrow> y \<in> set longopts \<Longrightarrow> prefix (fst x) (fst y) \<Longrightarrow> x = y"
    by (auto simp: list_all_iff)
qed

lemma begins_iff:
  assumes "(n, r) \<in> set longopts"
  shows "begins w n \<longleftrightarrow> prefix w n \<and> (\<forall>x\<in>set longopts. prefix w (fst x) \<longrightarrow> x = (n, r))"
proof -
  have "fst x = n \<longleftrightarrow> x = (n, r)" if "x \<in> set longopts" for x
    using that assms longopts_prefix [of x "(n, r)"] by auto
  then show ?thesis unfolding begins_def longopts_names by auto
qed

lemma long_switch_abbreviates: "long_switch w x \<longleftrightarrow> (\<exists>c. abbreviates w (No_argument, c) \<and> opt_of x = (c, []))"
proof
  show "long_switch w x \<Longrightarrow> \<exists>c. abbreviates w (No_argument, c) \<and> opt_of x = (c, [])"
    unfolding long_switch_def abbreviates_def using longopts_rows(1) begins_iff by blast
  assume "\<exists>c. abbreviates w (No_argument, c) \<and> opt_of x = (c, [])"
  then obtain c n where n: "opt_of x = (c, [])" "(n, No_argument, c) \<in> set longopts" "begins w n"
    unfolding abbreviates_def using begins_iff by blast
  from longopts_rows(3) [OF n(2)] obtain y where y: "(n, c, y) \<in> set switches" by blast
  then have "x = y" using longopts_rows(1) n(1) opt_of_inject [of x y] by auto
  then show "long_switch w x" using y n(3) unfolding long_switch_def by blast
qed

lemma long_parameter_abbreviates:
  "long_parameter w f \<Longrightarrow> \<exists>c. abbreviates w (Required_argument, c) \<and> (\<forall>a. opt_of (f a) = (c, a))"
  unfolding long_parameter_def abbreviates_def using longopts_rows(2) begins_iff by blast

lemma abbreviates_long_parameter:
  "abbreviates w (Required_argument, c) \<Longrightarrow> \<exists>f. long_parameter w f \<and> (\<forall>a. opt_of (f a) = (c, a))"
  unfolding long_parameter_def abbreviates_def using longopts_rows(2,4) begins_iff by meson

lemma abbreviates_long_switch: "abbreviates w (No_argument, c) \<Longrightarrow> \<exists>x. long_switch w x \<and> opt_of x = (c, [])"
  unfolding long_switch_def abbreviates_def using longopts_rows(1,3) begins_iff by meson

lemma long_option_iff: "long_option w = Some r \<longleftrightarrow> abbreviates w r"
proof (cases "map_of longopts w")
  case (Some q)
  then have q: "(w, q) \<in> set longopts" by (rule map_of_SomeD)
  then have "abbreviates w r \<longleftrightarrow> r = q" using longopts_prefix [of "(w, q)"] by (fastforce simp: abbreviates_def)
  then show ?thesis by (auto simp: long_option_def Some)
next
  case None
  have "long_option w = Some r \<longleftrightarrow> (\<exists>n. filter (\<lambda>(n, _). prefix w n) longopts = [(n, r)])"
    by (auto simp: long_option_def None split: list.split)
  also have "\<dots> \<longleftrightarrow> abbreviates w r"
    by (fastforce simp: abbreviates_def case_prod_beta dest: filter_one intro: one_filter [OF distinct_longopts(2)])
  finally show ?thesis .
qed

lemma abbreviates_name:
  assumes "abbreviates w r"
  shows "w \<noteq> []" "CHR ''='' \<notin> set w"
proof -
  obtain n where n: "(n, r) \<in> set longopts" "prefix w n" "\<forall>x\<in>set longopts. prefix w (fst x) \<longrightarrow> x = (n, r)"
    using assms by (auto simp: abbreviates_def)
  show "w \<noteq> []" using n(3) by (auto simp: longopts_def)
  have "CHR ''='' \<notin> set n" using n(1) by (auto simp: longopts_def)
  then show "CHR ''='' \<notin> set w" using n(2) by (meson set_mono_prefix subsetD)
qed

subsection \<open>The grammar and \<open>getopt_long\<close>\<close>

lemma letters: "flag c \<Longrightarrow> c \<noteq> CHR ''-''" "valued c \<Longrightarrow> c \<noteq> CHR ''-''"
  by (auto simp: flag_def valued_def)

lemma scan_short_flags:
  "list_all flag fs \<Longrightarrow> scan_short (fs @ cs) rest = (let (rs, rest) = scan_short cs rest in (flags_given fs @ rs, rest))"
  by (induction fs) (auto simp: short_option_flag [THEN iffD2] split: prod.splits)

lemma scan_short_valued:
  "valued c \<Longrightarrow> scan_short (c # a) rest =
     (if a \<noteq> [] then ([(c, a)], rest) else (let (r, rest) = next_argument c rest in ([r], rest)))"
  by (simp add: short_option_valued [THEN iffD2])

lemma scan_long_name:
  assumes "abbreviates w r"
  shows "scan_long w rest = (case r of (No_argument, c) \<Rightarrow> ((c, []), rest) | (Required_argument, c) \<Rightarrow> next_argument c rest)"
    and "scan_long (w @ CHR ''='' # a) rest = (case r of (No_argument, c) \<Rightarrow> (bad_option, rest) | (Required_argument, c) \<Rightarrow> ((c, a), rest))"
proof -
  have "\<forall>x\<in>set w. x \<noteq> CHR ''=''" using abbreviates_name(2) [OF assms] by blast
  then have t: "takeWhile (\<lambda>c. c \<noteq> CHR ''='') w = w" "takeWhile (\<lambda>c. c \<noteq> CHR ''='') (w @ CHR ''='' # a) = w"
    by (simp_all add: takeWhile_append2 takeWhile_eq_all_conv)
  have l: "long_option w = Some r" using assms by (simp add: long_option_iff)
  show "scan_long w rest = (case r of (No_argument, c) \<Rightarrow> ((c, []), rest) | (Required_argument, c) \<Rightarrow> next_argument c rest)"
    by (simp add: scan_long_def t l split: prod.split has_arg.split)
  show "scan_long (w @ CHR ''='' # a) rest = (case r of (No_argument, c) \<Rightarrow> (bad_option, rest) | (Required_argument, c) \<Rightarrow> ((c, a), rest))"
    by (simp add: scan_long_def t l split: prod.split has_arg.split)
qed

declare scan_short.simps(2) [simp del]

lemma is_short_Cons: "c \<noteq> CHR ''-'' \<Longrightarrow> is_short (CHR ''-'' # c # cs)"
  by (simp add: is_short_def)

lemma is_short_letters:
  "list_all flag fs \<Longrightarrow> fs \<noteq> [] \<Longrightarrow> is_short (CHR ''-'' # fs)"
  "list_all flag fs \<Longrightarrow> valued c \<Longrightarrow> is_short (CHR ''-'' # fs @ c # a)"
  using letters by (cases fs; auto intro!: is_short_Cons)+

lemma short_not_long: "is_short a \<Longrightarrow> a \<noteq> ''--'' \<and> \<not> is_long a"
  by (auto simp: is_short_def is_long_def)

lemma getopt_short: "is_short a \<Longrightarrow> getopt_long (a # rest) = (let (rs, rest) = scan_short (tl a) rest in rs @ getopt_long rest)"
  using short_not_long [of a] by simp

lemma getopt_long_name: "w \<noteq> [] \<Longrightarrow> getopt_long ((''--'' @ w) # rest) = (let (r, rest) = scan_long w rest in r # getopt_long rest)"
  by (simp add: is_long_def)

declare getopt_long.simps(2) [simp del]

lemma getopt_operand: "\<not> prefix ''-'' a \<or> a = ''-'' \<Longrightarrow> getopt_long (a # rest) = getopt_long rest"
  by (cases a) (auto simp: is_long_def is_short_def getopt_long.simps(2))

lemma spells_getopt: "spells ws os \<Longrightarrow> getopt_long ws = map opt_of os"
proof (induction rule: spells.induct)
  case stop
  show ?case by (simp add: getopt_long.simps(2))
next
  case (operand a ws os)
  then show ?case by (simp add: getopt_operand)
next
  case (flags fs xs ws os)
  then show ?case using scan_short_flags [of fs "[]" ws] by (simp add: switches_flags getopt_short is_short_letters)
next
  case (attached fs xs c f a ws os)
  then show ?case using parameter_valued [OF attached(2)]
    by (simp add: switches_flags getopt_short is_short_letters scan_short_flags scan_short_valued)
next
  case (separate fs xs c f ws os a)
  then show ?case using parameter_valued [OF separate(2)]
    by (simp add: switches_flags getopt_short is_short_letters scan_short_flags scan_short_valued next_argument_def)
next
  case (long_flag w x ws os)
  then obtain c where "abbreviates w (No_argument, c)" "opt_of x = (c, [])" using long_switch_abbreviates by blast
  with long_flag show ?case using getopt_long_name [OF abbreviates_name(1)] by (simp add: scan_long_name)
next
  case (long_attached w f ws os a)
  then obtain c where "abbreviates w (Required_argument, c)" "opt_of (f a) = (c, a)" using long_parameter_abbreviates by blast
  with long_attached show ?case using getopt_long_name [of "w @ CHR ''='' # a" ws] by (simp add: scan_long_name)
next
  case (long_separate w f ws os a)
  then obtain c where "abbreviates w (Required_argument, c)" "opt_of (f a) = (c, a)" using long_parameter_abbreviates by blast
  with long_separate show ?case using getopt_long_name [OF abbreviates_name(1)] by (simp add: scan_long_name next_argument_def)
qed simp

lemma scan_short_spells:
  assumes "scan_short cs rest = (rs, rest')" "CHR ''?'' \<notin> fst ` set rs" "spells rest' os" "list_all2 switch fs xs" "fs @ cs \<noteq> []"
  shows "\<exists>ys. rs = map opt_of ys \<and> spells ((''-'' @ fs @ cs) # rest) (xs @ ys @ os)"
  using assms
proof (induction cs arbitrary: fs xs rs)
  case Nil
  then show ?case using spells.flags [of fs xs rest os] by simp
next
  case (Cons c cs)
  consider (bad) "short_option optstring c = None" | (flag) "flag c" | (valued) "valued c"
    by (metis has_arg.exhaust not_None_eq short_option_flag short_option_valued)
  then show ?case
  proof cases
    case bad
    then show ?thesis using Cons.prems(1,2) by (auto simp: scan_short.simps(2) bad_option_def split: prod.splits)
  next
    case flag
    then obtain rs' where r: "scan_short cs rest = (rs', rest')" "rs = (c, []) # rs'"
      using Cons.prems(1) by (auto simp: scan_short.simps(2) short_option_flag [THEN iffD2] split: prod.splits)
    from flag_switch [OF flag] obtain x where x: "switch c x" by blast
    then have "list_all2 switch (fs @ [c]) (xs @ [x])" using Cons.prems(4) by (simp add: list_all2_appendI)
    from Cons.IH [OF r(1) _ Cons.prems(3) this] r(2) Cons.prems(2)
    obtain ys where "rs' = map opt_of ys" "spells ((''-'' @ (fs @ [c]) @ cs) # rest) ((xs @ [x]) @ ys @ os)" by auto
    then show ?thesis using r(2) x by (intro exI [of _ "x # ys"]) (simp add: switch_flag)
  next
    case valued
    from valued_parameter [OF valued] obtain f where f: "parameter c f" by blast
    show ?thesis
      using Cons.prems valued f parameter_valued [OF f] spells.attached [of fs xs c f cs rest os] spells.separate [of fs xs c f rest' os]
      by (auto simp: scan_short_valued next_argument_def bad_option_def split: if_splits list.splits
          intro!: exI [of _ "[f _]"])
  qed
qed

lemma scan_long_spells:
  assumes "scan_long a rest = (r, rest')" "fst r \<noteq> CHR ''?''" "spells rest' os"
  shows "\<exists>x. r = opt_of x \<and> spells ((''--'' @ a) # rest) (x # os)"
proof -
  define w v where "w = takeWhile (\<lambda>c. c \<noteq> CHR ''='') a" and "v = dropWhile (\<lambda>c. c \<noteq> CHR ''='') a"
  then have w: "takeWhile (\<lambda>c. c \<noteq> CHR ''='') a = w" "a = w @ v" "v = [] \<or> hd v = CHR ''=''"
    using hd_dropWhile [of "\<lambda>c. c \<noteq> CHR ''=''" a] by auto
  obtain k c where l: "long_option w = Some (k, c)"
    using assms(1,2) by (cases "long_option w") (auto simp: scan_long_def w(1) bad_option_def)
  then have ab: "abbreviates w (k, c)" by (simp add: long_option_iff)
  consider (flag) x where "k = No_argument" "long_switch w x" "opt_of x = (c, [])"
    | (valued) f where "k = Required_argument" "long_parameter w f" "\<forall>a. opt_of (f a) = (c, a)"
    using ab abbreviates_long_switch [of w c] abbreviates_long_parameter [of w c] by (cases k) auto
  then show ?thesis
  proof cases
    case flag
    have "v = []"
    proof (rule ccontr)
      assume "v \<noteq> []"
      then have "a = w @ CHR ''='' # tl v" using w(2,3) by (cases v) auto
      then show False using assms(1,2) scan_long_name(2) [OF ab, of "tl v" rest] flag(1) by (auto simp: bad_option_def)
    qed
    then show ?thesis using assms w(2) ab flag spells.long_flag [of w x rest' os]
      by (intro exI [of _ x]) (simp add: scan_long_name)
  next
    case valued
    show ?thesis
    proof (cases v)
      case Nil
      then obtain y where "rest = y # rest'" "r = (c, y)"
        using assms(1,2) w(2) valued(1) scan_long_name(1) [OF ab, of rest]
        by (auto simp: next_argument_def bad_option_def split: list.splits)
      then show ?thesis using Nil w(2) valued(3) spells.long_separate [OF valued(2) assms(3)]
        by (intro exI [of _ "f y"]) simp
    next
      case (Cons x y)
      then have "a = w @ CHR ''='' # y" using w(2,3) by simp
      then show ?thesis using assms(1,3) ab valued(1,3) spells.long_attached [OF valued(2), of rest' os y]
        by (intro exI [of _ "f y"]) (simp add: scan_long_name(2) [OF ab])
    qed
  qed
qed

lemma getopt_spells: "CHR ''?'' \<notin> fst ` set (getopt_long ws) \<Longrightarrow> \<exists>os. getopt_long ws = map opt_of os \<and> spells ws os"
proof (induction ws rule: getopt_long.induct)
  case 1
  show ?case by (auto intro: spells.finished)
next
  case (2 a rest)
  consider (stop) "a = ''--''" | (long) "a \<noteq> ''--''" "is_long a" | (short) "a \<noteq> ''--''" "\<not> is_long a" "is_short a"
    | (operand) "a \<noteq> ''--''" "\<not> is_long a" "\<not> is_short a" by blast
  then show ?case
  proof cases
    case stop
    then show ?thesis by (auto simp: getopt_long.simps(2) intro: spells.stop)
  next
    case long
    then obtain b where b: "a = ''--'' @ b" "b \<noteq> []" by (auto simp: is_long_def prefix_def)
    obtain c x rest' where "scan_long b rest = ((c, x), rest')" by (metis surj_pair)
    then obtain r where r: "scan_long b rest = (r, rest')" "r = (c, x)" by simp
    then have "CHR ''?'' \<notin> fst ` set (getopt_long rest')" using 2(4) long b by (auto simp: getopt_long.simps(2))
    then obtain os where "getopt_long rest' = map opt_of os" "spells rest' os"
      using 2(1) [OF long refl, of r rest'] r b by auto
    moreover from this r 2(4) long b scan_long_spells [of b rest r rest' os]
    obtain x where "r = opt_of x" "spells (a # rest) (x # os)" by (auto simp: getopt_long.simps(2))
    ultimately show ?thesis using r long b by (intro exI [of _ "x # os"]) (simp add: getopt_long.simps(2))
  next
    case short
    then obtain b where b: "a = ''-'' @ b" "b \<noteq> []" by (auto simp: is_short_def prefix_def)
    obtain rs rest' where r: "scan_short b rest = (rs, rest')" by fastforce
    then have "CHR ''?'' \<notin> fst ` set (getopt_long rest')" using 2(4) short b by (auto simp: getopt_long.simps(2) image_Un)
    then obtain os where "getopt_long rest' = map opt_of os" "spells rest' os"
      using 2(2) [OF short refl, of rs rest'] r b by auto
    moreover from this r 2(4) short b scan_short_spells [of b rest rs rest' os "[]" "[]"]
    obtain ys where "rs = map opt_of ys" "spells (a # rest) (ys @ os)" by (auto simp: getopt_long.simps(2) image_Un)
    ultimately show ?thesis using r short b by (intro exI [of _ "ys @ os"]) (simp add: getopt_long.simps(2))
  next
    case operand
    then have "\<not> prefix ''-'' a \<or> a = ''-''" by (auto simp: is_short_def is_long_def)
    with operand 2 show ?thesis by (auto simp: getopt_operand intro: spells.operand)
  qed
qed

subsection \<open>The program on its command line\<close>

text \<open>\<open>main\<close> with its arguments.\<close>

definition main_argv ::
  "(string \<Rightarrow> string option) \<Rightarrow> bool \<Rightarrow> allocated \<Rightarrow> string \<Rightarrow> string list \<Rightarrow> (options \<times> machine) outcome option" where
  "main_argv fopen_error big_endian heap program argv = main_start fopen_error big_endian heap program (getopt_long argv)"

lemma main_options_only_accepted:
  "main_options fopen_error program opts cfg = Some (Value cfg') \<Longrightarrow> list_all (accepted_option fopen_error) opts"
proof (induction opts arbitrary: cfg)
  case (Cons p opts)
  obtain c a where p: "p = (c, a)" by (cases p)
  obtain cfg1 where r: "main_option fopen_error program c a cfg = Some (Value cfg1)"
    using Cons.prems by (cases "main_option fopen_error program c a cfg") (auto simp: p split: outcome.splits)
  then have "accepted_option fopen_error p" by (auto simp: p main_option_def accepted_option_def split: if_splits option.splits)
  with Cons.IH [of cfg1] Cons.prems r show ?case by (simp add: p)
qed simp

lemma accepted_not_bad: "list_all (accepted_option fopen_error) opts \<Longrightarrow> CHR ''?'' \<notin> fst ` set opts"
  by (auto simp: list_all_iff accepted_option_def)

lemma main_start_not_bad:
  "main_start fopen_error be heap program opts = Some (Value (cfg, s)) \<Longrightarrow> CHR ''?'' \<notin> fst ` set opts"
  using main_options_only_accepted [of fopen_error program opts options_initial cfg]
  by (intro accepted_not_bad [of fopen_error])
    (auto simp: main_start_def bind_eq_Some_conv case_outcome_Value)

lemma main_options_configured:
  "main_options fopen_error program (map opt_of xs) cfg = Some (Value cfg') \<longleftrightarrow> configured fopen_error xs cfg = Some cfg'"
proof (induction xs arbitrary: cfg)
  case (Cons x xs)
  then show ?case
    by (cases x) (auto simp: main_option_def bind_eq_Some_conv split: option.splits)
qed simp

subsection \<open>Properties\<close>

text \<open>C23: the program starts exactly on the command lines of the grammar and then configured by the settings they ask
  for: the long names of the usage message and their unambiguous beginnings, groups of letters, arguments attached
  or separate, \<open>=\<close>, elements that are no options in between, and \<open>--\<close>; each name and each letter has the effect the
  grammar gives it.  No command line asks for two lists of settings.\<close>

theorem main_reads_argv:
  "(main_argv fopen_error be heap program argv = Some (Value (cfg, s)) \<longleftrightarrow>
     (\<exists>os. spells argv os \<and> configured fopen_error os options_initial = Some cfg \<and> main_create be heap cfg = Some s)) \<and>
   (\<forall>os os'. spells argv os \<and> spells argv os' \<longrightarrow> os = os')"
proof -
  have start: "main_argv fopen_error be heap program argv = Some (Value (cfg, s)) \<longleftrightarrow>
      configured fopen_error os options_initial = Some cfg \<and> main_create be heap cfg = Some s"
    if "getopt_long argv = map opt_of os" for os
    using main_options_configured [of fopen_error program os options_initial cfg]
    by (auto simp: main_argv_def that main_start_def bind_eq_Some_conv case_outcome_Value)
  have "\<exists>os. getopt_long argv = map opt_of os \<and> spells argv os"
    if "main_argv fopen_error be heap program argv = Some (Value (cfg, s))"
    using getopt_spells main_start_not_bad that unfolding main_argv_def by blast
  moreover have "inj opt_of" using opt_of_inject by (rule injI)
  ultimately show ?thesis using start spells_getopt [of argv] by (metis inj_map_eq_map)
qed

text \<open>\<open>arm_simulator --gdb 1234 x -mp -- -h\<close>.\<close>

theorem main_reads_argv_witness:
  "\<exists>cfg s. main_argv (\<lambda>_. None) True \<lparr>memory_block = Some (\<lambda>_. 0), register_block = (\<lambda>_. 7), cycle_block = 9\<rparr> ''arm_simulator''
      [''--gdb'', ''1234'', ''x'', ''-mp'', ''--'', ''-h''] = Some (Value (cfg, s)) \<and>
    gdb_port cfg = 1234 \<and> (\<forall>os. spells [''--gdb'', ''1234'', ''x'', ''-mp'', ''--'', ''-h''] os \<longrightarrow> length os = 3)"
proof -
  let ?heap = "\<lparr>memory_block = Some (\<lambda>_. 0), register_block = (\<lambda>_. 7), cycle_block = 9\<rparr>"
  let ?argv = "[''--gdb'', ''1234'', ''x'', ''-mp'', ''--'', ''-h'']"
  let ?os = "[Gdb_port ''1234'', Trace_memory, Trace_position]"
  have "long_parameter ''gdb'' Gdb_port" by (simp add: long_parameter_def parameters_def switches_def begins_def)
  moreover have "list_all2 switch ''mp'' [Trace_memory, Trace_position]" by (simp add: switch_flag flag_def)
  ultimately have sp: "spells ?argv ?os"
    using spells.long_separate [of "''gdb''" Gdb_port "[''x'', ''-mp'', ''--'', ''-h'']" "[Trace_memory, Trace_position]" "''1234''"]
      spells.operand [of "''x''" "[''-mp'', ''--'', ''-h'']"] spells.flags [of "''mp''" _ "[''--'', ''-h'']" "[]"] spells.stop [of "[''-h'']"]
    by simp
  let ?cfg = "options_initial\<lparr>gdb_port := word_of_int (atoi ''1234''),
    tracing := trace_add POSITION (trace_add MEMORY (tracing options_initial))\<rparr>"
  have c: "configured (\<lambda>_. None) ?os options_initial = Some ?cfg" by simp
  have f: "tracing ?cfg = trace_initial\<lparr>trace_flags := (trace_flags trace_initial OR MEMORY) OR POSITION\<rparr>"
    by (simp add: trace_add_def options_initial_def)
  obtain s where "main_create True ?heap ?cfg = Some s" using main_create_state [OF _ f, of ?heap "\<lambda>_. 0" True] by auto
  with c sp main_reads_argv [of "\<lambda>_. None" True ?heap "''arm_simulator''" ?argv ?cfg s]
  have "main_argv (\<lambda>_. None) True ?heap ''arm_simulator'' ?argv = Some (Value (?cfg, s))"
    "\<forall>os. spells ?argv os \<longrightarrow> os = ?os" by blast+
  moreover have "gdb_port ?cfg = 1234" by code_simp
  ultimately show ?thesis by (intro exI conjI) auto
qed

end
