(* ===== verification/Threads.thy ===== *)
theory Threads
  imports Irq_Listener
begin

text \<open>
  The two threads of \<open>arm_simulator.c\<close> with their lock, in small steps: a thread is at a position of its code, takes the
  lock, works in its critical section and releases the lock, and the steps of the threads interleave.  Between the
  steps of \<open>cont\<close>, and between the two writes of a reset, the other thread may run as far as the lock lets it.
  The theory shows that \<open>system_step\<close>, in which a command and an interrupt are one step, loses nothing.
\<close>

subsection \<open>Positions\<close>

datatype owner = Gdb_thread | Irq_thread

text \<open>The thread of gdb is in the scanner, waits for the lock with the handler of a packet, is in the handler, in the loop
  of \<open>cont\<close> with the instruction it has read, behind the handler, or at the end of its input.\<close>

datatype gdb_position =
    Scan
  | At_lock indet string gdb_handler string
  | Handling indet string gdb_handler string
  | Continuing indet string u32
  | At_unlock
  | Exited

text \<open>The thread of the interrupts reads, waits for the lock, is in \<open>arm_exception\<close> or between its two writes, or
  behind it.\<close>

datatype irq_position = Irq_reading | Irq_at_lock u8 | Raising u8 | Raising_pc | Irq_at_unlock

text \<open>The processor and the memory both threads point to are those of \<open>server\<close>; \<open>arm_alive\<close> is cleared when \<open>main\<close>
  destroys the processor.\<close>

record threads =
  server :: parser_data
  gdb_at :: gdb_position
  irq_at :: irq_position
  mutex :: "owner option"
  arm_alive :: bool

definition idle :: "parser_data \<Rightarrow> threads" where
  "idle d = \<lparr>server = d, gdb_at = Scan, irq_at = Irq_reading, mutex = None, arm_alive = True\<rparr>"

subsection \<open>Steps\<close>

text \<open>\<open>gdb_packet_analysis\<close> up to the lock: the handler of a packet with a good checksum, and its data.\<close>

definition packet_opens :: "indet \<Rightarrow> string \<Rightarrow> (gdb_handler \<times> string) option" where
  "packet_opens k yytext = do {
     let i = length yytext - 3;
     let check = sum_list (map of_char (take (i - 1) (tl yytext)) :: u8 list);
     tail \<leftarrow> c_string (drop (i + 1) (yytext @ [NUL]));
     let given = (case scan_hex (length tail) tail of None \<Rightarrow> uninit_word k | Some (n, _) \<Rightarrow> n);
     let block = (yytext @ [NUL])[i := NUL];
     (if ucast check = given then map_option (\<lambda>h. (h, drop 2 block)) (map_of handler_table (block ! 1)) else None)
   }"

definition token_opens :: "indet \<Rightarrow> token \<Rightarrow> (gdb_handler \<times> string) option" where
  "token_opens k t = (case t of Packet p \<Rightarrow> packet_opens k p | _ \<Rightarrow> None)"

definition opened :: "parser_data \<Rightarrow> parser_data" where
  "opened d = (let d = handle_error d in d\<lparr>gdb := gdb_send_ack (gdb d)\<rparr>)"

text \<open>The first write of a reset.\<close>

definition raise_cpsr :: "machine \<Rightarrow> machine option" where
  "raise_cpsr s = map_option snd (located (''arm_exception.c'', 37) (arm_write_cpsr (0x1d3 OR Exception_bit_9)) s)"

definition raise_pc :: "machine \<Rightarrow> machine option" where
  "raise_pc s = map_option snd (located (''arm_exception.c'', 38) (arm_write_usr_register 15 0) s)"

abbreviation set_gdb :: "threads \<Rightarrow> gdb_protocol_data \<Rightarrow> threads" where
  "set_gdb c g \<equiv> c\<lparr>server := (server c)\<lparr>gdb := g\<rparr>\<rparr>"

text \<open>The list of a step is the command or the interrupt that takes effect with it; a command that ends the process
  does not complete.\<close>

inductive thread_step :: "bool \<Rightarrow> event list \<Rightarrow> threads \<Rightarrow> threads \<Rightarrow> bool" for be where
  scan: "gdb_at c = Scan \<Longrightarrow> token_opens k t = None \<Longrightarrow> token_action ks k be t (server c) = Some (Scanning d) \<Longrightarrow>
    thread_step be [Gdb t] c (c\<lparr>server := d\<rparr>)"
| open_packet: "gdb_at c = Scan \<Longrightarrow> packet_opens k p = Some (h, raw) \<Longrightarrow>
    thread_step be [] c (c\<lparr>server := opened (server c), gdb_at := At_lock k p h raw\<rparr>)"
| lock: "gdb_at c = At_lock k p h raw \<Longrightarrow> mutex c = None \<Longrightarrow>
    thread_step be [] c (c\<lparr>gdb_at := Handling k p h raw, mutex := Some Gdb_thread\<rparr>)"
| handle: "gdb_at c = Handling k p h raw \<Longrightarrow> h \<noteq> Cont \<Longrightarrow>
    run_handler h [] k be raw (gdb (server c)) = Some (Done g) \<Longrightarrow> \<not> terminated g \<Longrightarrow>
    thread_step be [Gdb (Packet p)] c ((set_gdb c g)\<lparr>gdb_at := At_unlock\<rparr>)"
| cont_start: "gdb_at c = Handling k p Cont raw \<Longrightarrow>
    thread_step be [] c (c\<lparr>gdb_at := Continuing k p (uninit_word k)\<rparr>)"
| cont_step: "gdb_at c = Continuing k p i \<Longrightarrow> cont_look i (gdb (server c)) = Some (i', g) \<Longrightarrow>
    i' AND 0xFFF000F0 \<noteq> 0xE7F000F0 \<Longrightarrow> gdb_run_step k' g = Some g' \<Longrightarrow>
    thread_step be [] c ((set_gdb c g')\<lparr>gdb_at := Continuing k p i'\<rparr>)"
| cont_stop: "gdb_at c = Continuing k p i \<Longrightarrow> cont_look i (gdb (server c)) = Some (i', g) \<Longrightarrow>
    i' AND 0xFFF000F0 = 0xE7F000F0 \<Longrightarrow> gdb_send_stop_reason g = Some g' \<Longrightarrow> \<not> terminated g' \<Longrightarrow>
    thread_step be [Gdb (Packet p)] c ((set_gdb c g')\<lparr>gdb_at := At_unlock\<rparr>)"
| unlock: "gdb_at c = At_unlock \<Longrightarrow> thread_step be [] c (c\<lparr>gdb_at := Scan, mutex := None\<rparr>)"
| end_of_input: "gdb_at c = Scan \<Longrightarrow> thread_step be [] c (c\<lparr>server := handle_error (server c), gdb_at := Exited\<rparr>)"
| destroy: "gdb_at c = Exited \<Longrightarrow> thread_step be [] c (c\<lparr>arm_alive := False\<rparr>)"
| irq_read: "irq_at c = Irq_reading \<Longrightarrow> thread_step be [] c (c\<lparr>irq_at := Irq_at_lock irq\<rparr>)"
| irq_lock: "irq_at c = Irq_at_lock irq \<Longrightarrow> mutex c = None \<Longrightarrow>
    thread_step be [] c (c\<lparr>irq_at := Raising irq, mutex := Some Irq_thread\<rparr>)"
| irq_ignored: "irq_at c = Raising irq \<Longrightarrow> irq \<noteq> ucast RESET \<Longrightarrow>
    thread_step be [Irq irq] c (c\<lparr>irq_at := Irq_at_unlock\<rparr>)"
| irq_cpsr: "irq_at c = Raising (ucast RESET) \<Longrightarrow> arm_alive c \<Longrightarrow> raise_cpsr (target (gdb (server c))) = Some s \<Longrightarrow>
    thread_step be [] c (c\<lparr>server := with_target (server c) s, irq_at := Raising_pc\<rparr>)"
| irq_pc: "irq_at c = Raising_pc \<Longrightarrow> arm_alive c \<Longrightarrow> raise_pc (target (gdb (server c))) = Some s \<Longrightarrow>
    thread_step be [Irq (ucast RESET)] c (c\<lparr>server := with_target (server c) s, irq_at := Irq_at_unlock\<rparr>)"
| irq_unlock: "irq_at c = Irq_at_unlock \<Longrightarrow> thread_step be [] c (c\<lparr>irq_at := Irq_reading, mutex := None\<rparr>)"

abbreviation thread_run :: "bool \<Rightarrow> event list \<Rightarrow> threads \<Rightarrow> threads \<Rightarrow> bool" where
  "thread_run be \<equiv> runs_of (thread_step be)"

subsection \<open>Commands and the lock\<close>

text \<open>What happens outside the lock neither reads nor changes the machine.\<close>

lemma with_target_simps [simp]:
  "gdb (with_target d s) = (gdb d)\<lparr>target := s\<rparr>" "error_buffer (with_target d s) = error_buffer d"
  "with_target (with_target d s) u = with_target d u" "with_target d (target (gdb d)) = d"
  by (simp_all add: same_target)

lemma rio_write_target [simp]:
  "rio_write s (g\<lparr>target := u\<rparr>) = (rio_write s g)\<lparr>target := u\<rparr>" "target (rio_write s g) = target g"
  by (simp_all add: rio_write_def)

lemma handle_error_target [simp]:
  "handle_error (with_target d s) = with_target (handle_error d) s" "target (gdb (handle_error d)) = target (gdb d)"
  by (simp_all add: handle_error_def gdb_require_retransmission_def)

lemma opened_target [simp]:
  "opened (with_target d s) = with_target (opened d) s" "target (gdb (opened d)) = target (gdb d)"
  by (simp_all add: opened_def Let_def gdb_send_ack_def)

lemma transmit_target [simp]:
  "gdb_transmit_packet (g\<lparr>target := u\<rparr>) = (gdb_transmit_packet g)\<lparr>target := u\<rparr>"
  "target (gdb_transmit_packet g) = target g"
  by (simp_all add: gdb_transmit_packet_def)

lemma send_data_target:
  assumes "gdb_send_data data g = Some g'"
  shows "gdb_send_data data (g\<lparr>target := u\<rparr>) = Some (g'\<lparr>target := u\<rparr>)" "target g' = target g"
  using assms by (cases g; auto simp: gdb_send_data_def gdb_send_buffer_def gdb_transmit_packet_def rio_write_def
      bind_eq_Some_conv Let_def split: prod.splits)+

lemma analysis_opens:
  "packet_opens k p = Some (h, raw) \<Longrightarrow> gdb_packet_analysis ks k be p g = run_handler h ks k be raw (gdb_send_ack g)"
  by (auto simp: packet_opens_def gdb_packet_analysis_def bind_eq_Some_conv Let_def split: if_splits)

lemma analysis_local:
  assumes "packet_opens k p = None" "gdb_packet_analysis ks k be p g = Some r"
  shows "\<exists>g'. r = Done g' \<and> gdb_packet_analysis ks k be p (g\<lparr>target := u\<rparr>) = Some (Done (g'\<lparr>target := u\<rparr>)) \<and> target g' = target g"
proof -
  let ?i = "length p - 3"
  let ?c = "(\<lambda>h. (h, drop 2 ((p @ [NUL])[?i := NUL])))"
  obtain tail where t: "c_string (drop (?i + 1) (p @ [NUL])) = Some tail"
    using assms(2) by (auto simp: gdb_packet_analysis_def bind_eq_Some_conv Let_def)
  define good where "good \<longleftrightarrow> ucast (sum_list (map of_char (take (?i - 1) (tl p))) :: u8) =
    (case scan_hex (length tail) tail of None \<Rightarrow> uninit_word k | Some (n, _) \<Rightarrow> n)"
  have a: "gdb_packet_analysis ks k be p h = (if good then map_option Done (gdb_send_data '''' (gdb_send_ack h))
      else Some (Done (gdb_require_retransmission h)))" for h
    using assms(1) unfolding gdb_packet_analysis_def packet_opens_def Let_def t good_def by (auto split: option.splits)
  show ?thesis
  proof (cases good)
    case True
    with assms(2) obtain g' where g': "gdb_send_data '''' (gdb_send_ack g) = Some g'" "r = Done g'" by (auto simp: a)
    then show ?thesis using True send_data_target [OF g'(1)] by (auto simp: a gdb_send_ack_def)
  next
    case False
    then show ?thesis using assms(2) by (auto simp: a gdb_require_retransmission_def)
  qed
qed

lemma token_local:
  assumes "token_opens k t = None" "token_action ks k be t d = Some (Scanning d')"
  shows "token_action ks k be t (with_target d s) = Some (Scanning (with_target d' s)) \<and> target (gdb d') = target (gdb d)"
proof (cases t)
  case (Packet p)
  then obtain r where r: "gdb_packet_analysis ks k be p (gdb (handle_error d)) = Some r" "resume (handle_error d) r = Scanning d'"
    using assms(2) by (auto simp: token_action_def Let_def)
  then show ?thesis using assms(1) Packet analysis_local [of k p ks be "gdb (handle_error d)" r s]
    by (auto simp: token_opens_def token_action_def Let_def)
qed (use assms in \<open>auto simp: token_action_def Let_def add_character_to_error_def\<close>)

lemma token_opened:
  assumes "packet_opens k p = Some (h, raw)"
  shows "token_action ks k be (Packet p) d =
    map_option (resume (opened d)) (run_handler h ks k be raw (gdb (opened d)))"
proof -
  have "resume (opened d) = resume (handle_error d)"
    by (rule ext) (simp add: resume_def proceed_def opened_def Let_def split: progress.split)
  then show ?thesis by (simp add: token_action_def analysis_opens [OF assms] Let_def) (simp add: opened_def Let_def)
qed

lemma run_handler_steps: "h \<noteq> Cont \<Longrightarrow> run_handler h ks k be raw g = run_handler h [] k be raw g"
  by (cases h) (simp_all add: run_handler_def)

lemma exception_writes:
  "irq_received (ucast RESET) s = Option.bind (raise_cpsr s) raise_pc"
  "irq \<noteq> ucast RESET \<Longrightarrow> irq_received irq s = Some s"
  by (auto simp: irq_received_def arm_exception_def raise_cpsr_def raise_pc_def bind_map_option split: bind_splits)

subsection \<open>Simulation\<close>

text \<open>The positions inside the critical sections, and the owner of the lock they imply.\<close>

definition gdb_inside :: "threads \<Rightarrow> bool" where
  "gdb_inside c \<longleftrightarrow> (case gdb_at c of Handling _ _ _ _ \<Rightarrow> True | Continuing _ _ _ \<Rightarrow> True | At_unlock \<Rightarrow> True | _ \<Rightarrow> False)"

definition irq_inside :: "threads \<Rightarrow> bool" where
  "irq_inside c \<longleftrightarrow> (case irq_at c of Raising _ \<Rightarrow> True | Raising_pc \<Rightarrow> True | Irq_at_unlock \<Rightarrow> True | _ \<Rightarrow> False)"

definition exclusive :: "threads \<Rightarrow> bool" where
  "exclusive c \<longleftrightarrow> (mutex c = Some Gdb_thread \<longleftrightarrow> gdb_inside c) \<and> (mutex c = Some Irq_thread \<longleftrightarrow> irq_inside c)"

text \<open>Two states of the server that differ at most in the machine.\<close>

definition private_eq :: "parser_data \<Rightarrow> parser_data \<Rightarrow> bool" where
  "private_eq d d' \<longleftrightarrow> (\<forall>s. with_target d s = with_target d' s)"

lemma private_eq_refl [simp]: "private_eq d d" "private_eq (with_target d s) d" "private_eq d (with_target d s)"
  by (simp_all add: private_eq_def)

lemma private_eq_target: "private_eq d d' \<Longrightarrow> private_eq (with_target d s) (with_target d' u)"
  by (simp add: private_eq_def)

lemma private_eq_same: "private_eq d d' \<Longrightarrow> target (gdb d) = target (gdb d') \<Longrightarrow> d = d'"
  unfolding private_eq_def by (metis with_target_simps(4))

lemma private_eq_with: "private_eq d d' \<Longrightarrow> with_target d' (target (gdb d)) = d"
  unfolding private_eq_def by (metis with_target_simps(4))

lemma private_eq_opened: "private_eq d d' \<Longrightarrow> private_eq (opened d) (opened d')"
  unfolding private_eq_def by (metis opened_target(1))

lemma private_eq_handle_error: "private_eq d d' \<Longrightarrow> private_eq (handle_error d) (handle_error d')"
  unfolding private_eq_def by (metis handle_error_target(1))

text \<open>The state of \<open>system_step\<close> behind the small steps: a command whose packet is open has not taken effect, nor has a
  reset after its first write.\<close>

definition irq_pending :: "irq_position \<Rightarrow> machine \<Rightarrow> machine \<Rightarrow> bool" where
  "irq_pending at s u \<longleftrightarrow> (if at = Raising_pc then raise_cpsr s = Some u else s = u)"

definition abstracts :: "threads \<Rightarrow> parser_data \<Rightarrow> bool" where
  "abstracts c a \<longleftrightarrow>
    (\<not> gdb_inside c \<or> gdb_at c = At_unlock \<longrightarrow> irq_pending (irq_at c) (target (gdb a)) (target (gdb (server c)))) \<and>
    (case gdb_at c of
      At_lock k p h raw \<Rightarrow> packet_opens k p = Some (h, raw) \<and> private_eq (opened a) (server c)
    | Handling k p h raw \<Rightarrow> packet_opens k p = Some (h, raw) \<and> server c = opened a
    | Continuing k p i \<Rightarrow> (\<exists>raw ks. packet_opens k p = Some (Cont, raw) \<and> error_buffer (server c) = error_buffer (opened a) \<and>
        (\<forall>ks'. cont_loop (ks @ ks') (uninit_word k) (gdb (opened a)) = cont_loop ks' i (gdb (server c))))
    | Exited \<Rightarrow> private_eq (handle_error a) (server c)
    | _ \<Rightarrow> private_eq a (server c))"

lemma exclusive_step: "thread_step be es c c' \<Longrightarrow> exclusive c \<Longrightarrow> exclusive c'"
  by (induction rule: thread_step.induct) (auto simp: exclusive_def gdb_inside_def irq_inside_def split: gdb_position.splits irq_position.splits)

lemma irq_pending_simps [simp]:
  "at \<noteq> Raising_pc \<Longrightarrow> irq_pending at s u \<longleftrightarrow> s = u" "irq_pending Raising_pc s u \<longleftrightarrow> raise_cpsr s = Some u"
  by (simp_all add: irq_pending_def)

lemma outside: "exclusive c \<Longrightarrow> gdb_inside c \<Longrightarrow> irq_at c \<noteq> Raising_pc"
  by (auto simp: exclusive_def irq_inside_def)

lemma system_step_run: "system_step be e d d' \<Longrightarrow> system_run be [e] d d'"
  by (rule system_run.run [OF _ system_run.idle])

lemma irq_run: "irq_received irq (target (gdb a)) = Some s \<Longrightarrow> system_run be [Irq irq] a (with_target a s)"
  by (rule system_step_run) (rule system_step.irq_step)

lemma opened_run:
  assumes "packet_opens k p = Some (h, raw)" "run_handler h ks k be raw (gdb (opened a)) = Some (Done g)" "\<not> terminated g"
  shows "system_run be [Gdb (Packet p)] a ((opened a)\<lparr>gdb := g\<rparr>)"
proof (rule system_step_run, rule system_step.gdb_step)
  show "token_action ks k be (Packet p) a = Some (Scanning ((opened a)\<lparr>gdb := g\<rparr>))"
    using assms by (simp add: token_opened [OF assms(1)])
qed

text \<open>Interrupts, with the thread of gdb outside its critical section.\<close>

lemma abstracts_irq:
  assumes "abstracts c a" "\<not> gdb_inside c" "irq_pending at s u"
  shows "abstracts (c\<lparr>server := with_target (server c) u, irq_at := at\<rparr>) (with_target a s)"
  using assms private_eq_target
  by (auto simp: abstracts_def gdb_inside_def split: gdb_position.splits)

lemma abstracts_irq_at:
  assumes "abstracts c a" "at \<noteq> Raising_pc" "irq_at c \<noteq> Raising_pc"
  shows "abstracts (c\<lparr>irq_at := at\<rparr>) a" "abstracts (c\<lparr>irq_at := at, mutex := m\<rparr>) a"
  using assms by (auto simp: abstracts_def gdb_inside_def split: gdb_position.splits)

text \<open>The loop of \<open>cont\<close>.\<close>

lemma cont_step_prefix:
  assumes "\<forall>ks'. cont_loop (ks @ ks') j g0 = cont_loop ks' i g" "cont_look i g = Some (i', g1)"
    and "i' AND 0xFFF000F0 \<noteq> 0xE7F000F0" "gdb_run_step k g1 = Some g2"
  shows "\<forall>ks'. cont_loop ((ks @ [k]) @ ks') j g0 = cont_loop ks' i' g2"
  using assms by simp

lemma simulates_scan:
  assumes "gdb_at c = Scan" "token_opens k t = None" "token_action ks k be t (server c) = Some (Scanning d)" "abstracts c a"
  shows "\<exists>a'. system_run be [Gdb t] a a' \<and> abstracts (c\<lparr>server := d\<rparr>) a'"
proof -
  let ?s = "target (gdb a)"
  have a: "private_eq a (server c)" "irq_pending (irq_at c) ?s (target (gdb (server c)))"
    using assms(1,4) by (auto simp: abstracts_def gdb_inside_def)
  from private_eq_with [OF a(1)] token_local [OF assms(2,3), of ?s]
  have d: "token_action ks k be t a = Some (Scanning (with_target d ?s))" "target (gdb d) = target (gdb (server c))" by auto
  have "system_run be [Gdb t] a (with_target d ?s)" by (rule system_step_run) (rule system_step.gdb_step [OF d(1)])
  moreover have "abstracts (c\<lparr>server := d\<rparr>) (with_target d ?s)" using assms(1) a(2) d(2) by (simp add: abstracts_def)
  ultimately show ?thesis by blast
qed

text \<open>The completion of a command in its critical section.\<close>

lemma simulates_completion:
  assumes "gdb_inside c" "exclusive c" "packet_opens k p = Some (h, raw)" "error_buffer (server c) = error_buffer (opened a)"
    and "run_handler h ks k be raw (gdb (opened a)) = Some (Done g)" "\<not> terminated g"
  shows "\<exists>a'. system_run be [Gdb (Packet p)] a a' \<and> abstracts ((set_gdb c g)\<lparr>gdb_at := At_unlock\<rparr>) a'"
proof -
  have "system_run be [Gdb (Packet p)] a ((opened a)\<lparr>gdb := g\<rparr>)" by (rule opened_run [OF assms(3,5,6)])
  moreover have "(opened a)\<lparr>gdb := g\<rparr> = (server c)\<lparr>gdb := g\<rparr>" using assms(4) by (cases "opened a"; cases "server c") simp
  moreover have "abstracts ((set_gdb c g)\<lparr>gdb_at := At_unlock\<rparr>) ((server c)\<lparr>gdb := g\<rparr>)"
    using outside [OF assms(2,1)] by (simp add: abstracts_def)
  ultimately show ?thesis by auto
qed

lemma simulates_lock:
  assumes "gdb_at c = At_lock k p h raw" "mutex c = None" "abstracts c a" "exclusive c"
  shows "abstracts (c\<lparr>gdb_at := Handling k p h raw, mutex := Some Gdb_thread\<rparr>) a"
proof -
  have "irq_at c \<noteq> Raising_pc" using assms(2,4) by (auto simp: exclusive_def irq_inside_def split: irq_position.splits)
  with assms(1,3) have "server c = opened a" by (auto simp: abstracts_def gdb_inside_def dest!: private_eq_same)
  with assms(1,3) show ?thesis by (auto simp: abstracts_def gdb_inside_def)
qed

lemma simulates_cont_step:
  assumes "gdb_at c = Continuing k p i" "cont_look i (gdb (server c)) = Some (i', g)" "i' AND 0xFFF000F0 \<noteq> 0xE7F000F0"
    and "gdb_run_step k' g = Some g'" "abstracts c a"
  shows "abstracts ((set_gdb c g')\<lparr>gdb_at := Continuing k p i'\<rparr>) a"
proof -
  from assms(1,5) obtain raw ks where o: "packet_opens k p = Some (Cont, raw)" "error_buffer (server c) = error_buffer (opened a)"
    "\<forall>ks'. cont_loop (ks @ ks') (uninit_word k) (gdb (opened a)) = cont_loop ks' i (gdb (server c))"
    by (auto simp: abstracts_def)
  obtain ks1 where "\<forall>ks'. cont_loop (ks1 @ ks') (uninit_word k) (gdb (opened a)) = cont_loop ks' i' g'"
    using cont_step_prefix [OF o(3) assms(2-4)] by blast
  with o(1,2) show ?thesis by (auto simp: abstracts_def gdb_inside_def)
qed

lemma simulates_cont_stop:
  assumes "gdb_at c = Continuing k p i" "cont_look i (gdb (server c)) = Some (i', g)" "i' AND 0xFFF000F0 = 0xE7F000F0"
    and "gdb_send_stop_reason g = Some g'" "\<not> terminated g'" "abstracts c a" "exclusive c"
  shows "\<exists>a'. system_run be [Gdb (Packet p)] a a' \<and> abstracts ((set_gdb c g')\<lparr>gdb_at := At_unlock\<rparr>) a'"
proof -
  from assms(1,6) obtain raw ks where o: "packet_opens k p = Some (Cont, raw)" "error_buffer (server c) = error_buffer (opened a)"
    "\<forall>ks'. cont_loop (ks @ ks') (uninit_word k) (gdb (opened a)) = cont_loop ks' i (gdb (server c))"
    by (auto simp: abstracts_def)
  from o(3) [THEN spec, of "[host]"] assms(2,3)
  have "cont_loop (ks @ [host]) (uninit_word k) (gdb (opened a)) = Some (Done g)" by simp
  then have "run_handler Cont (ks @ [host]) k be raw (gdb (opened a)) = Some (Done g')"
    using assms(4) by (simp add: run_handler_def cont_def)
  moreover have "gdb_inside c" using assms(1) by (simp add: gdb_inside_def)
  ultimately show ?thesis using simulates_completion [OF _ assms(7) o(1,2) _ assms(5)] by blast
qed

text \<open>The two writes of a reset.\<close>

lemma simulates_reset:
  assumes "abstracts c a" "exclusive c" "irq_inside c"
  shows "irq_at c = Raising (ucast RESET) \<Longrightarrow> raise_cpsr (target (gdb (server c))) = Some s \<Longrightarrow>
      abstracts (c\<lparr>server := with_target (server c) s, irq_at := Raising_pc\<rparr>) a" (is "?A \<Longrightarrow> ?B \<Longrightarrow> _")
    and "irq_at c = Raising_pc \<Longrightarrow> raise_pc (target (gdb (server c))) = Some s \<Longrightarrow>
      system_run be [Irq (ucast RESET)] a (with_target a s) \<and>
      abstracts (c\<lparr>server := with_target (server c) s, irq_at := Irq_at_unlock\<rparr>) (with_target a s)" (is "?C \<Longrightarrow> ?D \<Longrightarrow> _")
proof -
  have out: "\<not> gdb_inside c" using assms(2,3) by (auto simp: exclusive_def)
  show "abstracts (c\<lparr>server := with_target (server c) s, irq_at := Raising_pc\<rparr>) a" if ?A ?B
  proof -
    have "target (gdb a) = target (gdb (server c))" using out that(1) assms(1) by (auto simp: abstracts_def)
    with that(2) have "irq_pending Raising_pc (target (gdb a)) s" by simp
    from abstracts_irq [OF assms(1) out this] show ?thesis by simp
  qed
  show "system_run be [Irq (ucast RESET)] a (with_target a s) \<and>
      abstracts (c\<lparr>server := with_target (server c) s, irq_at := Irq_at_unlock\<rparr>) (with_target a s)" if ?C ?D
  proof
    have "raise_cpsr (target (gdb a)) = Some (target (gdb (server c)))" using out that(1) assms(1) by (auto simp: abstracts_def)
    then show "system_run be [Irq (ucast RESET)] a (with_target a s)"
      using that(2) by (intro irq_run) (simp only: exception_writes(1) bind.bind_lunit)
    show "abstracts (c\<lparr>server := with_target (server c) s, irq_at := Irq_at_unlock\<rparr>) (with_target a s)"
      by (rule abstracts_irq [OF assms(1) out]) simp
  qed
qed

lemma simulates:
  assumes "thread_step be es c c'" "abstracts c a" "exclusive c"
  shows "\<exists>a'. system_run be es a a' \<and> abstracts c' a'"
  using assms
proof (induction rule: thread_step.induct)
  case (scan c k t ks d)
  then show ?case by (intro simulates_scan)
next
  case (open_packet c k p h raw)
  then have "abstracts (c\<lparr>server := opened (server c), gdb_at := At_lock k p h raw\<rparr>) a"
    using private_eq_opened by (auto simp: abstracts_def gdb_inside_def)
  then show ?case by auto
next
  case (handle c k p h raw g)
  then have "packet_opens k p = Some (h, raw)" "server c = opened a" "gdb_inside c"
    by (auto simp: abstracts_def gdb_inside_def)
  with handle show ?case by (intro simulates_completion [where ks = "[]"]) auto
next
  case (cont_start c k p raw)
  then have "abstracts (c\<lparr>gdb_at := Continuing k p (uninit_word k)\<rparr>) a"
    by (auto simp: abstracts_def gdb_inside_def intro: exI [of _ "[]"])
  then show ?case by auto
next
  case (cont_stop c k p i i' g g')
  then show ?case by (intro simulates_cont_stop)
next
  case (end_of_input c)
  then have "abstracts (c\<lparr>server := handle_error (server c), gdb_at := Exited\<rparr>) a"
    using private_eq_handle_error by (auto simp: abstracts_def gdb_inside_def)
  then show ?case by auto
next
  case (irq_ignored c irq)
  have "system_run be [Irq irq] a (with_target a (target (gdb a)))"
    by (rule irq_run) (simp add: exception_writes(2) [OF irq_ignored(2)])
  then show ?case using irq_ignored(1,3) abstracts_irq_at [of c a Irq_at_unlock] by auto
next
  case (irq_cpsr c s)
  then show ?case using simulates_reset(1) [of c a s] by (auto simp: irq_inside_def)
next
  case (irq_pc c s)
  then show ?case using simulates_reset(2) [of c a s be] by (auto simp: irq_inside_def)
qed (use abstracts_irq_at simulates_lock simulates_cont_step in \<open>auto simp: abstracts_def gdb_inside_def split: gdb_position.splits\<close>)

interpretation threads: forward_simulation "thread_step be" "system_run be" "\<lambda>c a. abstracts c a \<and> exclusive c" for be
  by unfold_locales (auto intro: system_run_append dest: simulates exclusive_step)

lemma idle_simps [simp]:
  "exclusive (idle d)" "abstracts (idle d) a \<longleftrightarrow> a = d"
  by (auto simp: idle_def exclusive_def gdb_inside_def irq_inside_def abstracts_def dest: private_eq_same)

subsection \<open>Commands and interrupts in small steps\<close>

lemma cont_Done:
  "cont ks k g = Some (Done g') \<longleftrightarrow>
   (\<exists>g1. cont_loop ks (uninit_word k) g = Some (Done g1) \<and> gdb_send_stop_reason g1 = Some g')"
  by (cases "cont_loop ks (uninit_word k) g") (auto simp: cont_def split: progress.splits)

lemma cont_small_steps:
  assumes "cont_loop ks i g = Some (Done g1)" "gdb_send_stop_reason g1 = Some g2" "\<not> terminated g2"
    and "gdb_at c = Continuing k p i" "gdb (server c) = g"
  shows "thread_run be [Gdb (Packet p)] c ((set_gdb c g2)\<lparr>gdb_at := At_unlock\<rparr>)"
  using assms
proof (induction ks i g arbitrary: c rule: cont_loop.induct)
  case (2 k' ks i g)
  then obtain i' g' where l: "cont_look i g = Some (i', g')" by (auto simp: bind_eq_Some_conv)
  show ?case
  proof (cases "i' AND 0xFFF000F0 = 0xE7F000F0")
    case True
    then have "g' = g1" using 2(2) l by simp
    then have "thread_step be [Gdb (Packet p)] c ((set_gdb c g2)\<lparr>gdb_at := At_unlock\<rparr>)"
      using thread_step.cont_stop [OF 2(5), of i' g' g2] l True 2 by simp
    then show ?thesis by (rule runs_of_one)
  next
    case False
    then obtain g3 where g3: "gdb_run_step k' g' = Some g3" "cont_loop ks i' g3 = Some (Done g1)"
      using 2(2) l by (auto simp: bind_eq_Some_conv)
    let ?c = "(set_gdb c g3)\<lparr>gdb_at := Continuing k p i'\<rparr>"
    have "thread_step be [] c ?c" using thread_step.cont_step [OF 2(5) _ False g3(1)] l 2(6) by simp
    moreover have "thread_run be [Gdb (Packet p)] ?c ((set_gdb ?c g2)\<lparr>gdb_at := At_unlock\<rparr>)"
      using 2(1) [OF l refl False g3(1) g3(2) 2(3,4), of ?c] by simp
    ultimately show ?thesis using runs_of_then [of "thread_step be" "[]" c ?c] by simp
  qed
qed simp

lemma command_small_steps:
  assumes "packet_opens k p = Some (h, raw)" "run_handler h ks k be raw (gdb (opened d)) = Some (Done g)" "\<not> terminated g"
  shows "thread_run be [Gdb (Packet p)] (idle d) (idle ((opened d)\<lparr>gdb := g\<rparr>))"
proof -
  let ?c1 = "(idle d)\<lparr>server := opened d, gdb_at := At_lock k p h raw\<rparr>"
  let ?c2 = "?c1\<lparr>gdb_at := Handling k p h raw, mutex := Some Gdb_thread\<rparr>"
  let ?c3 = "(set_gdb ?c2 g)\<lparr>gdb_at := At_unlock\<rparr>"
  have s1: "thread_step be [] (idle d) ?c1" using thread_step.open_packet [of "idle d" k p h raw] assms(1) by (simp add: idle_def)
  have s2: "thread_step be [] ?c1 ?c2" by (rule thread_step.lock) (simp_all add: idle_def)
  have s3: "thread_run be [Gdb (Packet p)] ?c2 ?c3"
  proof (cases "h = Cont")
    case False
    then have "thread_step be [Gdb (Packet p)] ?c2 ?c3"
      using assms(2,3) by (intro thread_step.handle) (simp_all add: run_handler_steps [of h ks])
    then show ?thesis by (rule runs_of_one)
  next
    case True
    then obtain g1 where l: "cont_loop ks (uninit_word k) (gdb (opened d)) = Some (Done g1)" "gdb_send_stop_reason g1 = Some g"
      using assms(2) cont_Done by (auto simp: run_handler_def)
    let ?c = "?c2\<lparr>gdb_at := Continuing k p (uninit_word k)\<rparr>"
    have "thread_step be [] ?c2 ?c" using True by (intro thread_step.cont_start) simp
    moreover have "thread_run be [Gdb (Packet p)] ?c ((set_gdb ?c g)\<lparr>gdb_at := At_unlock\<rparr>)"
      by (rule cont_small_steps [OF l assms(3)]) simp_all
    ultimately show ?thesis using runs_of_then [of "thread_step be" "[]" ?c2 ?c] by simp
  qed
  have s4: "thread_step be [] ?c3 (idle ((opened d)\<lparr>gdb := g\<rparr>))"
    using thread_step.unlock [of ?c3 be] by (simp add: idle_def)
  from runs_of.go [where step = "thread_step be", OF s1 runs_of.go [where step = "thread_step be", OF s2 runs_of_append [OF s3 runs_of_one [where step = "thread_step be", OF s4]]]] show ?thesis
    by simp
qed

lemma irq_small_steps:
  assumes "irq_received irq (target (gdb d)) = Some s"
  shows "thread_run be [Irq irq] (idle d) (idle (with_target d s))"
proof -
  let ?c1 = "(idle d)\<lparr>irq_at := Irq_at_lock irq\<rparr>"
  let ?c2 = "?c1\<lparr>irq_at := Raising irq, mutex := Some Irq_thread\<rparr>"
  let ?c3 = "?c2\<lparr>server := with_target d s, irq_at := Irq_at_unlock\<rparr>"
  have s1: "thread_step be [] (idle d) ?c1" by (rule thread_step.irq_read) (simp add: idle_def)
  have s2: "thread_step be [] ?c1 ?c2" by (rule thread_step.irq_lock) (simp_all add: idle_def)
  have s3: "thread_run be [Irq irq] ?c2 ?c3"
  proof (cases "irq = ucast RESET")
    case False
    then have "s = target (gdb d)" using assms by (simp add: exception_writes(2))
    then have "?c3 = ?c2\<lparr>irq_at := Irq_at_unlock\<rparr>" by (simp add: idle_def)
    moreover have "thread_step be [Irq irq] ?c2 (?c2\<lparr>irq_at := Irq_at_unlock\<rparr>)"
      using False by (intro thread_step.irq_ignored) simp_all
    ultimately show ?thesis by (metis runs_of_one)
  next
    case True
    then obtain u where u: "raise_cpsr (target (gdb d)) = Some u" "raise_pc u = Some s"
      using assms exception_writes(1) [of "target (gdb d)"] by (cases "raise_cpsr (target (gdb d))") auto
    let ?c = "?c2\<lparr>server := with_target d u, irq_at := Raising_pc\<rparr>"
    have "thread_step be [] ?c2 ?c"
      using thread_step.irq_cpsr [of ?c2 u be] u(1) True by (simp add: idle_def)
    moreover have "thread_step be [Irq irq] ?c ?c3"
      using thread_step.irq_pc [of ?c s be] u(2) True by (simp add: idle_def)
    ultimately show ?thesis by (blast intro: runs_of_then [OF _ runs_of_then [OF _ runs_of.stay]] append.simps)
  qed
  have s4: "thread_step be [] ?c3 (idle (with_target d s))"
    using thread_step.irq_unlock [of ?c3 be] by (simp add: idle_def)
  from runs_of.go [where step = "thread_step be", OF s1 runs_of.go [where step = "thread_step be", OF s2 runs_of_append [OF s3 runs_of_one [where step = "thread_step be", OF s4]]]] show ?thesis
    by simp
qed

lemma system_step_small_steps: "system_step be e d d' \<Longrightarrow> thread_run be [e] (idle d) (idle d')"
proof (induction rule: system_step.induct)
  case (gdb_step ks k t d d')
  show ?case
  proof (cases "token_opens k t")
    case None
    then have "thread_step be [Gdb t] (idle d) (idle d')"
      using thread_step.scan [of "idle d" k t ks be d'] gdb_step by (simp add: idle_def)
    then show ?thesis by (rule runs_of_one)
  next
    case (Some q)
    then obtain p h raw where p: "t = Packet p" "packet_opens k p = Some (h, raw)"
      by (cases q) (auto simp: token_opens_def split: token.splits)
    then obtain g where "run_handler h ks k be raw (gdb (opened d)) = Some (Done g)" "d' = (opened d)\<lparr>gdb := g\<rparr>" "\<not> terminated g"
      using gdb_step by (auto simp: token_opened)
    with command_small_steps [OF p(2), of ks be d g] p(1) show ?thesis by simp
  qed
next
  case (irq_step irq d s)
  then show ?case by (rule irq_small_steps)
qed

lemma thread_run_system_run: "thread_run be es (idle d) (idle d') \<longleftrightarrow> system_run be es d d'"
proof
  assume "thread_run be es (idle d) (idle d')"
  from threads.simulate_runs [OF this, of d] show "system_run be es d d'" by auto
next
  assume "system_run be es d d'"
  then show "thread_run be es (idle d) (idle d')"
  proof (induction rule: system_run.induct)
    case (run e d d' es d'')
    from runs_of_append [OF system_step_small_steps [OF run(1)] run(3)] show ?case by simp
  qed (rule runs_of.stay)
qed

subsection \<open>Properties\<close>

text \<open>C7: the lock makes the commands of gdb and the interrupts atomic: the interleavings of the small steps of the two
  threads lead from one idle state to another exactly where the runs of the atomic system do, with the commands and
  interrupts in the order in which they complete.\<close>

theorem threads_atomic:
  "thread_run be es (idle d) (idle d') \<longleftrightarrow> system_run be es d d'"
  by (rule thread_run_system_run)

text \<open>C8: the concurrency of the program is invisible to gdb: as long as no reset arrives, the small steps of both threads,
  interleaved in any way and with any other interrupts, take the server where the scanner alone takes it on the same
  tokens.\<close>

theorem threads_sequential:
  assumes "Irq (ucast RESET) \<notin> set es" "filter from_gdb es = map Gdb ts"
  shows "(\<exists>d'. thread_run be es (idle d) (idle d') \<and> d'' = handle_error d' \<and> \<not> terminated (gdb d'')) \<longleftrightarrow>
    (\<exists>env. yylex env be ts d = Some (Scanning d''))"
  unfolding thread_run_system_run scanner_is_run system_ignores_irqs [OF assms(1)] assms(2) ..

text \<open>An interrupt before and one after an acknowledgement.\<close>

theorem threads_sequential_witness:
  "\<exists>d'. thread_run False [Irq 6, Gdb Ack, Irq 3] (idle (scanner_init blank (\<lambda>_. NUL))) (idle d') \<and>
    scanner_init blank (\<lambda>_. NUL) = handle_error d'"
proof -
  let ?d = "scanner_init blank (\<lambda>_. NUL)"
  have "yylex env False [Ack] ?d = Some (Scanning ?d)" for env
    by (simp add: token_action_def handle_error_def proceed_def scanner_init_def gdb_init_data_def)
  then have "\<exists>env. yylex env False [Ack] ?d = Some (Scanning ?d)" by blast
  with threads_sequential [of "[Irq 6, Gdb Ack, Irq 3]" "[Ack]" False ?d ?d] show ?thesis by auto
qed

lemma alive_step: "thread_step be es c c' \<Longrightarrow> arm_alive c \<or> gdb_at c = Exited \<Longrightarrow> arm_alive c' \<or> gdb_at c' = Exited"
  by (induction rule: thread_step.induct) auto

text \<open>Nothing but the end of \<open>cont\<close> takes effect while it runs.\<close>

definition continues :: "string \<Rightarrow> threads \<Rightarrow> bool" where
  "continues p c \<longleftrightarrow> (\<exists>k i. gdb_at c = Continuing k p i) \<and> exclusive c"

lemma continues_step:
  "thread_step be es c c' \<Longrightarrow> continues p c \<Longrightarrow> es = [] \<and> continues p c' \<or> es = [Gdb (Packet p)]"
proof -
  assume step: "thread_step be es c c'" and c: "continues p c"
  then have e: "exclusive c'" using exclusive_step [OF step] by (simp add: continues_def)
  have i: "\<not> irq_inside c" using c by (auto simp: continues_def exclusive_def gdb_inside_def)
  from step show ?thesis using c e i by cases (auto simp: continues_def irq_inside_def)
qed

lemma continues_run:
  "thread_run be es c c' \<Longrightarrow> continues p c \<Longrightarrow> Gdb (Packet p) \<notin> set es \<Longrightarrow> es = [] \<and> continues p c'"
  by (induction rule: runs_of.induct) (auto dest!: continues_step)

text \<open>C9: the threads exclude each other: never are both in their critical sections, the lock is free exactly when none is,
  so a thread that waits waits for the other one only; no interrupt takes effect while \<open>cont\<close> runs the processor; and
  the processor is not destroyed before the thread of gdb has ended.\<close>

theorem threads_exclude:
  assumes "thread_run be es (idle d) c"
  shows "\<not> (gdb_inside c \<and> irq_inside c) \<and> (mutex c = None \<longleftrightarrow> \<not> gdb_inside c \<and> \<not> irq_inside c) \<and>
    (\<forall>k p i es' c'. gdb_at c = Continuing k p i \<and> thread_run be es' c c' \<and> Gdb (Packet p) \<notin> set es' \<longrightarrow> es' = []) \<and>
    (arm_alive c \<or> gdb_at c = Exited)"
proof -
  have "exclusive c" by (rule runs_of_invariant [OF assms _ exclusive_step]) auto
  moreover from this have "\<forall>k p i es' c'. gdb_at c = Continuing k p i \<and> thread_run be es' c c' \<and> Gdb (Packet p) \<notin> set es' \<longrightarrow> es' = []"
    using continues_run by (fastforce simp: continues_def)
  moreover have "mutex c = None \<or> mutex c = Some Gdb_thread \<or> mutex c = Some Irq_thread"
    by (cases "mutex c") (auto intro: owner.exhaust)
  moreover have "arm_alive c \<or> gdb_at c = Exited"
    by (rule runs_of_invariant [OF assms _ alive_step]) (auto simp: idle_def)
  ultimately show ?thesis by (auto simp: exclusive_def)
qed

lemma irq_takes_lock:
  "thread_run be [] (idle d) ((idle d)\<lparr>irq_at := Raising irq, mutex := Some Irq_thread\<rparr>)"
proof -
  let ?c1 = "(idle d)\<lparr>irq_at := Irq_at_lock irq\<rparr>"
  have s1: "thread_step be [] (idle d) ?c1" by (rule thread_step.irq_read) (simp add: idle_def)
  have s2: "thread_step be [] ?c1 (?c1\<lparr>irq_at := Raising irq, mutex := Some Irq_thread\<rparr>)"
    by (rule thread_step.irq_lock) (simp_all add: idle_def)
  from runs_of.go [where step = "thread_step be", OF s1 runs_of_one [where step = "thread_step be", OF s2]] show ?thesis by simp
qed

text \<open>The thread of the interrupts in \<open>arm_exception\<close>.\<close>

theorem threads_exclude_witness:
  "\<exists>c. thread_run False [] (idle (scanner_init blank (\<lambda>_. NUL))) c \<and> irq_inside c \<and> \<not> gdb_inside c \<and> mutex c \<noteq> None"
proof -
  let ?c = "(idle (scanner_init blank (\<lambda>_. NUL)))\<lparr>irq_at := Raising 1, mutex := Some Irq_thread\<rparr>"
  have "irq_inside ?c" by (simp add: irq_inside_def)
  with threads_exclude [OF irq_takes_lock [of False "scanner_init blank (\<lambda>_. NUL)" 1]] irq_takes_lock [of False "scanner_init blank (\<lambda>_. NUL)" 1]
  show ?thesis by blast
qed

text \<open>The end of \<open>main\<close> does not wait for the thread of the interrupts nor take the lock: the processor can be destroyed
  while that thread is about to reset it.\<close>

theorem destroyed_in_use:
  "\<exists>c. thread_run be [] (idle d) c \<and> irq_at c = Raising (ucast RESET) \<and> mutex c = Some Irq_thread \<and> \<not> arm_alive c"
proof -
  let ?c = "(idle d)\<lparr>irq_at := Raising (ucast RESET), mutex := Some Irq_thread\<rparr>"
  let ?c1 = "?c\<lparr>server := handle_error (server ?c), gdb_at := Exited\<rparr>"
  have s1: "thread_step be [] ?c ?c1" by (rule thread_step.end_of_input) (simp add: idle_def)
  have s2: "thread_step be [] ?c1 (?c1\<lparr>arm_alive := False\<rparr>)" by (rule thread_step.destroy) simp
  from runs_of_append [OF irq_takes_lock [of be d "ucast RESET"]
      runs_of.go [where step = "thread_step be", OF s1 runs_of_one [where step = "thread_step be", OF s2]]]
  show ?thesis by (intro exI [of _ "?c1\<lparr>arm_alive := False\<rparr>"]) simp
qed

end
