(* ===== verification/Insertion_Sort.thy ===== *)
theory Insertion_Sort
  imports Prelude
begin

text \<open>
  The example program \<open>Examples/insertion_sort.c\<close>.  Its inner loop never changes \<open>j\<close>, so it is a \<open>partial_function\<close>
  whose value \<^const>\<open>None\<close> is a loop that does not end.
\<close>

subsection \<open>The program\<close>

definition SIZE :: nat where
  "SIZE = 10"

definition table :: "int list" where
  "table = [3, 6, 2, 0, 4, 1, 9, 8, 5, 7]"

partial_function (option) inner_loop :: "nat \<Rightarrow> int list \<Rightarrow> int list option" where
  "inner_loop j t =
     (if j > 0
      then inner_loop j (if t ! (j - 1) > t ! j then t[j - 1 := t ! j, j := t ! (j - 1)] else t)
      else Some t)"

partial_function (option) outer_loop :: "nat \<Rightarrow> int list \<Rightarrow> int list option" where
  "outer_loop i t = (if i < SIZE then Option.bind (inner_loop i t) (outer_loop (i + 1)) else Some t)"

definition insertion_sort :: "int list option" where
  "insertion_sort = outer_loop 0 table"

subsection \<open>Properties\<close>

lemma inner_loop_never_ends: "inner_loop j t = Some u \<Longrightarrow> j = 0"
  by (rule inner_loop.raw_induct [of "\<lambda>j t u. j = 0"]) (auto split: if_splits)

text \<open>The program does not sort and does not end: the inner loop returns only when \<open>j\<close> is 0 from the start.\<close>

theorem insertion_sort_diverges: "insertion_sort = None \<and> (\<forall>j t. inner_loop j t = (if j = 0 then Some t else None))"
proof -
  have inner: "inner_loop j t = (if j = 0 then Some t else None)" for j t
    using inner_loop_never_ends [of j t] inner_loop.simps [of 0 t] by (cases "inner_loop j t"; cases "j = 0") auto
  have "outer_loop (Suc 0) t = None" for t by (simp add: outer_loop.simps [of "Suc 0"] inner SIZE_def)
  then have "outer_loop 0 t = None" for t by (simp add: outer_loop.simps [of 0] inner SIZE_def)
  with inner show ?thesis by (simp add: insertion_sort_def)
qed

end
