(* ===== verification/Spec2Isabelle.thy ===== *)
theory Spec2Isabelle
  imports System_Properties Csapp_Wrappers Tests Step_Safety Debug_Messages Lifecycle Trace_Format Irq_Listener Command_Line Threads Insertion_Sort
begin

text \<open>
  The ARMv5 instruction set simulator of this repository, \<open>src/arm_simulator-1.4\<close>: a processor with its
  registers and memory, executed one instruction at a time, traced, and driven by gdb over a socket.

  \<^bold>\<open>The program.\<close>  \<open>arm_simulator.c\<close> creates the memory and the processor and starts two threads: one reads the
  packets of gdb (\<open>scanner.l\<close>) and executes its commands (\<open>gdb_protocol.c\<close>), the other receives interrupts.  A
  command reads or writes registers and memory, or calls \<open>arm_step\<close> (\<open>arm_instruction.c\<close>), which fetches an
  instruction, decodes it with the help of \<open>arm_branch_other.c\<close> and \<open>arm_load_store.c\<close>, and accesses registers and
  memory through \<open>arm_core.c\<close>.  Those accesses write lines to the trace (\<open>trace.c\<close>); outside \<open>arm_core.c\<close> they are the
  macros of \<open>trace_location.h\<close>, which also keep a stack of source positions.

  \<^bold>\<open>The theories.\<close>  The model, in the order of the code:
  \<^item> \<open>Prelude\<close>: machine integers, the values C leaves undetermined (record \<open>indet\<close>), the shifts of C, the
    interface \<open>keyed_store\<close> of a store with valid keys, and runs with the interface \<open>forward_simulation\<close>.
  \<^item> \<open>Util\<close> (\<open>util.h\<close>, \<open>util.c\<close>), \<open>Memory\<close> (\<open>memory.c\<close>), \<open>Constants\<close> (\<open>arm_constants.c\<close> and the conversions of \<open>printf\<close>),
    \<open>Registers\<close> (\<open>registers.c\<close>), \<open>Trace\<close> (\<open>trace.c\<close>), \<open>Debug\<close> (\<open>debug.c\<close>).
  \<^item> \<open>Core\<close>: \<open>arm_core.c\<close>, \<open>arm_exception.c\<close> and \<open>trace_location.h\<close>.  The state of the program is the record
    \<open>machine\<close>: processor, trace, printed texts.  An operation is an \<open>action\<close>, a function from the machine to an
    optional result and machine.
  \<^item> \<open>Branch_Other\<close>, \<open>Load_Store\<close>, \<open>Instruction\<close>: the decoders and the execution of an instruction.
  \<^item> \<open>Gdb_Format\<close>, \<open>Gdb_Packet\<close>, \<open>Gdb\<close>: the texts, the packet buffer and the handlers of \<open>gdb_protocol.c\<close>.
  \<^item> \<open>Scanner\<close>: the tokens and actions of \<open>scanner.l\<close>, and sessions of packets.
  \<^item> \<open>Csapp\<close>: the wrappers of \<open>csapp.c\<close> the programs call and its Rio transfers, over the results of the system
    calls (record \<open>stream_io\<close>); \<open>Csapp_Wrappers\<close>: the other wrappers and the helpers for clients and servers.
  \<^item> \<open>Send_Irq\<close> (\<open>send_irq.c\<close>) and \<open>Simulator\<close> (\<open>arm_simulator.c\<close>): the two programs.  The shared state is the
    machine inside the server of gdb; \<open>system_step\<close> interleaves the tokens of gdb with interrupts.
    \<open>Irq_Listener\<close> is the loop of the second thread over its connections; \<open>Command_Line\<close> reads \<open>argv\<close> with
    \<open>getopt_long\<close> and the tables of \<open>main\<close>, against a grammar of the documented options and their effects; \<open>Threads\<close> runs both threads in small steps with their lock.
  \<^item> \<open>Lifecycle\<close>: \<open>main\<close> from the creation to its \<open>return\<close> (\<open>main_blocks\<close>): the heap blocks that the functions
    \<open>_create\<close> allocate, the session of gdb and of the interrupts on the machine in them (\<open>serve\<close>, by the operations
    of the theories above), and what the functions \<open>_destroy\<close> free.
  \<^item> \<open>Debug_Messages\<close>: the message macros of \<open>debug.h\<close> with and without their cache; \<open>Trace_Format\<close>: \<open>trace.c\<close> compiled
    with \<open>ARM_TRACE_FORMAT\<close>.
  \<^item> \<open>Tests\<close>: \<open>memory_test.c\<close> and \<open>test_register.c\<close> run on the models; \<open>Insertion_Sort\<close>: the example
    \<open>Examples/insertion_sort.c\<close>.

  The proofs:
  \<^item> \<open>Core_Refinement\<close> states the interface \<open>traced_action\<close>: an action does to the processor exactly what a
    function on the processor alone does, and keeps the options of the trace and the height of its location
    stack.  Every access of \<open>arm_core.c\<close> is an interpretation of it, located calls and sequences keep it.
  \<^item> \<open>Instruction_Refinement\<close> composes these into \<open>core_step\<close>, one instruction on the processor alone, and
    interprets the interface on \<open>arm_step\<close>.
  \<^item> \<open>Step_Properties\<close>: what an instruction of each class does, and the invariants of runs.
  \<^item> \<open>Step_Safety\<close>: exactly which steps have a result, and that runs inside the memory do not get stuck.
  \<^item> \<open>Gdb_Properties\<close>, \<open>Gdb_Memory_Properties\<close>, \<open>Gdb_Run_Properties\<close>: packets, registers, memory and its errors, and
    the commands that run the processor.
  \<^item> \<open>Gdb_Invariant\<close>: what every handler keeps (\<open>kept\<close>), lifted in \<open>Simulator\<close> to all runs of the two threads;
    \<open>System_Properties\<close>: from the bytes of gdb to the processor, instruction by instruction and for a whole
    debugging session (a program is loaded, run up to a breakpoint, and its memory read).
  The interface \<open>robust_read\<close> states what the robust reads of \<open>csapp.c\<close> rely on; it is interpreted on the system call
  and on the buffered read.
  The interface \<open>owner\<close> of \<open>Lifecycle\<close> states that a destruction frees exactly what its creation has allocated; it is
  interpreted on the memory, the registers and the processor.
  The interface \<open>forward_simulation\<close> carries a simulation of single steps over to runs; it is interpreted on the small
  steps of the threads and the atomic steps of the system.
  The interface \<open>keyed_store\<close> is interpreted on the registers, on the bytes of the memory and on the packet
  buffer.

  \<^bold>\<open>Undefined behaviour.\<close>  \<^const>\<open>None\<close> is an access outside an allocated object; a theorem that states a result
  \<^term>\<open>Some x\<close> states that this does not happen.  Oversized shifts, uninitialised variables and the missing
  \<open>return\<close> of \<open>ConditionPassed\<close> take their values from an argument \<open>indet\<close>, over which the theorems quantify; the
  hypothesis \<open>shl_by_width_keeps_or_clears\<close> names the two behaviours of a left shift by 32 found in practice,
  and is needed where the code rotates by 0.  The failures of \<open>malloc\<close> are modelled in \<open>Lifecycle\<close>; elsewhere \<open>malloc\<close> of
  the processor, the registers and the server returns a block.  A memory whose block was not allocated has size 0, so an access
  through its null pointer is \<^const>\<open>None\<close> as well.

  \<^bold>\<open>Bounds and fuel.\<close>  The location stack has 128 entries; a step needs two of them free (\<open>room 2\<close>), and an empty
  stack has all.  The loop of \<open>cont\<close> may run forever, so \<open>cont_loop\<close> takes the list of the indeterminate values
  of its steps and is still \<open>Running\<close> when the list is used up; \<open>gdb_cont_reaches\<close> shows that a list longer than
  the way to the breakpoint is enough, \<open>gdb_cont_runs\<close> that without a breakpoint no list is.  The heap of \<open>Lifecycle\<close>
  carries the results of its next allocations.

  \<^bold>\<open>What the properties show.\<close>  The arithmetic and logical instructions, branches, loads and stores of words,
  conditions, and the commands of the debugger behave as intended where the theorems say so.  Several
  properties state what the code does where that is not what it means to do: flags are never written, \<open>BIC\<close>
  and \<open>MVN\<close> negate logically, shift amounts and transfer addresses are register numbers, \<open>LS\<close> is tested wrongly,
  exceptions are never raised, interrupts are ignored, reset leaves PC alone, some accesses overrun the memory, the packet buffer or
  the table of debugged files, and the end of \<open>main\<close> can destroy the processor under the thread of the interrupts.

  \<^bold>\<open>Environment.\<close>  Results of system calls are arguments.  A read delivers a part of what has arrived, a write takes a
  part of what it is given; \<^const>\<open>None\<close> in \<open>Csapp\<close> is a call that has not returned.  The options of \<open>main\<close> are the
  characters and arguments \<open>getopt_long\<close> returns; \<open>Command_Line\<close> models that function as the manual of the C library
  describes it, with \<open>POSIXLY_CORRECT\<close> not set.  A handler and an interrupt are one step each, which \<open>threads_atomic\<close> justifies; a
  \<open>cont\<close> that is still running keeps the lock and no interrupt is taken.  Once \<open>terminated\<close> is set the process has
  ended and the rest of the state has no meaning.

  \<^bold>\<open>Not modelled.\<close>  The wrappers of \<open>csapp.c\<close> that only call, the messages of
  \<open>getopt_long\<close>, the assembly programs of \<open>Examples\<close>, host addresses and sockets themselves, the messages the handlers print with the macros of
  \<open>debug.h\<close> on the standard error, and \<open>no_trace_location.h\<close>, which only undefines the macros of \<open>trace_location.h\<close>.  In \<open>Gdb_Packet\<close> a write of \<open>Rio_writen\<close> is the text it sends; \<open>rio_writen_delivers\<close> justifies it.
\<close>

end
